(* ===== verification/Prelude.thy ===== *)
theory Prelude
  imports Main "HOL-Library.Word"
begin

text \<open>
  Shared vocabulary of the development: the machine integer types of the C++ headers and of the
  Go node, raw memory as the headers see it, the three-way byte comparison of the C library, and
  the generic lemmas on lists and words the component theories use.
\<close>

type_synonym byte = "8 word"
type_synonym u32 = "32 word"
type_synonym u64 = "64 word"
type_synonym size_t = "64 word"
type_synonym u256 = "256 word"
type_synonym bytes = "byte list"

named_theorems model_simps \<open>unfolding rules for the small accessors of the model\<close>

section \<open>Lists\<close>

lemma list_eq_by_nth:
  assumes "length xs = length ys" and "\<And>i. i < length xs \<Longrightarrow> xs ! i = ys ! i"
  shows "xs = ys"
  using assms by (auto intro: nth_equalityI)

lemma take_Suc_snoc: "i < length xs \<Longrightarrow> take (Suc i) xs = take i xs @ [xs ! i]"
  by (simp add: take_Suc_conv_app_nth)

lemma filter_id_when_all: "(\<And>x. x \<in> set xs \<Longrightarrow> P x) \<Longrightarrow> filter P xs = xs"
  by (induction xs) auto

lemma takeWhile_upt_first:
  assumes "k < N" and "\<not> P k"
  shows "length (takeWhile P [0..<N]) < N" and "\<not> P (length (takeWhile P [0..<N]))"
    and "j < length (takeWhile P [0..<N]) \<Longrightarrow> P j"
proof -
  let ?n = "length (takeWhile P [0..<N])"
  have "takeWhile P [0..<N] \<noteq> [0..<N]"
    using assms by (auto simp: takeWhile_eq_all_conv)
  then have "?n \<noteq> length [0..<N]"
    using takeWhile_eq_take [of P "[0..<N]"] by auto
  then show n: "?n < N"
    using length_takeWhile_le [of P "[0..<N]"] by simp
  show "\<not> P ?n"
    using nth_length_takeWhile [of P "[0..<N]"] n by simp
  show "P j" if "j < ?n"
  proof -
    have "takeWhile P [0..<N] ! j = j"
      using that n by (simp add: takeWhile_nth)
    moreover have "takeWhile P [0..<N] ! j \<in> set (takeWhile P [0..<N])"
      using that by (rule nth_mem)
    ultimately show ?thesis by (metis set_takeWhileD)
  qed
qed

section \<open>Words\<close>

lemma unat_bound:
  fixes w :: "'a::len word"
  shows "unat w < 2 ^ LENGTH('a)"
  by (rule unsigned_less)

lemma unat_sub_le:
  fixes a b :: "'a::len word"
  assumes "b \<le> a"
  shows "unat (a - b) = unat a - unat b"
  using assms by (simp add: unat_sub)

lemma unat_add_bounded:
  fixes a b :: "'a::len word"
  assumes "unat a + unat b < 2 ^ LENGTH('a)"
  shows "unat (a + b) = unat a + unat b"
  using assms by (simp add: unat_word_ariths)

lemma unat_of_nat_small:
  assumes "n < 2 ^ LENGTH('a::len)"
  shows "unat (of_nat n :: 'a word) = n"
  using assms by (simp add: unat_of_nat take_bit_nat_eq_self)

section \<open>Lexicographic comparison of byte strings\<close>

text \<open>
  \<open>memcmp\<close> of the C library on two buffers of the same length: the sign of the first differing
  byte, bytes read as unsigned. The C standard fixes the sign only; the model returns -1, 0 or 1.
\<close>

fun memcmp :: "bytes \<Rightarrow> bytes \<Rightarrow> int" where
  "memcmp (x # xs) (y # ys) = (if x < y then - 1 else if y < x then 1 else memcmp xs ys)"
| "memcmp _ _ = 0"

text \<open>The strict lexicographic order on byte strings, a proper prefix first.\<close>

fun lex_less :: "bytes \<Rightarrow> bytes \<Rightarrow> bool" where
  "lex_less _ [] = False"
| "lex_less [] (_ # _) = True"
| "lex_less (x # xs) (y # ys) = (x < y \<or> (x = y \<and> lex_less xs ys))"

lemma lex_less_irrefl [simp]: "\<not> lex_less xs xs"
  by (induction xs) auto

lemma lex_less_trans: "lex_less xs ys \<Longrightarrow> lex_less ys zs \<Longrightarrow> lex_less xs zs"
proof (induction xs ys arbitrary: zs rule: lex_less.induct)
  case (1 xs)
  then show ?case by simp
next
  case (2 y ys)
  then show ?case by (cases zs) auto
next
  case (3 x xs y ys)
  then show ?case by (cases zs) (auto dest: order.strict_trans)
qed

lemma lex_less_total: "lex_less xs ys \<or> xs = ys \<or> lex_less ys xs"
proof (induction xs arbitrary: ys)
  case Nil
  then show ?case by (cases ys) auto
next
  case (Cons x xs)
  then show ?case by (cases ys) (auto intro: linorder_less_linear)
qed

lemma lex_less_asym: "lex_less xs ys \<Longrightarrow> \<not> lex_less ys xs"
  using lex_less_trans lex_less_irrefl by blast

lemma memcmp_range: "memcmp xs ys \<in> {- 1, 0, 1}"
  by (induction xs ys rule: memcmp.induct) auto

lemma memcmp_eq_zero:
  "length xs = length ys \<Longrightarrow> memcmp xs ys = 0 \<longleftrightarrow> xs = ys"
  by (induction xs ys rule: memcmp.induct) auto

lemma memcmp_lex:
  "length xs = length ys \<Longrightarrow> memcmp xs ys < 0 \<longleftrightarrow> lex_less xs ys"
  by (induction xs ys rule: memcmp.induct) auto

lemma memcmp_take_zero_prefix:
  assumes "memcmp (take n xs) (take n ys) = 0" and "n \<le> length xs" and "n \<le> length ys"
  shows "take n xs = take n ys"
  using assms by (simp add: memcmp_eq_zero)

section \<open>Raw memory\<close>

text \<open>
  Pointers into storage the program does not own: a null pointer or an address; the memory holds
  one byte per address.
\<close>

datatype ptr = Null | Addr nat

type_synonym mem = "nat \<Rightarrow> byte"

fun ptr_add :: "ptr \<Rightarrow> nat \<Rightarrow> ptr" where
  "ptr_add Null n = Null"
| "ptr_add (Addr a) n = Addr (a + n)"

fun mem_read :: "mem \<Rightarrow> ptr \<Rightarrow> nat \<Rightarrow> bytes" where
  "mem_read m Null n = []"
| "mem_read m (Addr a) n = map m [a..<a + n]"

lemma length_mem_read: "length (mem_read m p n) = (if p = Null then 0 else n)"
  by (cases p) auto

lemma length_mem_read_Addr [simp]: "length (mem_read m (Addr a) n) = n"
  by (simp add: length_mem_read)

lemma nth_mem_read [simp]: "i < n \<Longrightarrow> mem_read m (Addr a) n ! i = m (a + i)"
  by simp

lemma take_mem_read: "k \<le> n \<Longrightarrow> take k (mem_read m p n) = mem_read m p k"
  by (cases p) (auto intro: nth_equalityI)

lemma drop_mem_read: "drop k (mem_read m p n) = mem_read m (ptr_add p k) (n - k)"
  by (cases p) (auto intro: nth_equalityI simp: add.assoc)

lemma mem_read_zero [simp]: "mem_read m p 0 = []"
  by (cases p) auto

declare mem_read.simps(2) [simp del]

section \<open>Outcomes of Go functions\<close>

text \<open>
  A Go function that can return an error or stop with a run-time panic (a dereferenced nil pointer,
  a division by zero, an index out of range).
\<close>

datatype ('e, 'a) outcome = Returns 'a | Fails 'e | Panics

section \<open>Big-endian integers\<close>

text \<open>The \<open>n\<close> low bytes of a number, the most significant first, and the number a byte string reads as.\<close>

fun be_bytes :: "nat \<Rightarrow> nat \<Rightarrow> string" where
  "be_bytes 0 x = []"
| "be_bytes (Suc n) x = be_bytes n (x div 256) @ [char_of x]"

definition be_nat :: "string \<Rightarrow> nat" where
  "be_nat s = foldl (\<lambda>a c. a * 256 + of_char c) 0 s"

definition be64 :: "u64 \<Rightarrow> string" where
  "be64 w = be_bytes 8 (unat w)"

definition from_be64 :: "string \<Rightarrow> u64" where
  "from_be64 s = of_nat (be_nat s)"

lemma length_be_bytes [simp]: "length (be_bytes n x) = n"
  by (induction n arbitrary: x) simp_all

lemma length_be64 [simp]: "length (be64 w) = 8"
  by (simp add: be64_def)

lemma be_nat_be_bytes: "be_nat (be_bytes n x) = x mod 256 ^ n"
proof (induction n arbitrary: x)
  case (Suc n)
  have "be_nat (be_bytes (Suc n) x) = be_nat (be_bytes n (x div 256)) * 256 + x mod 256"
    by (simp add: be_nat_def)
  also have "\<dots> = x mod 256 ^ Suc n"
    using Suc mod_mult2_eq [of x 256 "256 ^ n"] by (simp add: mult.commute)
  finally show ?case .
qed (simp add: be_nat_def)

lemma from_be64_be64 [simp]: "from_be64 (be64 w) = w"
proof -
  have "unat w mod 256 ^ 8 = unat w" using unat_bound [of w] by (intro mod_less) simp
  then show ?thesis by (simp add: from_be64_def be64_def be_nat_be_bytes del: be_bytes.simps)
qed

lemma be64_inject [simp]: "be64 a = be64 b \<longleftrightarrow> a = b"
  by (metis from_be64_be64)

lemma be64_nonempty [simp]: "be64 w \<noteq> []"
  using length_be64 [of w] by (metis list.size(3) zero_neq_numeral)

section \<open>Hexadecimal text\<close>

text \<open>\<open>encoding/hex\<close>: two lower-case digits per byte; decoding also takes upper case and refuses the rest.\<close>

definition hex_digit :: "nat \<Rightarrow> char" where
  "hex_digit n = (if n < 10 then char_of (48 + n) else char_of (87 + n))"

definition hex_value :: "char \<Rightarrow> nat option" where
  "hex_value c = (let n = of_char c :: nat in
     if 48 \<le> n \<and> n \<le> 57 then Some (n - 48) else if 97 \<le> n \<and> n \<le> 102 then Some (n - 87)
     else if 65 \<le> n \<and> n \<le> 70 then Some (n - 55) else None)"

definition hexEncode :: "string \<Rightarrow> string" where
  "hexEncode s = concat (map (\<lambda>c. [hex_digit (of_char c div 16), hex_digit (of_char c mod 16)]) s)"

fun hexDecode :: "string \<Rightarrow> string option" where
  "hexDecode [] = Some []"
| "hexDecode (a # b # s) =
     (case (hex_value a, hex_value b) of
        (Some x, Some y) \<Rightarrow> map_option (\<lambda>r. char_of (16 * x + y) # r) (hexDecode s)
      | _ \<Rightarrow> None)"
| "hexDecode [a] = None"

lemma hex_value_digit:
  assumes "n < 16"
  shows "hex_value (hex_digit n) = Some n"
proof (cases "n < 10")
  case True
  then have "(48 + n) mod 256 = 48 + n" by simp
  then show ?thesis using True by (simp add: hex_value_def hex_digit_def Let_def)
next
  case False
  have "(87 + n) mod 256 = 87 + n" using assms by simp
  then show ?thesis using False assms by (simp add: hex_value_def hex_digit_def Let_def)
qed

lemma hexDecode_hexEncode [simp]: "hexDecode (hexEncode s) = Some s"
proof (induction s)
  case (Cons c s)
  have "(of_char c :: nat) < 256" using nat_of_char_less_256 [of c] by simp
  then have "(of_char c :: nat) div 16 < 16" "(of_char c :: nat) mod 16 < 16"
    by (simp_all add: less_mult_imp_div_less)
  then have "hex_value (hex_digit (of_char c div 16)) = Some (of_char c div 16)"
      "hex_value (hex_digit (of_char c mod 16)) = Some (of_char c mod 16)"
    by (simp_all only: hex_value_digit)
  moreover have "16 * (of_char c div 16) + of_char c mod 16 = (of_char c :: nat)" by simp
  ultimately show ?case using Cons by (simp add: hexEncode_def)
qed (simp add: hexEncode_def)

end
