(* ===== verification/Slices.thy ===== *)
theory Slices
  imports Prelude
begin

text \<open>
  The byte views of \<open>libs/rocksdb/slice.h\<close>: \<open>Slice\<close> (a pointer and a size into storage it does not
  own), \<open>OptSlice\<close>, \<open>PinnableSlice\<close> with the cleanup list of \<open>libs/rocksdb/cleanable.h\<close>, and
  \<open>SliceParts\<close>. A member \<open>x_\<close> of the C++ classes is the record field \<open>x_f\<close>. A failed \<open>assert\<close> is the value \<open>None\<close>. What a slice stands for is \<open>slice_bytes\<close>;
  the lemmas relate every operation to that byte string.
\<close>

section \<open>Slice\<close>

record Slice =
  data_f :: ptr
  size_f :: size_t

text \<open>The address of the empty string literal; no byte of it is ever read through a slice.\<close>

definition empty_literal :: ptr where
  "empty_literal = Addr 0"

definition Slice_default :: Slice where
  "Slice_default = \<lparr>data_f = empty_literal, size_f = 0\<rparr>"

definition Slice_of :: "ptr \<Rightarrow> size_t \<Rightarrow> Slice" where
  "Slice_of d n = \<lparr>data_f = d, size_f = n\<rparr>"

partial_function (option) strlen_from :: "mem \<Rightarrow> nat \<Rightarrow> nat \<Rightarrow> nat option" where
  "strlen_from m a n = (if m (a + n) = 0 then Some n else strlen_from m a (Suc n))"

text \<open>\<open>strlen\<close> counts up to the terminating zero byte, \<open>None\<close> when there is none.\<close>

definition Slice_of_cstr :: "mem \<Rightarrow> ptr \<Rightarrow> Slice option" where
  "Slice_of_cstr m s = (case s of
       Null \<Rightarrow> Some \<lparr>data_f = Null, size_f = 0\<rparr>
     | Addr a \<Rightarrow> map_option (\<lambda>n. \<lparr>data_f = s, size_f = of_nat n\<rparr>) (strlen_from m a 0))"

definition data :: "Slice \<Rightarrow> ptr" where
  "data s = data_f s"

definition size_of :: "Slice \<Rightarrow> size_t" where
  "size_of s = size_f s"

definition empty :: "Slice \<Rightarrow> bool" where
  "empty s \<longleftrightarrow> size_f s = 0"

definition slice_index :: "mem \<Rightarrow> Slice \<Rightarrow> size_t \<Rightarrow> byte option" where
  "slice_index m s n =
     (if n < size_of s then (case data_f s of Null \<Rightarrow> None | Addr a \<Rightarrow> Some (m (a + unat n)))
      else None)"

definition clear :: "Slice \<Rightarrow> Slice" where
  "clear s = s\<lparr>data_f := empty_literal, size_f := 0\<rparr>"

definition remove_prefix :: "size_t \<Rightarrow> Slice \<Rightarrow> Slice option" where
  "remove_prefix n s =
     (if n \<le> size_of s then Some (s\<lparr>data_f := ptr_add (data_f s) (unat n), size_f := size_f s - n\<rparr>)
      else None)"

definition remove_suffix :: "size_t \<Rightarrow> Slice \<Rightarrow> Slice option" where
  "remove_suffix n s = (if n \<le> size_of s then Some (s\<lparr>size_f := size_f s - n\<rparr>) else None)"

text \<open>The bytes a slice stands for (\<open>ToStringView\<close>).\<close>

definition slice_bytes :: "mem \<Rightarrow> Slice \<Rightarrow> bytes" where
  "slice_bytes m s = mem_read m (data_f s) (unat (size_f s))"

definition starts_with :: "mem \<Rightarrow> Slice \<Rightarrow> Slice \<Rightarrow> bool" where
  "starts_with m s x \<longleftrightarrow>
     size_f x \<le> size_f s \<and>
     memcmp (mem_read m (data_f s) (unat (size_f x))) (mem_read m (data_f x) (unat (size_f x))) = 0"

definition ends_with :: "mem \<Rightarrow> Slice \<Rightarrow> Slice \<Rightarrow> bool" where
  "ends_with m s x \<longleftrightarrow>
     size_f x \<le> size_f s \<and>
     memcmp (mem_read m (ptr_add (data_f s) (unat (size_f s) - unat (size_f x))) (unat (size_f x)))
            (mem_read m (data_f x) (unat (size_f x))) = 0"

definition slice_eq :: "mem \<Rightarrow> Slice \<Rightarrow> Slice \<Rightarrow> bool" where
  "slice_eq m x y \<longleftrightarrow>
     size_of x = size_of y \<and>
     memcmp (mem_read m (data x) (unat (size_of x))) (mem_read m (data y) (unat (size_of x))) = 0"

abbreviation (input) slice_neq :: "mem \<Rightarrow> Slice \<Rightarrow> Slice \<Rightarrow> bool" where
  "slice_neq m x y \<equiv> \<not> slice_eq m x y"

definition compare :: "mem \<Rightarrow> Slice \<Rightarrow> Slice \<Rightarrow> int option" where
  "compare m s b =
     (if data_f s = Null \<or> data_f b = Null then None
      else let min_len = (if size_f s < size_f b then size_f s else size_f b);
               r = memcmp (mem_read m (data_f s) (unat min_len)) (mem_read m (data_f b) (unat min_len))
           in Some (if r = 0
                    then (if size_f s < size_f b then - 1 else if size_f b < size_f s then 1 else r)
                    else r))"

function diff_loop :: "mem \<Rightarrow> nat \<Rightarrow> nat \<Rightarrow> nat \<Rightarrow> nat \<Rightarrow> nat" where
  "diff_loop m a b off len =
     (if off < len then (if m (a + off) \<noteq> m (b + off) then off else diff_loop m a b (Suc off) len)
      else off)"
  by pat_completeness auto
termination
  by (relation "measure (\<lambda>(m, a, b, off, len). len - off)") auto

definition difference_offset :: "mem \<Rightarrow> Slice \<Rightarrow> Slice \<Rightarrow> nat option" where
  "difference_offset m s b =
     (let len = (if size_f s < size_f b then size_f s else size_f b)
      in case (data_f s, data_f b) of
           (Addr x, Addr y) \<Rightarrow> Some (diff_loop m x y 0 (unat len))
         | _ \<Rightarrow> (if len = 0 then Some 0 else None))"

declare diff_loop.simps [simp del]

text \<open>
  A slice is well formed when a null pointer comes with size 0, as every constructor but the one
  from a raw pointer and a size makes sure.
\<close>

definition slice_ok :: "Slice \<Rightarrow> bool" where
  "slice_ok s \<longleftrightarrow> (data_f s = Null \<longrightarrow> size_f s = 0)"

lemmas slice_accessors [model_simps] = data_def size_of_def empty_def

lemma length_slice_bytes [simp]: "slice_ok s \<Longrightarrow> length (slice_bytes m s) = unat (size_f s)"
  by (auto simp: slice_bytes_def slice_ok_def length_mem_read)

lemma slice_ok_default [simp]: "slice_ok Slice_default" and slice_ok_clear [simp]: "slice_ok (clear s)"
  by (simp_all add: slice_ok_def Slice_default_def clear_def empty_literal_def)

lemma slice_bytes_default [simp]: "slice_bytes m Slice_default = []"
  by (simp add: slice_bytes_def Slice_default_def)

lemma slice_bytes_clear [simp]: "slice_bytes m (clear s) = []"
  by (simp add: slice_bytes_def clear_def)

lemma slice_empty_iff: "slice_ok s \<Longrightarrow> empty s \<longleftrightarrow> slice_bytes m s = []"
  by (auto simp: empty_def unat_eq_0 simp flip: length_0_conv)

lemma strlen_from_stops:
  assumes "m (a + n) = 0" and "\<And>i. k \<le> i \<Longrightarrow> i < n \<Longrightarrow> m (a + i) \<noteq> 0" and "k \<le> n"
  shows "strlen_from m a k = Some n"
  using assms(3,2)
proof (induction "n - k" arbitrary: k)
  case 0
  with assms(1) show ?case by (simp add: strlen_from.simps)
next
  case (Suc d)
  then have "m (a + k) \<noteq> 0" and "strlen_from m a (Suc k) = Some n"
    by auto
  then show ?case by (subst strlen_from.simps) simp
qed

lemma Slice_of_cstr_bytes:
  assumes "m (a + n) = 0" and "\<And>i. i < n \<Longrightarrow> m (a + i) \<noteq> 0" and "n < 2 ^ 64"
  shows "\<exists>s. Slice_of_cstr m (Addr a) = Some s \<and> slice_bytes m s = mem_read m (Addr a) n"
proof -
  have "strlen_from m a 0 = Some n"
    by (rule strlen_from_stops) (use assms in auto)
  moreover have "unat (of_nat n :: size_t) = n"
    by (rule unat_of_nat_small) (use assms(3) in simp)
  ultimately show ?thesis
    by (simp add: Slice_of_cstr_def slice_bytes_def)
qed

lemma slice_index_nth:
  assumes "slice_ok s" and "n < size_f s"
  shows "slice_index m s n = Some (slice_bytes m s ! unat n)"
proof -
  from assms obtain a where a: "data_f s = Addr a"
    by (cases "data_f s") (auto simp: slice_ok_def)
  from assms(2) have "unat n < unat (size_f s)"
    by (simp add: word_less_nat_alt)
  with a assms(2) show ?thesis
    by (simp add: slice_index_def slice_bytes_def size_of_def)
qed

lemma remove_prefix_bytes:
  assumes "remove_prefix n s = Some t"
  shows "slice_bytes m t = drop (unat n) (slice_bytes m s)"
proof -
  from assms have "n \<le> size_f s"
    and t: "t = s\<lparr>data_f := ptr_add (data_f s) (unat n), size_f := size_f s - n\<rparr>"
    by (auto simp: remove_prefix_def size_of_def split: if_splits)
  then show ?thesis
    by (simp add: slice_bytes_def drop_mem_read unat_sub_le)
qed

lemma remove_suffix_bytes:
  assumes "remove_suffix n s = Some t" and "slice_ok s"
  shows "slice_bytes m t = take (length (slice_bytes m s) - unat n) (slice_bytes m s)"
proof -
  from assms(1) have "n \<le> size_f s" and t: "t = s\<lparr>size_f := size_f s - n\<rparr>"
    by (auto simp: remove_suffix_def size_of_def split: if_splits)
  then have "unat (size_f t) = unat (size_f s) - unat n"
    by (simp add: unat_sub_le)
  with t assms(2) show ?thesis
    by (simp add: slice_bytes_def take_mem_read length_mem_read slice_ok_def)
qed

lemma slice_eq_bytes:
  assumes "slice_ok x" and "slice_ok y"
  shows "slice_eq m x y \<longleftrightarrow> slice_bytes m x = slice_bytes m y"
proof -
  have len: "length (slice_bytes m x) = unat (size_f x)" "length (slice_bytes m y) = unat (size_f y)"
    using assms by simp_all
  show ?thesis
  proof (cases "size_f x = size_f y")
    case True
    with len show ?thesis
      by (simp add: slice_eq_def data_def size_of_def slice_bytes_def memcmp_eq_zero)
  next
    case False
    with len have "slice_bytes m x \<noteq> slice_bytes m y"
      by (metis word_unat_eq_iff)
    with False show ?thesis
      by (simp add: slice_eq_def size_of_def)
  qed
qed


section \<open>Ordering\<close>

text \<open>The comparison of two byte strings that \<open>Slice::compare\<close> computes.\<close>

definition bytes_compare :: "bytes \<Rightarrow> bytes \<Rightarrow> int" where
  "bytes_compare xs ys =
     (let r = memcmp xs ys
      in if r = 0
         then (if length xs < length ys then - 1 else if length ys < length xs then 1 else r)
         else r)"

lemma memcmp_take_min:
  "memcmp (take (min (length xs) (length ys)) xs) (take (min (length xs) (length ys)) ys) = memcmp xs ys"
  by (induction xs ys rule: memcmp.induct) auto

lemma bytes_compare_Cons:
  "bytes_compare (x # xs) (y # ys) =
     (if x < y then - 1 else if y < x then 1 else bytes_compare xs ys)"
  by (simp add: bytes_compare_def Let_def)

lemma bytes_compare_less: "bytes_compare xs ys < 0 \<longleftrightarrow> lex_less xs ys"
proof (induction xs ys rule: lex_less.induct)
  case (1 xs)
  then show ?case by (cases xs) (simp_all add: bytes_compare_def)
next
  case (2 y ys)
  then show ?case by (simp add: bytes_compare_def)
next
  case (3 x xs y ys)
  then show ?case by (auto simp: bytes_compare_Cons)
qed

lemma bytes_compare_antisym: "bytes_compare ys xs = - bytes_compare xs ys"
proof (induction xs ys rule: memcmp.induct)
  case (1 x xs y ys)
  then show ?case by (auto simp: bytes_compare_Cons)
qed (auto simp: bytes_compare_def Let_def)

lemma bytes_compare_greater: "0 < bytes_compare xs ys \<longleftrightarrow> lex_less ys xs"
  using bytes_compare_less [of ys xs] by (simp add: bytes_compare_antisym [of xs ys])

lemma bytes_compare_eq: "bytes_compare xs ys = 0 \<longleftrightarrow> xs = ys"
  using bytes_compare_less [of xs ys] bytes_compare_greater [of xs ys] lex_less_total [of xs ys]
  by fastforce

lemma compare_bytes:
  assumes "data_f a \<noteq> Null" and "data_f b \<noteq> Null"
  shows "compare m a b = Some (bytes_compare (slice_bytes m a) (slice_bytes m b))"
proof -
  define xs ys where "xs = slice_bytes m a" and "ys = slice_bytes m b"
  have len: "length xs = unat (size_f a)" "length ys = unat (size_f b)"
    using assms by (simp_all add: xs_def ys_def slice_ok_def)
  define n where "n = (if size_f a < size_f b then size_f a else size_f b)"
  have n: "unat n = min (length xs) (length ys)"
    by (simp add: n_def len min_def word_less_nat_alt)
  have "mem_read m (data_f a) (unat n) = take (unat n) xs"
    and "mem_read m (data_f b) (unat n) = take (unat n) ys"
    using n len by (simp_all add: xs_def ys_def slice_bytes_def take_mem_read)
  then have "memcmp (mem_read m (data_f a) (unat n)) (mem_read m (data_f b) (unat n)) = memcmp xs ys"
    using memcmp_take_min [of xs ys] by (simp add: n)
  moreover have "compare m a b = Some
      (let r = memcmp (mem_read m (data_f a) (unat n)) (mem_read m (data_f b) (unat n))
       in if r = 0
          then (if size_f a < size_f b then - 1 else if size_f b < size_f a then 1 else r)
          else r)"
    using assms by (simp add: compare_def n_def Let_def)
  ultimately show ?thesis
    unfolding xs_def [symmetric] ys_def [symmetric]
    by (simp only: bytes_compare_def Let_def len word_less_nat_alt)
qed

text \<open>
  \<open>Slice::compare\<close> is the three-way lexicographic comparison of the two byte strings: negative,
  zero or positive exactly when the first is smaller, equal or larger.
\<close>

theorem compare_lexicographic:
  assumes "data_f a \<noteq> Null" and "data_f b \<noteq> Null"
  shows "\<exists>r. compare m a b = Some r \<and>
    (r < 0 \<longleftrightarrow> lex_less (slice_bytes m a) (slice_bytes m b)) \<and>
    (r = 0 \<longleftrightarrow> slice_bytes m a = slice_bytes m b) \<and>
    (0 < r \<longleftrightarrow> lex_less (slice_bytes m b) (slice_bytes m a))"
  using assms by (simp add: compare_bytes bytes_compare_less bytes_compare_eq bytes_compare_greater)

theorem compare_lexicographic_witness:
  "\<exists>r. compare (\<lambda>i. of_nat i) \<lparr>data_f = Addr 1, size_f = 2\<rparr> \<lparr>data_f = Addr 1, size_f = 3\<rparr> = Some r \<and> r < 0"
proof -
  have "lex_less (slice_bytes (\<lambda>i. of_nat i) \<lparr>data_f = Addr 1, size_f = 2\<rparr>)
    (slice_bytes (\<lambda>i. of_nat i) \<lparr>data_f = Addr 1, size_f = 3\<rparr>)"
    by (simp add: slice_bytes_def mem_read.simps upt_rec)
  then show ?thesis
    using compare_lexicographic
      [of "\<lparr>data_f = Addr 1, size_f = 2\<rparr>" "\<lparr>data_f = Addr 1, size_f = 3\<rparr>" "\<lambda>i. of_nat i"]
    by auto
qed

lemma take_eq_prefix: "length ys \<le> length xs \<Longrightarrow> take (length ys) xs = ys \<longleftrightarrow> (\<exists>zs. xs = ys @ zs)"
  by (metis append_eq_conv_conj)

lemma drop_eq_suffix:
  "length ys \<le> length xs \<Longrightarrow> drop (length xs - length ys) xs = ys \<longleftrightarrow> (\<exists>zs. xs = zs @ ys)"
proof
  assume "length ys \<le> length xs" and "drop (length xs - length ys) xs = ys"
  then show "\<exists>zs. xs = zs @ ys" by (metis append_take_drop_id)
qed auto

lemma starts_with_prefix:
  assumes "slice_ok s" and "slice_ok x"
  shows "starts_with m s x \<longleftrightarrow> (\<exists>zs. slice_bytes m s = slice_bytes m x @ zs)"
proof -
  have lx: "length (slice_bytes m x) = unat (size_f x)" and ls: "length (slice_bytes m s) = unat (size_f s)"
    using assms by simp_all
  show ?thesis
  proof (cases "size_f x \<le> size_f s")
    case True
    then have le: "unat (size_f x) \<le> unat (size_f s)"
      by (simp add: word_le_nat_alt)
    then have "mem_read m (data_f s) (unat (size_f x)) = take (unat (size_f x)) (slice_bytes m s)"
      by (simp add: slice_bytes_def take_mem_read)
    with True le lx ls take_eq_prefix [of "slice_bytes m x" "slice_bytes m s"] show ?thesis
      by (simp add: starts_with_def memcmp_eq_zero flip: slice_bytes_def)
  next
    case False
    then have "length (slice_bytes m s) < length (slice_bytes m x)"
      by (simp add: lx ls word_le_nat_alt)
    then have "\<nexists>zs. slice_bytes m s = slice_bytes m x @ zs"
      by (metis length_append not_add_less1)
    with False show ?thesis by (simp add: starts_with_def)
  qed
qed

lemma ends_with_suffix:
  assumes "slice_ok s" and "slice_ok x"
  shows "ends_with m s x \<longleftrightarrow> (\<exists>zs. slice_bytes m s = zs @ slice_bytes m x)"
proof -
  have lx: "length (slice_bytes m x) = unat (size_f x)" and ls: "length (slice_bytes m s) = unat (size_f s)"
    using assms by simp_all
  show ?thesis
  proof (cases "size_f x \<le> size_f s")
    case True
    then have le: "unat (size_f x) \<le> unat (size_f s)"
      by (simp add: word_le_nat_alt)
    then have "mem_read m (ptr_add (data_f s) (unat (size_f s) - unat (size_f x))) (unat (size_f x))
        = drop (length (slice_bytes m s) - length (slice_bytes m x)) (slice_bytes m s)"
      by (simp only: lx ls) (simp add: slice_bytes_def drop_mem_read)
    with True le lx ls drop_eq_suffix [of "slice_bytes m x" "slice_bytes m s"] show ?thesis
      by (simp add: ends_with_def memcmp_eq_zero flip: slice_bytes_def)
  next
    case False
    then have "length (slice_bytes m s) < length (slice_bytes m x)"
      by (simp add: lx ls word_le_nat_alt)
    then have "\<nexists>zs. slice_bytes m s = zs @ slice_bytes m x"
      by (metis length_append not_add_less2)
    with False show ?thesis by (simp add: ends_with_def)
  qed
qed

lemma diff_loop_spec:
  assumes "off \<le> len" and "\<And>i. i < off \<Longrightarrow> m (a + i) = m (b + i)"
  shows "off \<le> diff_loop m a b off len \<and> diff_loop m a b off len \<le> len
    \<and> (\<forall>i < diff_loop m a b off len. m (a + i) = m (b + i))
    \<and> (diff_loop m a b off len < len \<longrightarrow>
         m (a + diff_loop m a b off len) \<noteq> m (b + diff_loop m a b off len))"
  using assms
proof (induction m a b off len rule: diff_loop.induct)
  case (1 m a b off len)
  show ?case
  proof (cases "off < len \<and> m (a + off) = m (b + off)")
    case True
    then have eq: "diff_loop m a b off len = diff_loop m a b (Suc off) len"
      by (simp add: diff_loop.simps [of m a b off len])
    have "m (a + i) = m (b + i)" if "i < Suc off" for i
      using that True "1.prems"(2) by (cases "i = off") auto
    with True have "Suc off \<le> diff_loop m a b (Suc off) len \<and> diff_loop m a b (Suc off) len \<le> len
      \<and> (\<forall>i < diff_loop m a b (Suc off) len. m (a + i) = m (b + i))
      \<and> (diff_loop m a b (Suc off) len < len \<longrightarrow>
         m (a + diff_loop m a b (Suc off) len) \<noteq> m (b + diff_loop m a b (Suc off) len))"
      by (intro "1.IH") auto
    then show ?thesis by (simp add: eq)
  next
    case False
    then have "diff_loop m a b off len = off"
      by (simp add: diff_loop.simps [of m a b off len])
    with 1 False show ?thesis by auto
  qed
qed


lemma difference_offset_spec:
  assumes "data_f s = Addr x" and "data_f b = Addr y"
  shows "\<exists>off. difference_offset m s b = Some off \<and>
    off \<le> min (length (slice_bytes m s)) (length (slice_bytes m b)) \<and>
    take off (slice_bytes m s) = take off (slice_bytes m b) \<and>
    (off < min (length (slice_bytes m s)) (length (slice_bytes m b)) \<longrightarrow>
       slice_bytes m s ! off \<noteq> slice_bytes m b ! off)"
proof -
  define len where "len = (if size_f s < size_f b then size_f s else size_f b)"
  define off where "off = diff_loop m x y 0 (unat len)"
  have len: "unat len = min (unat (size_f s)) (unat (size_f b))"
    by (simp add: len_def min_def word_less_nat_alt)
  have off: "off \<le> unat len" "\<And>i. i < off \<Longrightarrow> m (x + i) = m (y + i)"
    "off < unat len \<Longrightarrow> m (x + off) \<noteq> m (y + off)"
    using diff_loop_spec [of 0 "unat len" m x y] by (auto simp: off_def)
  have "take off (slice_bytes m s) = take off (slice_bytes m b)"
    using assms off(1,2) len by (intro nth_equalityI) (auto simp: slice_bytes_def)
  moreover have "difference_offset m s b = Some off"
    using assms by (simp add: difference_offset_def off_def len_def)
  ultimately show ?thesis
    using assms off(1,3) len by (auto simp: slice_bytes_def)
qed

section \<open>OptSlice\<close>

record OptSlice =
  slice_f :: Slice

definition SIZE_MAX :: size_t where
  "SIZE_MAX = - 1"

definition OptSlice_default :: OptSlice where
  "OptSlice_default = \<lparr>slice_f = Slice_of Null SIZE_MAX\<rparr>"

definition OptSlice_of :: "Slice \<Rightarrow> OptSlice" where
  "OptSlice_of s = \<lparr>slice_f = s\<rparr>"

definition has_value :: "OptSlice \<Rightarrow> bool" where
  "has_value x \<longleftrightarrow> size_of (slice_f x) \<noteq> SIZE_MAX"

definition opt_value :: "OptSlice \<Rightarrow> Slice option" where
  "opt_value x = (if has_value x then Some (slice_f x) else None)"

definition AsPtr :: "OptSlice \<Rightarrow> Slice option" where
  "AsPtr x = (if has_value x then Some (slice_f x) else None)"

definition CopyFromPtr :: "Slice option \<Rightarrow> OptSlice" where
  "CopyFromPtr p = (case p of Some s \<Rightarrow> OptSlice_of s | None \<Rightarrow> OptSlice_default)"

lemma OptSlice_default_no_value [simp]: "\<not> has_value OptSlice_default"
  by (simp add: has_value_def OptSlice_default_def Slice_of_def size_of_def)

text \<open>
  Converting an optional slice pointer to an \<open>OptSlice\<close> and back gives the pointer's target
  again; the one slice the representation cannot carry is one of size \<open>SIZE_MAX\<close>, which reads back
  as no value.
\<close>

theorem OptSlice_roundtrip:
  "AsPtr (CopyFromPtr p) = (case p of Some s \<Rightarrow> (if size_f s = SIZE_MAX then None else Some s) | None \<Rightarrow> None)"
  by (simp add: AsPtr_def CopyFromPtr_def OptSlice_of_def has_value_def size_of_def split: option.split)
    (simp add: OptSlice_default_def Slice_of_def)

end
