(* ===== verification/Pinnable.thy ===== *)
theory Pinnable
  imports Slices "HOL-Library.Multiset"
begin

text \<open>
  \<open>Cleanable\<close> of \<open>libs/rocksdb/cleanable.h\<close> and \<open>PinnableSlice\<close> of \<open>libs/rocksdb/slice.h\<close>: a slice
  that either points into storage pinned elsewhere, released by registered cleanups, or into its
  own string buffer. The two registration functions are declared in the header and implemented in
  the library, so they are parameters; the locale \<open>cleanup_ops\<close> states what their documentation
  promises.
\<close>

section \<open>Cleanable\<close>

record Cleanup =
  function_f :: nat
  arg1_f :: ptr
  arg2_f :: ptr

text \<open>
  The inline first cleanup (\<open>None\<close> for a null function pointer) and the chain of further ones.
\<close>

record Cleanable =
  cleanup_f :: "Cleanup option"
  next_f :: "Cleanup list"

definition Cleanable_new :: Cleanable where
  "Cleanable_new = \<lparr>cleanup_f = None, next_f = []\<rparr>"

text \<open>The calls \<open>DoCleanup\<close> makes, in order.\<close>

definition DoCleanup :: "Cleanable \<Rightarrow> Cleanup list" where
  "DoCleanup c = (case cleanup_f c of None \<Rightarrow> [] | Some h \<Rightarrow> h # next_f c)"

definition Cleanable_Reset :: "Cleanable \<Rightarrow> Cleanup list \<times> Cleanable" where
  "Cleanable_Reset c = (DoCleanup c, c\<lparr>cleanup_f := None, next_f := []\<rparr>)"

definition HasCleanups :: "Cleanable \<Rightarrow> bool" where
  "HasCleanups c \<longleftrightarrow> cleanup_f c \<noteq> None"

lemma DoCleanup_new [simp]: "DoCleanup Cleanable_new = []"
  by (simp add: DoCleanup_def Cleanable_new_def)

lemma Cleanable_Reset_runs [simp]:
  "fst (Cleanable_Reset c) = DoCleanup c" "DoCleanup (snd (Cleanable_Reset c)) = []"
  by (simp_all add: Cleanable_Reset_def DoCleanup_def)

section \<open>PinnableSlice\<close>

text \<open>Where the data pointer points: outside, or at the start of the string \<open>buf_\<close>.\<close>

datatype pin_data = Ext ptr | InBuf

record PinnableSlice =
  pdata_f :: pin_data
  psize_f :: size_t
  buf_f :: bytes
  pinned_f :: bool
  cleanable_f :: Cleanable

definition PinnableSlice_new :: "bytes \<Rightarrow> PinnableSlice" where
  "PinnableSlice_new buf =
     \<lparr>pdata_f = Ext empty_literal, psize_f = 0, buf_f = buf, pinned_f = False,
      cleanable_f = Cleanable_new\<rparr>"

definition PinSlice_fn ::
    "(Cleanable \<Rightarrow> Cleanup \<Rightarrow> Cleanable) \<Rightarrow> Slice \<Rightarrow> Cleanup \<Rightarrow> PinnableSlice \<Rightarrow> PinnableSlice option" where
  "PinSlice_fn reg s f p =
     (if pinned_f p then None
      else Some (p\<lparr>pinned_f := True, pdata_f := Ext (data s), psize_f := size_of s,
                   cleanable_f := reg (cleanable_f p) f\<rparr>))"

definition PinSlice ::
    "(Cleanable \<Rightarrow> Cleanable \<Rightarrow> Cleanable \<times> Cleanable) \<Rightarrow> Slice \<Rightarrow> Cleanable option \<Rightarrow> PinnableSlice
      \<Rightarrow> (Cleanable option \<times> PinnableSlice) option" where
  "PinSlice deleg s c p =
     (if pinned_f p then None
      else let q = p\<lparr>pinned_f := True, pdata_f := Ext (data s), psize_f := size_of s\<rparr>
           in case c of
                None \<Rightarrow> Some (None, q)
              | Some cl \<Rightarrow> (case deleg cl (cleanable_f q) of
                    (src, dst) \<Rightarrow> Some (Some src, q\<lparr>cleanable_f := dst\<rparr>)))"

definition PinSelf :: "PinnableSlice \<Rightarrow> PinnableSlice option" where
  "PinSelf p =
     (if pinned_f p then None
      else Some (p\<lparr>pdata_f := InBuf, psize_f := of_nat (length (buf_f p))\<rparr>))"

definition PinSelf_slice :: "mem \<Rightarrow> Slice \<Rightarrow> PinnableSlice \<Rightarrow> PinnableSlice option" where
  "PinSelf_slice m s p =
     (if pinned_f p then None
      else Some (p\<lparr>buf_f := slice_bytes m s, pdata_f := InBuf,
                   psize_f := of_nat (length (slice_bytes m s))\<rparr>))"

text \<open>\<open>std::string::erase (pos, n)\<close>; a position past the end throws.\<close>

definition string_erase :: "nat \<Rightarrow> nat \<Rightarrow> bytes \<Rightarrow> bytes option" where
  "string_erase pos n xs = (if length xs < pos then None else Some (take pos xs @ drop (pos + n) xs))"

definition pin_remove_suffix :: "size_t \<Rightarrow> PinnableSlice \<Rightarrow> PinnableSlice option" where
  "pin_remove_suffix n p =
     (if psize_f p < n then None
      else if pinned_f p then Some (p\<lparr>psize_f := psize_f p - n\<rparr>)
      else case string_erase (unat (psize_f p - n)) (unat n) (buf_f p) of
             None \<Rightarrow> None
           | Some xs \<Rightarrow> PinSelf (p\<lparr>buf_f := xs\<rparr>))"

fun pin_data_add :: "pin_data \<Rightarrow> nat \<Rightarrow> pin_data" where
  "pin_data_add (Ext q) n = Ext (ptr_add q n)"
| "pin_data_add InBuf n = InBuf"

definition pin_remove_prefix :: "size_t \<Rightarrow> PinnableSlice \<Rightarrow> PinnableSlice option" where
  "pin_remove_prefix n p =
     (if psize_f p < n then None
      else if pinned_f p
      then Some (p\<lparr>pdata_f := pin_data_add (pdata_f p) (unat n), psize_f := psize_f p - n\<rparr>)
      else case string_erase 0 (unat n) (buf_f p) of
             None \<Rightarrow> None
           | Some xs \<Rightarrow> PinSelf (p\<lparr>buf_f := xs\<rparr>))"

definition PinnableSlice_Reset :: "PinnableSlice \<Rightarrow> Cleanup list \<times> PinnableSlice" where
  "PinnableSlice_Reset p =
     (case Cleanable_Reset (cleanable_f p) of
        (calls, c) \<Rightarrow> (calls, p\<lparr>cleanable_f := c, pinned_f := False, psize_f := 0\<rparr>))"

abbreviation (input) GetSelf :: "PinnableSlice \<Rightarrow> bytes" where
  "GetSelf p \<equiv> buf_f p"

definition IsPinned :: "PinnableSlice \<Rightarrow> bool" where
  "IsPinned p \<longleftrightarrow> pinned_f p"

section \<open>Contents\<close>

definition pin_bytes :: "mem \<Rightarrow> PinnableSlice \<Rightarrow> bytes" where
  "pin_bytes m p = (case pdata_f p of
       Ext q \<Rightarrow> mem_read m q (unat (psize_f p))
     | InBuf \<Rightarrow> take (unat (psize_f p)) (buf_f p))"

text \<open>
  The slice is in step with its storage: pinned data is outside the buffer, unpinned data is the
  whole buffer.
\<close>

definition pin_ok :: "PinnableSlice \<Rightarrow> bool" where
  "pin_ok p \<longleftrightarrow> length (buf_f p) < 2 ^ 64 \<and>
     (if pinned_f p then \<exists>a. pdata_f p = Ext (Addr a)
      else pdata_f p = InBuf \<and> unat (psize_f p) = length (buf_f p))"

lemma PinSelf_ok:
  assumes "PinSelf p = Some q" and "length (buf_f p) < 2 ^ 64"
  shows "pin_ok q" and "pin_bytes m q = buf_f p"
proof -
  from assms have "q = p\<lparr>pdata_f := InBuf, psize_f := of_nat (length (buf_f p))\<rparr>" "\<not> pinned_f p"
    by (auto simp: PinSelf_def split: if_splits)
  moreover have "unat (of_nat (length (buf_f p)) :: size_t) = length (buf_f p)"
    by (rule unat_of_nat_small) (use assms(2) in simp)
  ultimately show "pin_ok q" and "pin_bytes m q = buf_f p"
    using assms(2) by (simp_all add: pin_ok_def pin_bytes_def)
qed

lemma PinSelf_slice_ok:
  assumes "PinSelf_slice m s p = Some q" and "slice_ok s"
  shows "pin_ok q" and "pin_bytes m' q = slice_bytes m s"
proof -
  from assms have q: "PinSelf (p\<lparr>buf_f := slice_bytes m s\<rparr>) = Some q"
    by (simp add: PinSelf_slice_def PinSelf_def split: if_splits)
  have "length (slice_bytes m s) < 2 ^ 64"
    using assms(2) unsigned_less [of "size_f s"] by simp
  with PinSelf_ok [OF q] show "pin_ok q" and "pin_bytes m' q = slice_bytes m s"
    by simp_all
qed

lemma pin_unpinned_bytes: "pin_ok p \<Longrightarrow> \<not> pinned_f p \<Longrightarrow> pin_bytes m p = buf_f p"
  by (simp add: pin_ok_def pin_bytes_def)

lemma length_pin_bytes: "pin_ok p \<Longrightarrow> length (pin_bytes m p) = unat (psize_f p)"
  by (auto simp: pin_ok_def pin_bytes_def split: if_splits)

text \<open>
  On a pinnable slice in step with its storage, \<open>remove_prefix\<close> of at most the whole slice
  succeeds and drops that many leading bytes, whether the data is pinned outside (the pointer
  moves) or in the own buffer (the buffer is erased and re-pinned), and stays in step.
\<close>

theorem pin_remove_prefix_bytes:
  assumes "pin_ok p" and "n \<le> psize_f p"
  shows "\<exists>q. pin_remove_prefix n p = Some q \<and> pin_ok q \<and>
    pin_bytes m q = drop (unat n) (pin_bytes m p) \<and> IsPinned q = IsPinned p"
proof (cases "pinned_f p")
  case True
  with assms obtain a where "pdata_f p = Ext (Addr a)" by (auto simp: pin_ok_def)
  with True assms show ?thesis
    by (auto simp: pin_remove_prefix_def pin_ok_def pin_bytes_def IsPinned_def drop_mem_read unat_sub_le)
next
  case False
  define p' where "p' = p\<lparr>buf_f := drop (unat n) (buf_f p)\<rparr>"
  from False obtain q where q: "PinSelf p' = Some q" by (simp add: PinSelf_def p'_def)
  have "length (buf_f p') < 2 ^ 64"
    using assms(1) by (auto simp: p'_def pin_ok_def)
  then have "pin_ok q" and "pin_bytes m q = drop (unat n) (buf_f p)"
    using PinSelf_ok [OF q] by (simp_all add: p'_def)
  moreover have "pin_remove_prefix n p = Some q"
    using False assms(2) q by (simp add: pin_remove_prefix_def string_erase_def p'_def)
  moreover have "\<not> pinned_f q"
    using q False by (auto simp: PinSelf_def p'_def split: if_splits)
  ultimately show ?thesis
    using False assms(1) by (simp add: pin_unpinned_bytes IsPinned_def)
qed

theorem pin_remove_prefix_bytes_witness:
  "\<exists>q. pin_remove_prefix 1 \<lparr>pdata_f = InBuf, psize_f = 3, buf_f = [7, 8, 9], pinned_f = False,
      cleanable_f = Cleanable_new\<rparr> = Some q \<and> pin_bytes (\<lambda>_. 0) q = [8, 9]"
proof -
  let ?p = "\<lparr>pdata_f = InBuf, psize_f = 3, buf_f = [7, 8, 9], pinned_f = False,
      cleanable_f = Cleanable_new\<rparr> :: PinnableSlice"
  have "pin_ok ?p" and "(1::size_t) \<le> psize_f ?p"
    by (simp_all add: pin_ok_def)
  from pin_remove_prefix_bytes [OF this, of "\<lambda>_. 0"] show ?thesis
    by (auto simp: pin_bytes_def)
qed

lemma pin_remove_suffix_bytes:
  assumes "pin_ok p" and "n \<le> psize_f p"
  shows "\<exists>q. pin_remove_suffix n p = Some q \<and> pin_ok q \<and>
    pin_bytes m q = take (length (pin_bytes m p) - unat n) (pin_bytes m p)"
proof (cases "pinned_f p")
  case True
  with assms obtain a where "pdata_f p = Ext (Addr a)" by (auto simp: pin_ok_def)
  with True assms show ?thesis
    by (auto simp: pin_remove_suffix_def pin_ok_def pin_bytes_def take_mem_read unat_sub_le)
next
  case False
  define k where "k = length (buf_f p) - unat n"
  have sz: "unat (psize_f p) = length (buf_f p)"
    using False assms(1) by (simp add: pin_ok_def)
  have n: "unat n \<le> length (buf_f p)" and k: "unat (psize_f p - n) = k"
    using assms(2) sz by (simp_all add: k_def word_le_nat_alt unat_sub_le)
  define p' where "p' = p\<lparr>buf_f := take k (buf_f p)\<rparr>"
  from False obtain q where q: "PinSelf p' = Some q" by (simp add: PinSelf_def p'_def)
  have "length (buf_f p') < 2 ^ 64"
    using assms(1) by (auto simp: p'_def pin_ok_def)
  then have "pin_ok q" and "pin_bytes m q = take k (buf_f p)"
    using PinSelf_ok [OF q] by (simp_all add: p'_def)
  moreover have "pin_remove_suffix n p = Some q"
    using False assms(2) q k n by (simp add: pin_remove_suffix_def string_erase_def p'_def k_def not_less)
  ultimately show ?thesis
    using False assms(1) by (simp add: pin_unpinned_bytes k_def)
qed


section \<open>Every registered cleanup runs exactly once\<close>

text \<open>
  What the header promises of the two registration functions: registering adds one cleanup to the
  list, delegating moves all of them to the other object.
\<close>

locale cleanup_ops =
  fixes reg :: "Cleanable \<Rightarrow> Cleanup \<Rightarrow> Cleanable"
    and deleg :: "Cleanable \<Rightarrow> Cleanable \<Rightarrow> Cleanable \<times> Cleanable"
  assumes reg_adds: "mset (DoCleanup (reg c f)) = add_mset f (mset (DoCleanup c))"
    and deleg_moves: "deleg src dst = (src', dst') \<Longrightarrow>
      DoCleanup src' = [] \<and> mset (DoCleanup dst') = mset (DoCleanup src) + mset (DoCleanup dst)"
begin

lemma PinSlice_fn_pending:
  "PinSlice_fn reg s f p = Some q \<Longrightarrow>
     mset (DoCleanup (cleanable_f q)) = add_mset f (mset (DoCleanup (cleanable_f p)))"
  by (auto simp: PinSlice_fn_def reg_adds split: if_splits)

lemma PinSlice_pending:
  "PinSlice deleg s (Some c) p = Some (c', q) \<Longrightarrow>
     mset (DoCleanup (cleanable_f q)) = mset (DoCleanup c) + mset (DoCleanup (cleanable_f p)) \<and>
     (\<exists>d. c' = Some d \<and> DoCleanup d = [])"
  by (auto simp: PinSlice_def split: if_splits prod.splits dest: deleg_moves)

end

text \<open>The operations of a client on one pinnable slice.\<close>

datatype pin_op =
    OpPinFn Slice Cleanup
  | OpPin Slice "Cleanable option"
  | OpSelf
  | OpSuffix size_t
  | OpPrefix size_t
  | OpReset

text \<open>
  A run keeps the slice, the cleanups handed to it so far and the calls made so far; an operation
  whose assertion fails ends the run.
\<close>

fun pin_run_step ::
    "(Cleanable \<Rightarrow> Cleanup \<Rightarrow> Cleanable) \<Rightarrow> (Cleanable \<Rightarrow> Cleanable \<Rightarrow> Cleanable \<times> Cleanable) \<Rightarrow> pin_op
      \<Rightarrow> PinnableSlice \<times> Cleanup multiset \<times> Cleanup list
      \<Rightarrow> (PinnableSlice \<times> Cleanup multiset \<times> Cleanup list) option" where
  "pin_run_step reg deleg (OpPinFn s f) (p, given, calls) =
     map_option (\<lambda>q. (q, add_mset f given, calls)) (PinSlice_fn reg s f p)"
| "pin_run_step reg deleg (OpPin s c) (p, given, calls) =
     map_option (\<lambda>(_, q). (q, given + (case c of None \<Rightarrow> {#} | Some cl \<Rightarrow> mset (DoCleanup cl)), calls))
       (PinSlice deleg s c p)"
| "pin_run_step reg deleg OpSelf (p, given, calls) = map_option (\<lambda>q. (q, given, calls)) (PinSelf p)"
| "pin_run_step reg deleg (OpSuffix n) (p, given, calls) =
     map_option (\<lambda>q. (q, given, calls)) (pin_remove_suffix n p)"
| "pin_run_step reg deleg (OpPrefix n) (p, given, calls) =
     map_option (\<lambda>q. (q, given, calls)) (pin_remove_prefix n p)"
| "pin_run_step reg deleg OpReset (p, given, calls) =
     (case PinnableSlice_Reset p of (cs, q) \<Rightarrow> Some (q, given, calls @ cs))"

fun pin_run ::
    "(Cleanable \<Rightarrow> Cleanup \<Rightarrow> Cleanable) \<Rightarrow> (Cleanable \<Rightarrow> Cleanable \<Rightarrow> Cleanable \<times> Cleanable) \<Rightarrow> pin_op list
      \<Rightarrow> PinnableSlice \<times> Cleanup multiset \<times> Cleanup list
      \<Rightarrow> (PinnableSlice \<times> Cleanup multiset \<times> Cleanup list) option" where
  "pin_run reg deleg [] st = Some st"
| "pin_run reg deleg (x # xs) st =
     (case pin_run_step reg deleg x st of None \<Rightarrow> None | Some st' \<Rightarrow> pin_run reg deleg xs st')"

definition cleanups_accounted :: "PinnableSlice \<times> Cleanup multiset \<times> Cleanup list \<Rightarrow> bool" where
  "cleanups_accounted st \<longleftrightarrow> (case st of (p, given, calls) \<Rightarrow>
     given = mset calls + mset (DoCleanup (cleanable_f p)))"

lemma PinSelf_cleanable: "PinSelf p = Some q \<Longrightarrow> cleanable_f q = cleanable_f p"
  by (auto simp: PinSelf_def split: if_splits)

lemma pin_remove_cleanable:
  "pin_remove_suffix n p = Some q \<Longrightarrow> cleanable_f q = cleanable_f p"
  "pin_remove_prefix n p = Some q \<Longrightarrow> cleanable_f q = cleanable_f p"
  by (auto simp: pin_remove_suffix_def pin_remove_prefix_def
      split: if_splits option.splits dest: PinSelf_cleanable)

context cleanup_ops
begin

lemma pin_run_step_accounted:
  assumes "pin_run_step reg deleg x st = Some st'" and "cleanups_accounted st"
  shows "cleanups_accounted st'"
proof -
  obtain p given calls where st: "st = (p, given, calls)" by (cases st)
  show ?thesis
  proof (cases x)
    case (OpPinFn s f)
    with assms st show ?thesis
      by (auto simp: cleanups_accounted_def PinSlice_fn_pending)
  next
    case (OpPin s c)
    with assms st show ?thesis
      by (cases c) (auto simp: cleanups_accounted_def PinSlice_def Let_def
          split: if_splits prod.splits dest: deleg_moves)
  next
    case OpSelf
    with assms st show ?thesis by (auto simp: cleanups_accounted_def PinSelf_cleanable)
  next
    case (OpSuffix n)
    with assms st show ?thesis by (auto simp: cleanups_accounted_def pin_remove_cleanable)
  next
    case (OpPrefix n)
    with assms st show ?thesis by (auto simp: cleanups_accounted_def pin_remove_cleanable)
  next
    case OpReset
    with assms st show ?thesis
      by (auto simp: cleanups_accounted_def PinnableSlice_Reset_def split: prod.splits)
        (metis Cleanable_Reset_runs fst_conv snd_conv mset.simps(1) add.right_neutral)
  qed
qed

lemma pin_run_accounted:
  "pin_run reg deleg xs st = Some st' \<Longrightarrow> cleanups_accounted st \<Longrightarrow> cleanups_accounted st'"
  by (induction xs arbitrary: st) (auto split: option.splits dest: pin_run_step_accounted)

lemma pin_run_append:
  "pin_run r d (xs @ ys) st = (case pin_run r d xs st of None \<Rightarrow> None | Some st' \<Rightarrow> pin_run r d ys st')"
  by (induction xs arbitrary: st) (auto split: option.splits)

lemma pin_run_reset_complete:
  assumes "pin_run reg deleg (xs @ [OpReset]) (PinnableSlice_new buf, {#}, []) = Some (p, given, calls)"
  shows "mset calls = given \<and> \<not> HasCleanups (cleanable_f p)"
proof -
  have "cleanups_accounted (PinnableSlice_new buf, {#}, [])"
    by (simp add: cleanups_accounted_def PinnableSlice_new_def)
  then have acc: "cleanups_accounted (p, given, calls)"
    by (rule pin_run_accounted [OF assms])
  from assms obtain q g r where "pin_run_step reg deleg OpReset (q, g, r) = Some (p, given, calls)"
    by (auto simp: pin_run_append split: option.splits)
  then have "cleanup_f (cleanable_f p) = None"
    by (auto simp: PinnableSlice_Reset_def Cleanable_Reset_def)
  with acc show ?thesis
    by (simp add: cleanups_accounted_def DoCleanup_def HasCleanups_def)
qed

end

text \<open>
  The registration functions as documented, on the model's own representation: a first cleanup
  goes to the inline place, a further one to the front of the chain.
\<close>

definition RegisterCleanup_doc :: "Cleanable \<Rightarrow> Cleanup \<Rightarrow> Cleanable" where
  "RegisterCleanup_doc c f = (case cleanup_f c of
       None \<Rightarrow> \<lparr>cleanup_f = Some f, next_f = []\<rparr>
     | Some h \<Rightarrow> c\<lparr>next_f := f # next_f c\<rparr>)"

definition DelegateCleanupsTo_doc :: "Cleanable \<Rightarrow> Cleanable \<Rightarrow> Cleanable \<times> Cleanable" where
  "DelegateCleanupsTo_doc src dst = (Cleanable_new, foldl RegisterCleanup_doc dst (DoCleanup src))"

lemma RegisterCleanup_doc_adds:
  "mset (DoCleanup (RegisterCleanup_doc c f)) = add_mset f (mset (DoCleanup c))"
  by (auto simp: RegisterCleanup_doc_def DoCleanup_def split: option.split)

lemma foldl_RegisterCleanup_doc:
  "mset (DoCleanup (foldl RegisterCleanup_doc c fs)) = mset fs + mset (DoCleanup c)"
  by (induction fs arbitrary: c) (auto simp: RegisterCleanup_doc_adds)

interpretation doc_cleanup: cleanup_ops RegisterCleanup_doc DelegateCleanupsTo_doc
  by unfold_locales
    (auto simp: RegisterCleanup_doc_adds DelegateCleanupsTo_doc_def foldl_RegisterCleanup_doc)

text \<open>
  C37: Whatever sequence of pin, trim and reset operations a client performs on a fresh pinnable
  slice, once it ends with \<open>Reset\<close> every cleanup handed to the slice (registered directly or
  delegated from another object) has been called exactly as often as it was handed over, and none
  is left, provided registration and delegation behave as the header documents.
\<close>

theorem cleanups_run_exactly_once:
  assumes "\<And>c f. mset (DoCleanup (reg c f)) = add_mset f (mset (DoCleanup c))"
    and "\<And>src dst src' dst'. deleg src dst = (src', dst') \<Longrightarrow>
      DoCleanup src' = [] \<and> mset (DoCleanup dst') = mset (DoCleanup src) + mset (DoCleanup dst)"
    and "pin_run reg deleg (xs @ [OpReset]) (PinnableSlice_new buf, {#}, []) = Some (p, given, calls)"
  shows "mset calls = given \<and> \<not> HasCleanups (cleanable_f p)"
proof -
  have "cleanup_ops reg deleg"
    by unfold_locales (use assms(1,2) in auto)
  from cleanup_ops.pin_run_reset_complete [OF this assms(3)] show ?thesis .
qed

theorem cleanups_run_exactly_once_witness:
  "pin_run RegisterCleanup_doc DelegateCleanupsTo_doc
     [OpPinFn Slice_default \<lparr>function_f = 1, arg1_f = Null, arg2_f = Null\<rparr>, OpReset]
     (PinnableSlice_new [], {#}, []) = Some
       (PinnableSlice_new [], {#\<lparr>function_f = 1, arg1_f = Null, arg2_f = Null\<rparr>#},
        [\<lparr>function_f = 1, arg1_f = Null, arg2_f = Null\<rparr>]) \<and>
   mset [\<lparr>function_f = 1, arg1_f = Null, arg2_f = Null\<rparr>] =
     {#\<lparr>function_f = 1, arg1_f = Null, arg2_f = Null\<rparr>#}"
proof -
  let ?f = "\<lparr>function_f = 1, arg1_f = Null, arg2_f = Null\<rparr> :: Cleanup"
  have run: "pin_run RegisterCleanup_doc DelegateCleanupsTo_doc ([OpPinFn Slice_default ?f] @ [OpReset])
     (PinnableSlice_new [], {#}, []) = Some (PinnableSlice_new [], {#?f#}, [?f])"
    by (simp add: PinSlice_fn_def PinnableSlice_new_def RegisterCleanup_doc_def Cleanable_new_def
        PinnableSlice_Reset_def Cleanable_Reset_def DoCleanup_def data_def size_of_def Slice_default_def)
  have "mset [?f] = {#?f#} \<and> \<not> HasCleanups (cleanable_f (PinnableSlice_new []))"
    by (rule cleanups_run_exactly_once [OF _ _ run])
      (auto simp: doc_cleanup.reg_adds dest: doc_cleanup.deleg_moves)
  with run show ?thesis by simp
qed

end
