(* ===== verification/Statuses.thy ===== *)
theory Statuses
  imports Slices
begin

text \<open>
  \<open>Status\<close> of \<open>libs/rocksdb/status.h\<close> and \<open>IOStatus\<close> of \<open>libs/rocksdb/io_status.h\<close>: the result value
  of every storage operation. The constructor from two messages and \<open>CopyState\<close> are declared in
  the header and implemented in the library; they are parameters (\<open>mk\<close> and \<open>cs\<close>). The build
  without \<open>ROCKSDB_ASSERT_STATUS_CHECKED\<close> is modelled, where \<open>MarkChecked\<close> and \<open>MustCheck\<close> do
  nothing. Aliasing of the two sides of an assignment is the flag \<open>same\<close>.
\<close>

section \<open>Data\<close>

datatype Code =
    kOk | kNotFound | kCorruption | kNotSupported | kInvalidArgument | kIOError
  | kMergeInProgress | kIncomplete | kShutdownInProgress | kTimedOut | kAborted | kBusy
  | kExpired | kTryAgain | kCompactionTooLarge | kColumnFamilyDropped | kMaxCode

datatype SubCode =
    kNone | kMutexTimeout | kLockTimeout | kLockLimit | kNoSpace | kDeadlock | kStaleFile
  | kMemoryLimit | kSpaceLimit | kPathNotFound | KMergeOperandsInsufficientCapacity
  | kManualCompactionPaused | kOverwritten | kTxnNotPrepared | kIOFenced | kMergeOperatorFailed
  | kMergeOperandThresholdExceeded | kMaxSubCode

datatype Severity =
    kNoError | kSoftError | kHardError | kFatalError | kUnrecoverableError | kMaxSeverity

record Status =
  code_f :: Code
  subcode_f :: SubCode
  sev_f :: Severity
  retryable_f :: bool
  data_loss_f :: bool
  scope_f :: byte
  state_f :: "bytes option"

type_synonym status_ctor = "Code \<Rightarrow> SubCode \<Rightarrow> bytes \<Rightarrow> bytes \<Rightarrow> Severity \<Rightarrow> Status"

section \<open>Constructors and accessors\<close>

definition Status_default :: Status where
  "Status_default =
     \<lparr>code_f = kOk, subcode_f = kNone, sev_f = kNoError, retryable_f = False, data_loss_f = False,
      scope_f = 0, state_f = None\<rparr>"

definition Status_code :: "Code \<Rightarrow> SubCode \<Rightarrow> Status" where
  "Status_code c sc =
     \<lparr>code_f = c, subcode_f = sc, sev_f = kNoError, retryable_f = False, data_loss_f = False,
      scope_f = 0, state_f = None\<rparr>"

definition Status_full :: "Code \<Rightarrow> SubCode \<Rightarrow> bool \<Rightarrow> bool \<Rightarrow> byte \<Rightarrow> Status" where
  "Status_full c sc retryable data_loss scope =
     \<lparr>code_f = c, subcode_f = sc, sev_f = kNoError, retryable_f = retryable,
      data_loss_f = data_loss, scope_f = scope, state_f = None\<rparr>"

definition Status_msg :: "status_ctor \<Rightarrow> Code \<Rightarrow> bytes \<Rightarrow> bytes \<Rightarrow> Status" where
  "Status_msg mk c msg msg2 = mk c kNone msg msg2 kNoError"

abbreviation (input) Status_sev_msg :: "status_ctor \<Rightarrow> Code \<Rightarrow> SubCode \<Rightarrow> Severity \<Rightarrow> bytes \<Rightarrow> Status" where
  "Status_sev_msg mk c sc sev msg \<equiv> mk c sc msg [] sev"

definition code :: "Status \<Rightarrow> Code" where
  "code s = code_f s"

definition subcode :: "Status \<Rightarrow> SubCode" where
  "subcode s = subcode_f s"

definition severity :: "Status \<Rightarrow> Severity" where
  "severity s = sev_f s"

definition getState :: "Status \<Rightarrow> bytes option" where
  "getState s = state_f s"

text \<open>Copying: every field, the message buffer through \<open>CopyState\<close>.\<close>

definition Status_copy :: "(bytes \<Rightarrow> bytes) \<Rightarrow> Status \<Rightarrow> Status" where
  "Status_copy cs s =
     \<lparr>code_f = code_f s, subcode_f = subcode_f s, sev_f = sev_f s, retryable_f = retryable_f s,
      data_loss_f = data_loss_f s, scope_f = scope_f s, state_f = map_option cs (state_f s)\<rparr>"

definition Status_copy_sev :: "(bytes \<Rightarrow> bytes) \<Rightarrow> Status \<Rightarrow> Severity \<Rightarrow> Status" where
  "Status_copy_sev cs s sev =
     \<lparr>code_f = code_f s, subcode_f = subcode_f s, sev_f = sev, retryable_f = retryable_f s,
      data_loss_f = data_loss_f s, scope_f = scope_f s, state_f = map_option cs (state_f s)\<rparr>"

definition Status_assign :: "(bytes \<Rightarrow> bytes) \<Rightarrow> bool \<Rightarrow> Status \<Rightarrow> Status \<Rightarrow> Status" where
  "Status_assign cs same this s =
     (if same then this
      else this\<lparr>code_f := code_f s, subcode_f := subcode_f s, sev_f := sev_f s,
                retryable_f := retryable_f s, data_loss_f := data_loss_f s, scope_f := scope_f s,
                state_f := map_option cs (state_f s)\<rparr>)"

text \<open>Moving returns the new target and what is left in the source.\<close>

definition Status_move_assign :: "bool \<Rightarrow> Status \<Rightarrow> Status \<Rightarrow> Status \<times> Status" where
  "Status_move_assign same this s =
     (if same then (this, s)
      else (this\<lparr>code_f := code_f s, subcode_f := subcode_f s, sev_f := sev_f s,
                 retryable_f := retryable_f s, data_loss_f := data_loss_f s, scope_f := scope_f s,
                 state_f := state_f s\<rparr>,
            s\<lparr>code_f := kOk, subcode_f := kNone, sev_f := kNoError, retryable_f := False,
              data_loss_f := False, scope_f := 0, state_f := None\<rparr>))"

definition Status_move :: "Status \<Rightarrow> Status \<times> Status" where
  "Status_move s = Status_move_assign False Status_default s"

definition Status_eq :: "Status \<Rightarrow> Status \<Rightarrow> bool" where
  "Status_eq s rhs \<longleftrightarrow> code_f s = code_f rhs"

definition Status_neq :: "Status \<Rightarrow> Status \<Rightarrow> bool" where
  "Status_neq s rhs \<longleftrightarrow> \<not> Status_eq s rhs"

definition UpdateIfOk :: "Status \<Rightarrow> Status \<Rightarrow> Status \<times> Status" where
  "UpdateIfOk this s = (if code this = kOk then Status_move_assign False this s else (this, s))"

definition UpdateIfOk_copy :: "(bytes \<Rightarrow> bytes) \<Rightarrow> Status \<Rightarrow> Status \<Rightarrow> Status" where
  "UpdateIfOk_copy cs this s = fst (UpdateIfOk this (Status_copy cs s))"

section \<open>Factories\<close>

definition Status_OK :: "Status" where
  "Status_OK = Status_default"

definition Status_NotSupported_msg :: "status_ctor \<Rightarrow> bytes \<Rightarrow> bytes \<Rightarrow> Status" where
  "Status_NotSupported_msg mk msg msg2 = Status_msg mk kNotSupported msg msg2"

definition Status_InvalidArgument_msg :: "status_ctor \<Rightarrow> bytes \<Rightarrow> bytes \<Rightarrow> Status" where
  "Status_InvalidArgument_msg mk msg msg2 = Status_msg mk kInvalidArgument msg msg2"

definition Status_NoSpace :: "Status" where
  "Status_NoSpace = Status_code kIOError kNoSpace"

text \<open>
  The static factory functions, one constructor of \<open>StatusFactory\<close> per overload with its arguments.
  The four that the other components call also have a name of their own.
\<close>

datatype StatusFactory =
    OK
  | OkOverwritten
  | OkMergeOperandThresholdExceeded
  | NotFound_msg bytes bytes
  | NotFound_sc SubCode
  | NotFound_sc_msg SubCode bytes bytes
  | Corruption_msg bytes bytes
  | Corruption_sc SubCode
  | NotSupported_msg bytes bytes
  | NotSupported_sc SubCode
  | InvalidArgument_msg bytes bytes
  | InvalidArgument_sc SubCode
  | IOError_msg bytes bytes
  | IOError_sc SubCode
  | MergeInProgress_msg bytes bytes
  | MergeInProgress_sc SubCode
  | Incomplete_msg bytes bytes
  | Incomplete_sc SubCode
  | ShutdownInProgress_sc SubCode
  | ShutdownInProgress_msg bytes bytes
  | Aborted_sc SubCode
  | Aborted_msg bytes bytes
  | Busy_sc SubCode
  | Busy_msg bytes bytes
  | TimedOut_sc SubCode
  | TimedOut_msg bytes bytes
  | Expired_sc SubCode
  | Expired_msg bytes bytes
  | TryAgain_sc SubCode
  | TryAgain_msg bytes bytes
  | CompactionTooLarge_sc SubCode
  | CompactionTooLarge_msg bytes bytes
  | ColumnFamilyDropped_sc SubCode
  | ColumnFamilyDropped_msg bytes bytes
  | NoSpace
  | NoSpace_msg bytes bytes
  | MemoryLimit
  | MemoryLimit_msg bytes bytes
  | SpaceLimit
  | SpaceLimit_msg bytes bytes
  | PathNotFound
  | PathNotFound_msg bytes bytes
  | TxnNotPrepared
  | TxnNotPrepared_msg bytes bytes
  | LockLimit

fun Status_make :: "status_ctor \<Rightarrow> StatusFactory \<Rightarrow> Status" where
  "Status_make mk OK = Status_OK"
| "Status_make mk OkOverwritten = Status_code kOk kOverwritten"
| "Status_make mk OkMergeOperandThresholdExceeded = Status_code kOk kMergeOperandThresholdExceeded"
| "Status_make mk (NotFound_msg msg msg2) = Status_msg mk kNotFound msg msg2"
| "Status_make mk (NotFound_sc sc) = Status_code kNotFound sc"
| "Status_make mk (NotFound_sc_msg sc msg msg2) = mk kNotFound sc msg msg2 kNoError"
| "Status_make mk (Corruption_msg msg msg2) = Status_msg mk kCorruption msg msg2"
| "Status_make mk (Corruption_sc sc) = Status_code kCorruption sc"
| "Status_make mk (NotSupported_msg msg msg2) = Status_NotSupported_msg mk msg msg2"
| "Status_make mk (NotSupported_sc sc) = Status_code kNotSupported sc"
| "Status_make mk (InvalidArgument_msg msg msg2) = Status_InvalidArgument_msg mk msg msg2"
| "Status_make mk (InvalidArgument_sc sc) = Status_code kInvalidArgument sc"
| "Status_make mk (IOError_msg msg msg2) = Status_msg mk kIOError msg msg2"
| "Status_make mk (IOError_sc sc) = Status_code kIOError sc"
| "Status_make mk (MergeInProgress_msg msg msg2) = Status_msg mk kMergeInProgress msg msg2"
| "Status_make mk (MergeInProgress_sc sc) = Status_code kMergeInProgress sc"
| "Status_make mk (Incomplete_msg msg msg2) = Status_msg mk kIncomplete msg msg2"
| "Status_make mk (Incomplete_sc sc) = Status_code kIncomplete sc"
| "Status_make mk (ShutdownInProgress_sc sc) = Status_code kShutdownInProgress sc"
| "Status_make mk (ShutdownInProgress_msg msg msg2) = Status_msg mk kShutdownInProgress msg msg2"
| "Status_make mk (Aborted_sc sc) = Status_code kAborted sc"
| "Status_make mk (Aborted_msg msg msg2) = Status_msg mk kAborted msg msg2"
| "Status_make mk (Busy_sc sc) = Status_code kBusy sc"
| "Status_make mk (Busy_msg msg msg2) = Status_msg mk kBusy msg msg2"
| "Status_make mk (TimedOut_sc sc) = Status_code kTimedOut sc"
| "Status_make mk (TimedOut_msg msg msg2) = Status_msg mk kTimedOut msg msg2"
| "Status_make mk (Expired_sc sc) = Status_code kExpired sc"
| "Status_make mk (Expired_msg msg msg2) = Status_msg mk kExpired msg msg2"
| "Status_make mk (TryAgain_sc sc) = Status_code kTryAgain sc"
| "Status_make mk (TryAgain_msg msg msg2) = Status_msg mk kTryAgain msg msg2"
| "Status_make mk (CompactionTooLarge_sc sc) = Status_code kCompactionTooLarge sc"
| "Status_make mk (CompactionTooLarge_msg msg msg2) = Status_msg mk kCompactionTooLarge msg msg2"
| "Status_make mk (ColumnFamilyDropped_sc sc) = Status_code kColumnFamilyDropped sc"
| "Status_make mk (ColumnFamilyDropped_msg msg msg2) = Status_msg mk kColumnFamilyDropped msg msg2"
| "Status_make mk NoSpace = Status_NoSpace"
| "Status_make mk (NoSpace_msg msg msg2) = mk kIOError kNoSpace msg msg2 kNoError"
| "Status_make mk MemoryLimit = Status_code kAborted kMemoryLimit"
| "Status_make mk (MemoryLimit_msg msg msg2) = mk kAborted kMemoryLimit msg msg2 kNoError"
| "Status_make mk SpaceLimit = Status_code kIOError kSpaceLimit"
| "Status_make mk (SpaceLimit_msg msg msg2) = mk kIOError kSpaceLimit msg msg2 kNoError"
| "Status_make mk PathNotFound = Status_code kIOError kPathNotFound"
| "Status_make mk (PathNotFound_msg msg msg2) = mk kIOError kPathNotFound msg msg2 kNoError"
| "Status_make mk TxnNotPrepared = Status_code kInvalidArgument kTxnNotPrepared"
| "Status_make mk (TxnNotPrepared_msg msg msg2) = mk kInvalidArgument kTxnNotPrepared msg msg2 kNoError"
| "Status_make mk LockLimit = Status_code kAborted kLockLimit"

section \<open>Predicates\<close>

definition Status_ok :: "Status \<Rightarrow> bool" where
  "Status_ok s \<longleftrightarrow> code s = kOk"

definition IsOkOverwritten :: "Status \<Rightarrow> bool" where
  "IsOkOverwritten s \<longleftrightarrow> code s = kOk \<and> subcode s = kOverwritten"

definition IsOkMergeOperandThresholdExceeded :: "Status \<Rightarrow> bool" where
  "IsOkMergeOperandThresholdExceeded s \<longleftrightarrow> code s = kOk \<and> subcode s = kMergeOperandThresholdExceeded"

text \<open>The members that test the code, or the code and the subcode. The flag \<open>checked_\<close> they set exists only in builds that assert it.\<close>

datatype StatusTest =
    TestNotFound
  | TestCorruption
  | TestNotSupported
  | TestInvalidArgument
  | TestIOError
  | TestMergeInProgress
  | TestIncomplete
  | TestShutdownInProgress
  | TestTimedOut
  | TestAborted
  | TestLockLimit
  | TestBusy
  | TestDeadlock
  | TestExpired
  | TestTryAgain
  | TestCompactionTooLarge
  | TestColumnFamilyDropped
  | TestNoSpace
  | TestMemoryLimit
  | TestPathNotFound
  | TestManualCompactionPaused
  | TestTxnNotPrepared
  | TestIOFenced

fun status_is :: "StatusTest \<Rightarrow> Status \<Rightarrow> bool" where
  "status_is TestNotFound s \<longleftrightarrow> code s = kNotFound"
| "status_is TestCorruption s \<longleftrightarrow> code s = kCorruption"
| "status_is TestNotSupported s \<longleftrightarrow> code s = kNotSupported"
| "status_is TestInvalidArgument s \<longleftrightarrow> code s = kInvalidArgument"
| "status_is TestIOError s \<longleftrightarrow> code s = kIOError"
| "status_is TestMergeInProgress s \<longleftrightarrow> code s = kMergeInProgress"
| "status_is TestIncomplete s \<longleftrightarrow> code s = kIncomplete"
| "status_is TestShutdownInProgress s \<longleftrightarrow> code s = kShutdownInProgress"
| "status_is TestTimedOut s \<longleftrightarrow> code s = kTimedOut"
| "status_is TestAborted s \<longleftrightarrow> code s = kAborted"
| "status_is TestLockLimit s \<longleftrightarrow> code s = kAborted \<and> subcode s = kLockLimit"
| "status_is TestBusy s \<longleftrightarrow> code s = kBusy"
| "status_is TestDeadlock s \<longleftrightarrow> code s = kBusy \<and> subcode s = kDeadlock"
| "status_is TestExpired s \<longleftrightarrow> code s = kExpired"
| "status_is TestTryAgain s \<longleftrightarrow> code s = kTryAgain"
| "status_is TestCompactionTooLarge s \<longleftrightarrow> code s = kCompactionTooLarge"
| "status_is TestColumnFamilyDropped s \<longleftrightarrow> code s = kColumnFamilyDropped"
| "status_is TestNoSpace s \<longleftrightarrow> (code s = kIOError) \<and> (subcode s = kNoSpace)"
| "status_is TestMemoryLimit s \<longleftrightarrow> (code s = kAborted) \<and> (subcode s = kMemoryLimit)"
| "status_is TestPathNotFound s \<longleftrightarrow> (code s = kIOError \<or> code s = kNotFound) \<and> (subcode s = kPathNotFound)"
| "status_is TestManualCompactionPaused s \<longleftrightarrow> (code s = kIncomplete) \<and> (subcode s = kManualCompactionPaused)"
| "status_is TestTxnNotPrepared s \<longleftrightarrow> (code s = kInvalidArgument) \<and> (subcode s = kTxnNotPrepared)"
| "status_is TestIOFenced s \<longleftrightarrow> (code s = kIOError) \<and> (subcode s = kIOFenced)"

declare status_is.simps [simp del]

abbreviation "IsNotFound \<equiv> status_is TestNotFound"
abbreviation "IsCorruption \<equiv> status_is TestCorruption"
abbreviation "IsNotSupported \<equiv> status_is TestNotSupported"
abbreviation "IsInvalidArgument \<equiv> status_is TestInvalidArgument"
abbreviation "IsIOError \<equiv> status_is TestIOError"
abbreviation "IsMergeInProgress \<equiv> status_is TestMergeInProgress"
abbreviation "IsIncomplete \<equiv> status_is TestIncomplete"
abbreviation "IsShutdownInProgress \<equiv> status_is TestShutdownInProgress"
abbreviation "IsTimedOut \<equiv> status_is TestTimedOut"
abbreviation "IsAborted \<equiv> status_is TestAborted"
abbreviation "IsLockLimit \<equiv> status_is TestLockLimit"
abbreviation "IsBusy \<equiv> status_is TestBusy"
abbreviation "IsDeadlock \<equiv> status_is TestDeadlock"
abbreviation "IsExpired \<equiv> status_is TestExpired"
abbreviation "IsTryAgain \<equiv> status_is TestTryAgain"
abbreviation "IsCompactionTooLarge \<equiv> status_is TestCompactionTooLarge"
abbreviation "IsColumnFamilyDropped \<equiv> status_is TestColumnFamilyDropped"
abbreviation "IsNoSpace \<equiv> status_is TestNoSpace"
abbreviation "IsMemoryLimit \<equiv> status_is TestMemoryLimit"
abbreviation "IsPathNotFound \<equiv> status_is TestPathNotFound"
abbreviation "IsManualCompactionPaused \<equiv> status_is TestManualCompactionPaused"
abbreviation "IsTxnNotPrepared \<equiv> status_is TestTxnNotPrepared"
abbreviation "IsIOFenced \<equiv> status_is TestIOFenced"

section \<open>IOStatus\<close>

text \<open>An \<open>IOStatus\<close> is a \<open>Status\<close> with no further member.\<close>

type_synonym IOStatus = Status

datatype IOErrorScope =
    kIOErrorScopeFileSystem | kIOErrorScopeFile | kIOErrorScopeRange | kIOErrorScopeMax

fun scope_byte :: "IOErrorScope \<Rightarrow> byte" where
  "scope_byte kIOErrorScopeFileSystem = 0"
| "scope_byte kIOErrorScopeFile = 1"
| "scope_byte kIOErrorScopeRange = 2"
| "scope_byte kIOErrorScopeMax = 3"

definition scope_of_byte :: "byte \<Rightarrow> IOErrorScope option" where
  "scope_of_byte b =
     (if b = 0 then Some kIOErrorScopeFileSystem else if b = 1 then Some kIOErrorScopeFile
      else if b = 2 then Some kIOErrorScopeRange else if b = 3 then Some kIOErrorScopeMax
      else None)"

abbreviation (input) SetRetryable :: "bool \<Rightarrow> IOStatus \<Rightarrow> IOStatus" where
  "SetRetryable r s \<equiv> s\<lparr>retryable_f := r\<rparr>"

abbreviation (input) SetDataLoss :: "bool \<Rightarrow> IOStatus \<Rightarrow> IOStatus" where
  "SetDataLoss d s \<equiv> s\<lparr>data_loss_f := d\<rparr>"

definition SetScope :: "IOErrorScope \<Rightarrow> IOStatus \<Rightarrow> IOStatus" where
  "SetScope sc s = s\<lparr>scope_f := scope_byte sc\<rparr>"

abbreviation (input) GetRetryable :: "IOStatus \<Rightarrow> bool" where
  "GetRetryable s \<equiv> retryable_f s"

abbreviation (input) GetDataLoss :: "IOStatus \<Rightarrow> bool" where
  "GetDataLoss s \<equiv> data_loss_f s"

definition GetScope :: "IOStatus \<Rightarrow> IOErrorScope option" where
  "GetScope s = scope_of_byte (scope_f s)"

definition IOStatus_code :: "Code \<Rightarrow> SubCode \<Rightarrow> IOStatus" where
  "IOStatus_code c sc = Status_full c sc False False (scope_byte kIOErrorScopeFileSystem)"

abbreviation (input) IOStatus_default :: IOStatus where
  "IOStatus_default \<equiv> IOStatus_code kOk kNone"

text \<open>
  The message constructor: the first message, then a colon, a blank and the second one when that
  is not empty, then a zero byte. \<open>None\<close> when one of its two assertions fails.
\<close>

definition message_buffer :: "bytes \<Rightarrow> bytes \<Rightarrow> bytes" where
  "message_buffer msg msg2 = msg @ (if msg2 \<noteq> [] then [58, 32] @ msg2 else []) @ [0]"

definition IOStatus_sc_msg :: "Code \<Rightarrow> SubCode \<Rightarrow> bytes \<Rightarrow> bytes \<Rightarrow> IOStatus option" where
  "IOStatus_sc_msg c sc msg msg2 =
     (if c = kOk \<or> sc = kMaxSubCode then None
      else Some ((Status_full c sc False False (scope_byte kIOErrorScopeFileSystem))
                   \<lparr>state_f := Some (message_buffer msg msg2)\<rparr>))"

definition IOStatus_msg :: "Code \<Rightarrow> bytes \<Rightarrow> bytes \<Rightarrow> IOStatus option" where
  "IOStatus_msg c msg msg2 = IOStatus_sc_msg c kNone msg msg2"

definition IOStatus_copy :: "(bytes \<Rightarrow> bytes) \<Rightarrow> IOStatus \<Rightarrow> IOStatus" where
  "IOStatus_copy cs s =
     (Status_code (code_f s) (subcode_f s))
       \<lparr>retryable_f := retryable_f s, data_loss_f := data_loss_f s, scope_f := scope_f s,
        state_f := map_option cs (state_f s)\<rparr>"

definition IOStatus_assign :: "(bytes \<Rightarrow> bytes) \<Rightarrow> bool \<Rightarrow> IOStatus \<Rightarrow> IOStatus \<Rightarrow> IOStatus" where
  "IOStatus_assign cs same this s =
     (if same then this
      else this\<lparr>code_f := code_f s, subcode_f := subcode_f s, retryable_f := retryable_f s,
                data_loss_f := data_loss_f s, scope_f := scope_f s,
                state_f := map_option cs (state_f s)\<rparr>)"

definition IOStatus_move_assign :: "bool \<Rightarrow> IOStatus \<Rightarrow> IOStatus \<Rightarrow> IOStatus \<times> IOStatus" where
  "IOStatus_move_assign same this s =
     (if same then (this, s)
      else (this\<lparr>code_f := code_f s, subcode_f := subcode_f s, retryable_f := retryable_f s,
                 data_loss_f := data_loss_f s, scope_f := scope_f s, state_f := state_f s\<rparr>,
            s\<lparr>code_f := kOk, subcode_f := kNone,
              scope_f := scope_byte kIOErrorScopeFileSystem, state_f := None\<rparr>))"

definition IOStatus_move :: "IOStatus \<Rightarrow> IOStatus \<times> IOStatus" where
  "IOStatus_move s = IOStatus_move_assign False IOStatus_default s"

definition IOStatus_eq :: "IOStatus \<Rightarrow> IOStatus \<Rightarrow> bool" where
  "IOStatus_eq s rhs \<longleftrightarrow> code_f s = code_f rhs"

definition IOStatus_neq :: "IOStatus \<Rightarrow> IOStatus \<Rightarrow> bool" where
  "IOStatus_neq s rhs \<longleftrightarrow> \<not> IOStatus_eq s rhs"

text \<open>The value of the local variable that is returned (built in place by the caller).\<close>

definition status_to_io_status :: "Status \<Rightarrow> IOStatus \<times> Status" where
  "status_to_io_status status = Status_move_assign False IOStatus_default status"

text \<open>The factory functions; \<open>None\<close> when an assertion of the constructor fails.\<close>

datatype IOStatusFactory =
    IO_OK
  | IO_NotSupported_msg bytes bytes
  | IO_NotSupported_sc SubCode
  | IO_NotFound_msg bytes bytes
  | IO_NotFound_sc SubCode
  | IO_Corruption_msg bytes bytes
  | IO_Corruption_sc SubCode
  | IO_InvalidArgument_msg bytes bytes
  | IO_InvalidArgument_sc SubCode
  | IO_IOError_msg bytes bytes
  | IO_IOError_sc SubCode
  | IO_Busy_sc SubCode
  | IO_Busy_msg bytes bytes
  | IO_TimedOut_sc SubCode
  | IO_TimedOut_msg bytes bytes
  | IO_NoSpace
  | IO_NoSpace_msg bytes bytes
  | IO_PathNotFound
  | IO_PathNotFound_msg bytes bytes
  | IO_IOFenced
  | IO_IOFenced_msg bytes bytes
  | IO_Aborted_sc SubCode
  | IO_Aborted_msg bytes bytes

fun IOStatus_make :: "IOStatusFactory \<Rightarrow> IOStatus option" where
  "IOStatus_make IO_OK = Some IOStatus_default"
| "IOStatus_make (IO_NotSupported_msg msg msg2) = IOStatus_msg kNotSupported msg msg2"
| "IOStatus_make (IO_NotSupported_sc sc) = Some (IOStatus_code kNotSupported sc)"
| "IOStatus_make (IO_NotFound_msg msg msg2) = IOStatus_msg kNotFound msg msg2"
| "IOStatus_make (IO_NotFound_sc sc) = Some (IOStatus_code kNotFound sc)"
| "IOStatus_make (IO_Corruption_msg msg msg2) = IOStatus_msg kCorruption msg msg2"
| "IOStatus_make (IO_Corruption_sc sc) = Some (IOStatus_code kCorruption sc)"
| "IOStatus_make (IO_InvalidArgument_msg msg msg2) = IOStatus_msg kInvalidArgument msg msg2"
| "IOStatus_make (IO_InvalidArgument_sc sc) = Some (IOStatus_code kInvalidArgument sc)"
| "IOStatus_make (IO_IOError_msg msg msg2) = IOStatus_msg kIOError msg msg2"
| "IOStatus_make (IO_IOError_sc sc) = Some (IOStatus_code kIOError sc)"
| "IOStatus_make (IO_Busy_sc sc) = Some (IOStatus_code kBusy sc)"
| "IOStatus_make (IO_Busy_msg msg msg2) = IOStatus_msg kBusy msg msg2"
| "IOStatus_make (IO_TimedOut_sc sc) = Some (IOStatus_code kTimedOut sc)"
| "IOStatus_make (IO_TimedOut_msg msg msg2) = IOStatus_msg kTimedOut msg msg2"
| "IOStatus_make IO_NoSpace = Some (IOStatus_code kIOError kNoSpace)"
| "IOStatus_make (IO_NoSpace_msg msg msg2) = IOStatus_sc_msg kIOError kNoSpace msg msg2"
| "IOStatus_make IO_PathNotFound = Some (IOStatus_code kIOError kPathNotFound)"
| "IOStatus_make (IO_PathNotFound_msg msg msg2) = IOStatus_sc_msg kIOError kPathNotFound msg msg2"
| "IOStatus_make IO_IOFenced = Some (IOStatus_code kIOError kIOFenced)"
| "IOStatus_make (IO_IOFenced_msg msg msg2) = IOStatus_sc_msg kIOError kIOFenced msg msg2"
| "IOStatus_make (IO_Aborted_sc sc) = Some (IOStatus_code kAborted sc)"
| "IOStatus_make (IO_Aborted_msg msg msg2) = IOStatus_msg kAborted msg msg2"

section \<open>Classification\<close>

lemmas status_accessors [model_simps] = code_def subcode_def severity_def getState_def

text \<open>The predicates that look at the code alone, in the order of the codes.\<close>

definition code_predicates :: "(Status \<Rightarrow> bool) list" where
  "code_predicates =
     [Status_ok, IsNotFound, IsCorruption, IsNotSupported, IsInvalidArgument, IsIOError,
      IsMergeInProgress, IsIncomplete, IsShutdownInProgress, IsTimedOut, IsAborted, IsBusy,
      IsExpired, IsTryAgain, IsCompactionTooLarge, IsColumnFamilyDropped]"

lemmas code_predicate_defs = Status_ok_def status_is.simps

lemmas subcode_predicate_defs = IsOkOverwritten_def IsOkMergeOperandThresholdExceeded_def status_is.simps



lemma subcode_predicates_imply_code:
  "IsOkOverwritten s \<Longrightarrow> Status_ok s" "IsOkMergeOperandThresholdExceeded s \<Longrightarrow> Status_ok s"
  "IsLockLimit s \<Longrightarrow> IsAborted s" "IsDeadlock s \<Longrightarrow> IsBusy s" "IsNoSpace s \<Longrightarrow> IsIOError s"
  "IsMemoryLimit s \<Longrightarrow> IsAborted s" "IsPathNotFound s \<Longrightarrow> IsIOError s \<or> IsNotFound s"
  "IsManualCompactionPaused s \<Longrightarrow> IsIncomplete s" "IsTxnNotPrepared s \<Longrightarrow> IsInvalidArgument s"
  "IsIOFenced s \<Longrightarrow> IsIOError s"
  by (simp_all add: subcode_predicate_defs code_predicate_defs)

text \<open>
  The contract of the out-of-line message constructor: it stores the code, the subcode and the
  severity it is given.
\<close>

locale status_message_ctor =
  fixes mk :: status_ctor
  assumes mk_code: "code_f (mk c sc m1 m2 sev) = c"
    and mk_subcode: "subcode_f (mk c sc m1 m2 sev) = sc"
    and mk_sev: "sev_f (mk c sc m1 m2 sev) = sev"
begin

lemmas mk_fields = mk_code mk_subcode mk_sev

lemma message_factories_recognised:
  "IsNotFound (Status_make mk (NotFound_msg a b))" "IsCorruption (Status_make mk (Corruption_msg a b))"
  "IsNotSupported (Status_make mk (NotSupported_msg a b))" "IsInvalidArgument (Status_make mk (InvalidArgument_msg a b))"
  "IsIOError (Status_make mk (IOError_msg a b))" "IsMergeInProgress (Status_make mk (MergeInProgress_msg a b))"
  "IsIncomplete (Status_make mk (Incomplete_msg a b))" "IsShutdownInProgress (Status_make mk (ShutdownInProgress_msg a b))"
  "IsAborted (Status_make mk (Aborted_msg a b))" "IsBusy (Status_make mk (Busy_msg a b))"
  "IsTimedOut (Status_make mk (TimedOut_msg a b))" "IsExpired (Status_make mk (Expired_msg a b))"
  "IsTryAgain (Status_make mk (TryAgain_msg a b))" "IsCompactionTooLarge (Status_make mk (CompactionTooLarge_msg a b))"
  "IsColumnFamilyDropped (Status_make mk (ColumnFamilyDropped_msg a b))"
  "IsNoSpace (Status_make mk (NoSpace_msg a b))" "IsMemoryLimit (Status_make mk (MemoryLimit_msg a b))"
  "IsPathNotFound (Status_make mk (PathNotFound_msg a b))" "IsTxnNotPrepared (Status_make mk (TxnNotPrepared_msg a b))"
  by (simp_all add: code_predicate_defs subcode_predicate_defs code_def subcode_def Status_msg_def mk_fields
      Status_InvalidArgument_msg_def Status_NotSupported_msg_def)

lemma no_message_factory_is_ok:
  "\<not> Status_ok (Status_msg mk c a b)" if "c \<noteq> kOk"
  using that by (simp add: Status_ok_def code_def Status_msg_def mk_code)

end

text \<open>
  The constructor the header itself spells out (that of \<open>IOStatus\<close>), with the severity set, is an
  instance of the contract.
\<close>

definition header_ctor :: status_ctor where
  "header_ctor c sc m1 m2 sev =
     (Status_full c sc False False 0)\<lparr>sev_f := sev, state_f := Some (message_buffer m1 m2)\<rparr>"

interpretation header_message: status_message_ctor header_ctor
  by unfold_locales (simp_all add: header_ctor_def Status_full_def)

lemma IOStatus_sc_msg_header:
  "c \<noteq> kOk \<Longrightarrow> sc \<noteq> kMaxSubCode \<Longrightarrow>
     IOStatus_sc_msg c sc m1 m2 = Some (header_ctor c sc m1 m2 kNoError)"
  by (simp add: IOStatus_sc_msg_def header_ctor_def Status_full_def)

section \<open>Error precedence\<close>

lemma UpdateIfOk_fst: "fst (UpdateIfOk this s) = (if code this = kOk then s else this)"
  by (simp add: UpdateIfOk_def Status_move_assign_def)

lemma UpdateIfOk_copy_eq:
  "UpdateIfOk_copy cs this s = (if code this = kOk then Status_copy cs s else this)"
  by (simp add: UpdateIfOk_copy_def UpdateIfOk_fst)

text \<open>
  Chaining \<open>UpdateIfOk\<close> over a sequence of results keeps the left-most failure: the outcome is
  the first status that is not ok, and the last status when all of them are ok.
\<close>

theorem UpdateIfOk_first_failure:
  "foldl (\<lambda>a s. fst (UpdateIfOk a s)) a ss =
     (case find (\<lambda>s. \<not> Status_ok s) (a # ss) of Some s \<Rightarrow> s | None \<Rightarrow> last (a # ss))"
proof (induction ss arbitrary: a)
  case Nil
  then show ?case by simp
next
  case (Cons s ss)
  show ?case
  proof (cases "Status_ok a")
    case True
    with Cons.IH [of s] show ?thesis
      by (simp add: UpdateIfOk_fst Status_ok_def last_ConsR split: option.split)
  next
    case False
    have "foldl (\<lambda>a s. fst (UpdateIfOk a s)) a ss = a" for ss
      using False by (induction ss) (simp_all add: UpdateIfOk_fst Status_ok_def)
    with False show ?thesis by (simp add: UpdateIfOk_fst Status_ok_def)
  qed
qed

section \<open>Copies and moves\<close>

text \<open>
  Moving a \<open>Status\<close> out of an object transfers every field to the target, and leaves a plain
  success status behind, so a moved-from status is never mistaken for an error.
\<close>

lemma Status_move_assign_transfers:
  "Status_move_assign False this s = (s, Status_default)"
  by (simp add: Status_move_assign_def Status_default_def)

lemma Status_copy_fields:
  "code (Status_copy cs s) = code s" "subcode (Status_copy cs s) = subcode s"
  "severity (Status_copy cs s) = severity s"
  by (simp_all add: Status_copy_def code_def subcode_def severity_def)

lemma Status_assign_is_copy: "Status_assign cs False this s = Status_copy cs s"
  by (simp add: Status_assign_def Status_copy_def)

text \<open>
  Copying an \<open>IOStatus\<close> keeps everything a \<open>Status\<close> copy keeps except the severity: the
  constructed copy has severity \<open>kNoError\<close> whatever the severity of the original.
\<close>

lemma IOStatus_copy_drops_severity:
  "IOStatus_copy cs s = (Status_copy cs s)\<lparr>sev_f := kNoError\<rparr>"
  by (simp add: IOStatus_copy_def Status_copy_def Status_code_def)

text \<open>
  A moved-from \<open>IOStatus\<close> keeps its retryable and data-loss flags: what is left behind is a
  success status only when both flags were clear.
\<close>

lemma IOStatus_moved_from:
  "snd (IOStatus_move_assign False this s) =
     Status_default\<lparr>sev_f := sev_f s, retryable_f := GetRetryable s, data_loss_f := GetDataLoss s\<rparr>"
  by (simp add: IOStatus_move_assign_def Status_default_def)

lemma status_to_io_status_keeps: "status_to_io_status s = (s, Status_default)"
  by (simp add: status_to_io_status_def Status_move_assign_transfers)

lemma scope_roundtrip: "GetScope (SetScope sc s) = Some sc"
  by (cases sc) (simp_all add: GetScope_def SetScope_def scope_of_byte_def)

text \<open>The C string a message buffer stands for.\<close>

definition c_string :: "bytes \<Rightarrow> bytes" where
  "c_string b = takeWhile (\<lambda>x. x \<noteq> 0) b"

text \<open>
  The message an \<open>IOStatus\<close> error carries reads back as its two parts joined by a colon and a
  blank, or as the first part alone when the second is empty, for messages without zero bytes; and
  the status is classified by the given code and subcode.
\<close>

theorem IOStatus_message:
  assumes "c \<noteq> kOk" and "sc \<noteq> kMaxSubCode" and "0 \<notin> set msg" and "0 \<notin> set msg2"
  shows "\<exists>s. IOStatus_sc_msg c sc msg msg2 = Some s \<and> code s = c \<and> subcode s = sc \<and>
    map_option c_string (getState s) = Some (if msg2 = [] then msg else msg @ [58, 32] @ msg2)"
proof -
  have "takeWhile (\<lambda>x. x \<noteq> 0) (xs @ [0 :: byte]) = xs" if "0 \<notin> set xs" for xs
    using that by (induction xs) auto
  from this [of msg] this [of "msg @ [58, 32] @ msg2"] assms show ?thesis
    by (auto simp: IOStatus_sc_msg_def Status_full_def code_def subcode_def getState_def
        c_string_def message_buffer_def)
qed

theorem IOStatus_message_witness:
  "\<exists>s. IOStatus_sc_msg kIOError kNoSpace [65] [66] = Some s \<and>
     map_option c_string (getState s) = Some [65, 58, 32, 66]"
  using IOStatus_message [of kIOError kNoSpace "[65]" "[66]"] by auto

end
