(* ===== verification/Enum_Sets.thy ===== *)
theory Enum_Sets
  imports Prelude
begin

unbundle bit_operations_syntax

text \<open>
  \<open>SmallEnumSet\<close> and \<open>ManagedPtr\<close> of \<open>libs/rocksdb/data_structure.h\<close>. A \<open>SmallEnumSet\<close> over an
  enumeration with values 0 to \<open>mx\<close> (the template parameter \<open>MAX_ENUMERATOR\<close>) is an array of 64-bit
  pieces; \<open>elems\<close> is the set it stands for. The two bit-counting functions are declared in the header
  and implemented in the library; they are parameters with the locale \<open>bit_counting\<close> as contract.
\<close>

section \<open>Operations\<close>

type_synonym SmallEnumSet = "u64 list"

abbreviation (input) kPieceBits :: nat where "kPieceBits \<equiv> 64"
abbreviation (input) kPieceMask :: nat where "kPieceMask \<equiv> 63"
abbreviation (input) kPieceShift :: nat where "kPieceShift \<equiv> 6"

definition kPieceCount :: "nat \<Rightarrow> nat" where
  "kPieceCount mx = mx div kPieceBits + 1"

definition SmallEnumSet_empty :: "nat \<Rightarrow> SmallEnumSet" where
  "SmallEnumSet_empty mx = replicate (kPieceCount mx) 0"

definition piece_index :: "nat \<Rightarrow> nat \<Rightarrow> nat" where
  "piece_index mx pos = (if kPieceCount mx = 1 then 0 else drop_bit kPieceShift pos)"

definition GetPiece :: "nat \<Rightarrow> SmallEnumSet \<Rightarrow> nat \<Rightarrow> u64" where
  "GetPiece mx st pos = st ! piece_index mx pos"

definition piece_bit :: "nat \<Rightarrow> u64" where
  "piece_bit value = push_bit (value AND kPieceMask) 1"

definition All :: "nat \<Rightarrow> SmallEnumSet" where
  "All mx =
     replicate (kPieceCount mx - 1) (NOT 0) @
     [if (mx + 1) AND kPieceMask \<noteq> 0 then push_bit ((mx + 1) AND kPieceMask) 1 - 1 else NOT 0]"

definition set_eq :: "SmallEnumSet \<Rightarrow> SmallEnumSet \<Rightarrow> bool" where
  "set_eq st that \<longleftrightarrow> st = that"

abbreviation (input) set_neq :: "SmallEnumSet \<Rightarrow> SmallEnumSet \<Rightarrow> bool" where
  "set_neq st that \<equiv> \<not> set_eq st that"

definition Contains :: "nat \<Rightarrow> SmallEnumSet \<Rightarrow> nat \<Rightarrow> bool option" where
  "Contains mx st value =
     (if value \<le> mx then Some (GetPiece mx st value AND piece_bit value \<noteq> 0) else None)"

definition set_empty :: "SmallEnumSet \<Rightarrow> bool" where
  "set_empty st \<longleftrightarrow> list_all (\<lambda>p. p = 0) st"

definition Add :: "nat \<Rightarrow> nat \<Rightarrow> SmallEnumSet \<Rightarrow> (bool \<times> SmallEnumSet) option" where
  "Add mx value st =
     (if value \<le> mx
      then let old_piece = GetPiece mx st value;
               new_piece = old_piece OR piece_bit value
           in Some (old_piece \<noteq> new_piece, st[piece_index mx value := new_piece])
      else None)"

definition Remove :: "nat \<Rightarrow> nat \<Rightarrow> SmallEnumSet \<Rightarrow> (bool \<times> SmallEnumSet) option" where
  "Remove mx value st =
     (if value \<le> mx
      then let old_piece = GetPiece mx st value;
               new_piece = old_piece AND NOT (piece_bit value)
           in Some (old_piece \<noteq> new_piece, st[piece_index mx value := new_piece])
      else None)"

definition With :: "nat \<Rightarrow> SmallEnumSet \<Rightarrow> nat \<Rightarrow> SmallEnumSet option" where
  "With mx st e = map_option snd (Add mx e st)"

fun With_all :: "nat \<Rightarrow> SmallEnumSet \<Rightarrow> nat list \<Rightarrow> SmallEnumSet option" where
  "With_all mx st [] = Some st"
| "With_all mx st (e # es) = (case With mx st e of None \<Rightarrow> None | Some st' \<Rightarrow> With_all mx st' es)"

definition Without :: "nat \<Rightarrow> SmallEnumSet \<Rightarrow> nat \<Rightarrow> SmallEnumSet option" where
  "Without mx st e = map_option snd (Remove mx e st)"

fun Without_all :: "nat \<Rightarrow> SmallEnumSet \<Rightarrow> nat list \<Rightarrow> SmallEnumSet option" where
  "Without_all mx st [] = Some st"
| "Without_all mx st (e # es) = (case Without mx st e of None \<Rightarrow> None | Some st' \<Rightarrow> Without_all mx st' es)"

text \<open>The variadic constructor: the set of the remaining arguments, with the first one added.\<close>

fun SmallEnumSet_of :: "nat \<Rightarrow> nat list \<Rightarrow> SmallEnumSet option" where
  "SmallEnumSet_of mx [] = Some (SmallEnumSet_empty mx)"
| "SmallEnumSet_of mx (e # rest) =
     (case SmallEnumSet_of mx rest of None \<Rightarrow> None | Some st \<Rightarrow> With mx st e)"

text \<open>The next multiple of 64 above a position, as \<open>(pos + kPieceBits) & ~kPieceMask\<close>.\<close>

definition next_piece :: "nat \<Rightarrow> nat" where
  "next_piece pos = push_bit kPieceShift (drop_bit kPieceShift (pos + kPieceBits))"

lemma next_piece_eq: "next_piece pos = 64 * (pos div 64 + 1)"
  using div_add_self2 [of "64 :: nat" pos]
  by (simp add: next_piece_def push_bit_eq_mult drop_bit_eq_div)

lemma next_piece_split: "next_piece pos = pos - pos mod 64 + 64"
  by (simp add: next_piece_eq minus_mod_eq_mult_div)

lemma window_bound:
  assumes "v < pos + j" and "pos mod 64 + j \<le> 64"
  shows "v < next_piece pos"
  using assms mod_less_eq_dividend [of pos 64] unfolding next_piece_split by linarith

lemma window_inside:
  assumes "pos + j < next_piece pos"
  shows "pos mod 64 + j < 64"
  using assms mod_less_eq_dividend [of pos 64] unfolding next_piece_split by linarith

lemma next_piece_greater: "pos < next_piece pos"
  by (simp add: next_piece_eq)

function SkipUnset :: "(u64 \<Rightarrow> nat) \<Rightarrow> nat \<Rightarrow> SmallEnumSet \<Rightarrow> nat \<Rightarrow> nat" where
  "SkipUnset ctz mx st pos =
     (if pos \<le> mx
      then let remainder = drop_bit (pos AND kPieceMask) (GetPiece mx st pos)
           in if remainder \<noteq> 0 then pos + ctz remainder else SkipUnset ctz mx st (next_piece pos)
      else mx + 1)"
  by pat_completeness auto
termination
  by (relation "measure (\<lambda>(ctz, mx, st, pos). Suc mx - pos)") (auto intro: diff_less_mono2 next_piece_greater)

declare SkipUnset.simps [simp del]

definition iter_begin :: "(u64 \<Rightarrow> nat) \<Rightarrow> nat \<Rightarrow> SmallEnumSet \<Rightarrow> nat" where
  "iter_begin ctz mx st = SkipUnset ctz mx st 0"

definition iter_end :: "nat \<Rightarrow> nat" where
  "iter_end mx = mx + 1"

definition iter_next :: "(u64 \<Rightarrow> nat) \<Rightarrow> nat \<Rightarrow> SmallEnumSet \<Rightarrow> nat \<Rightarrow> nat" where
  "iter_next ctz mx st pos = (if pos < mx then SkipUnset ctz mx st (pos + 1) else mx + 1)"

definition iter_deref :: "nat \<Rightarrow> nat \<Rightarrow> nat option" where
  "iter_deref mx pos = (if pos \<le> mx then Some pos else None)"

text \<open>A range-based \<open>for\<close> over the set, collecting what the iterator yields.\<close>

fun iterate :: "nat \<Rightarrow> (u64 \<Rightarrow> nat) \<Rightarrow> nat \<Rightarrow> SmallEnumSet \<Rightarrow> nat \<Rightarrow> nat list option" where
  "iterate 0 ctz mx st pos = None"
| "iterate (Suc fuel) ctz mx st pos =
     (if pos = iter_end mx then Some []
      else case iter_deref mx pos of
             None \<Rightarrow> None
           | Some e \<Rightarrow> map_option ((#) e) (iterate fuel ctz mx st (iter_next ctz mx st pos)))"

definition count :: "(u64 \<Rightarrow> nat) \<Rightarrow> SmallEnumSet \<Rightarrow> size_t" where
  "count popcount st = foldl (\<lambda>rv p. rv + of_nat (popcount p)) 0 st"

section \<open>The set a state stands for\<close>

definition elems :: "nat \<Rightarrow> SmallEnumSet \<Rightarrow> nat set" where
  "elems mx st = {v. v \<le> mx \<and> bit (st ! (v div 64)) (v mod 64)}"

text \<open>One piece per 64 values, and no bit above the largest enumerator.\<close>

definition set_ok :: "nat \<Rightarrow> SmallEnumSet \<Rightarrow> bool" where
  "set_ok mx st \<longleftrightarrow> length st = kPieceCount mx \<and>
     (\<forall>v. mx < v \<and> v < 64 * kPieceCount mx \<longrightarrow> \<not> bit (st ! (v div 64)) (v mod 64))"

lemma set_ok_bit_bound:
  assumes "set_ok mx st" and "v < 64 * kPieceCount mx" and "bit (st ! (v div 64)) (v mod 64)"
  shows "v \<le> mx"
proof (rule ccontr)
  assume "\<not> v \<le> mx"
  with assms show False by (simp add: set_ok_def)
qed

lemma mask_eq_mod: "n AND kPieceMask = n mod 64"
proof -
  have "n AND mask 6 = take_bit 6 n" by (simp add: take_bit_eq_mask)
  then show ?thesis by (simp add: mask_eq_exp_minus_1 take_bit_eq_mod)
qed

lemma piece_index_div: "v \<le> mx \<Longrightarrow> piece_index mx v = v div 64"
  by (auto simp: piece_index_def kPieceCount_def drop_bit_eq_div)

lemma div_less_count: "v \<le> mx \<Longrightarrow> v div 64 < kPieceCount mx"
  by (simp add: kPieceCount_def div_le_mono less_Suc_eq_le)

lemma piece_bit_exp: "piece_bit v = 2 ^ (v mod 64)"
  by (simp add: piece_bit_def mask_eq_mod)

lemma bit_piece_bit: "bit (piece_bit v) k \<longleftrightarrow> k = v mod 64"
  by (auto simp: piece_bit_exp bit_exp_iff)

lemma Contains_elems:
  assumes "v \<le> mx"
  shows "Contains mx st v = Some (v \<in> elems mx st)"
  using assms
  by (simp add: Contains_def GetPiece_def piece_index_div elems_def piece_bit_exp and_exp_eq_0_iff_not_bit)

lemma elems_update:
  assumes "length st = kPieceCount mx" and "v \<le> mx"
    and "\<And>k. k < 64 \<Longrightarrow> bit p k \<longleftrightarrow> (if k = v mod 64 then b else bit (st ! (v div 64)) k)"
  shows "w \<le> mx \<Longrightarrow> w \<in> elems mx (st[v div 64 := p]) \<longleftrightarrow> (if w = v then b else w \<in> elems mx st)"
proof -
  assume w: "w \<le> mx"
  have same: "w = v \<longleftrightarrow> w div 64 = v div 64 \<and> w mod 64 = v mod 64"
    by (metis div_mult_mod_eq)
  show ?thesis
  proof (cases "w div 64 = v div 64")
    case True
    with w same assms(3) [of "w mod 64"] div_less_count [OF assms(2)] assms(1) show ?thesis
      by (auto simp: elems_def)
  next
    case False
    with w same show ?thesis by (auto simp: elems_def)
  qed
qed

lemma elems_update_set:
  assumes "length st = kPieceCount mx" and "v \<le> mx"
    and "\<And>k. k < 64 \<Longrightarrow> bit p k \<longleftrightarrow> (if k = v mod 64 then b else bit (st ! (v div 64)) k)"
  shows "elems mx (st[v div 64 := p]) = (if b then insert v (elems mx st) else elems mx st - {v})"
    (is "?l = ?r")
proof (rule set_eqI)
  fix w
  have le: "w \<in> elems mx st' \<Longrightarrow> w \<le> mx" for st' by (simp add: elems_def)
  show "w \<in> ?l \<longleftrightarrow> w \<in> ?r"
    using elems_update [OF assms, of w] le assms(2) by (cases "w \<le> mx") auto
qed

lemma ok_update:
  assumes "set_ok mx st" and "v \<le> mx"
    and "\<And>k. k < 64 \<Longrightarrow> bit p k \<longleftrightarrow> (if k = v mod 64 then b else bit (st ! (v div 64)) k)"
  shows "set_ok mx (st[v div 64 := p])"
  unfolding set_ok_def
proof (intro conjI allI impI)
  show "length (st[v div 64 := p]) = kPieceCount mx"
    using assms(1) by (simp add: set_ok_def)
  fix w
  assume w: "mx < w \<and> w < 64 * kPieceCount mx"
  with assms(1) have old: "\<not> bit (st ! (w div 64)) (w mod 64)"
    by (simp add: set_ok_def)
  show "\<not> bit (st[v div 64 := p] ! (w div 64)) (w mod 64)"
  proof (cases "w div 64 = v div 64")
    case True
    with w assms(2) have "w mod 64 \<noteq> v mod 64"
      by (metis div_mult_mod_eq leD)
    with True old assms(3) [of "w mod 64"] div_less_count [OF assms(2)] assms(1) show ?thesis
      by (simp add: set_ok_def)
  next
    case False
    with old show ?thesis by simp
  qed
qed

lemma SmallEnumSet_empty_ok: "set_ok mx (SmallEnumSet_empty mx)"
  by (simp add: set_ok_def SmallEnumSet_empty_def div_less_iff_less_mult mult.commute)

lemma elems_empty [simp]: "elems mx (SmallEnumSet_empty mx) = {}"
  by (auto simp: elems_def SmallEnumSet_empty_def div_less_count)

lemma bit_or_piece: "k < 64 \<Longrightarrow> bit (p OR piece_bit v) k \<longleftrightarrow> (if k = v mod 64 then True else bit p k)"
  by (auto simp: bit_or_iff bit_piece_bit)

lemma bit_and_not_piece:
  "k < 64 \<Longrightarrow> bit (p AND NOT (piece_bit v)) k \<longleftrightarrow> (if k = v mod 64 then False else bit p k)"
  by (auto simp: bit_and_iff bit_not_iff bit_piece_bit)

lemma bit_u64_bound: "bit (w :: u64) k \<Longrightarrow> k < 64"
  using bit_imp_le_length [of w k] by simp

lemma u64_eqI: "(\<And>k. k < 64 \<Longrightarrow> bit a k = bit b k) \<Longrightarrow> a = (b :: u64)"
  by (rule bit_word_eqI) simp

text \<open>
  \<open>Add\<close> of a valid enumerator inserts exactly that value, keeps the state well formed, and
  reports whether the set changed, that is, whether the value was absent.
\<close>

theorem Add_inserts:
  assumes "set_ok mx st" and "v \<le> mx"
  shows "\<exists>st'. Add mx v st = Some (v \<notin> elems mx st, st') \<and>
    set_ok mx st' \<and> elems mx st' = insert v (elems mx st)"
proof -
  let ?p = "st ! (v div 64)" and ?st' = "st[v div 64 := st ! (v div 64) OR piece_bit v]"
  have "?p \<noteq> ?p OR piece_bit v \<longleftrightarrow> v \<notin> elems mx st"
  proof -
    have "?p = ?p OR piece_bit v \<longleftrightarrow> bit ?p (v mod 64)"
      using bit_or_piece [of _ ?p v]
      by (metis u64_eqI mod_less_divisor zero_less_numeral)
    with assms(2) show ?thesis by (simp add: elems_def)
  qed
  moreover have "set_ok mx ?st'"
    by (rule ok_update [OF assms bit_or_piece])
  moreover have "elems mx ?st' = insert v (elems mx st)"
    using elems_update_set [OF _ assms(2) bit_or_piece] assms(1) by (simp add: set_ok_def)
  ultimately show ?thesis
    using assms(2) by (simp add: Add_def GetPiece_def piece_index_div Let_def)
qed

theorem Add_inserts_witness:
  "\<exists>st'. Add 70 65 (SmallEnumSet_empty 70) = Some (True, st') \<and> elems 70 st' = {65}"
proof -
  show ?thesis using Add_inserts [OF SmallEnumSet_empty_ok, of 65 70] by auto
qed

text \<open>
  \<open>Remove\<close> of a valid enumerator deletes exactly that value, keeps the state well formed, and
  reports whether the set changed, that is, whether the value was present.
\<close>

theorem Remove_deletes:
  assumes "set_ok mx st" and "v \<le> mx"
  shows "\<exists>st'. Remove mx v st = Some (v \<in> elems mx st, st') \<and>
    set_ok mx st' \<and> elems mx st' = elems mx st - {v}"
proof -
  let ?p = "st ! (v div 64)" and ?st' = "st[v div 64 := st ! (v div 64) AND NOT (piece_bit v)]"
  have "?p \<noteq> ?p AND NOT (piece_bit v) \<longleftrightarrow> v \<in> elems mx st"
  proof -
    have "?p = ?p AND NOT (piece_bit v) \<longleftrightarrow> \<not> bit ?p (v mod 64)"
      using bit_and_not_piece [of _ ?p v]
      by (metis u64_eqI mod_less_divisor zero_less_numeral)
    with assms(2) show ?thesis by (simp add: elems_def)
  qed
  moreover have "set_ok mx ?st'"
    by (rule ok_update [OF assms bit_and_not_piece])
  moreover have "elems mx ?st' = elems mx st - {v}"
    using elems_update_set [OF _ assms(2) bit_and_not_piece] assms(1) by (simp add: set_ok_def)
  ultimately show ?thesis
    using assms(2) by (simp add: Remove_def GetPiece_def piece_index_div Let_def)
qed

theorem Remove_deletes_witness:
  "\<exists>st'. Remove 70 65 (SmallEnumSet_empty 70) = Some (False, st') \<and> elems 70 st' = {}"
proof -
  show ?thesis using Remove_deletes [OF SmallEnumSet_empty_ok, of 65 70] by auto
qed


section \<open>Whole-set operations\<close>

lemma With_inserts:
  assumes "set_ok mx st" and "v \<le> mx"
  obtains st' where "With mx st v = Some st'" and "set_ok mx st'" and "elems mx st' = insert v (elems mx st)"
proof -
  let ?st' = "st[v div 64 := st ! (v div 64) OR piece_bit v]"
  have "With mx st v = Some ?st'"
    using assms(2) by (simp add: With_def Add_def GetPiece_def piece_index_div Let_def)
  moreover have "set_ok mx ?st'"
    by (rule ok_update [OF assms bit_or_piece])
  moreover have "elems mx ?st' = insert v (elems mx st)"
    using elems_update_set [OF _ assms(2) bit_or_piece] assms(1) by (simp add: set_ok_def)
  ultimately show thesis by (rule that)
qed

lemma Without_deletes:
  assumes "set_ok mx st" and "v \<le> mx"
  obtains st' where "Without mx st v = Some st'" and "set_ok mx st'" and "elems mx st' = elems mx st - {v}"
proof -
  let ?st' = "st[v div 64 := st ! (v div 64) AND NOT (piece_bit v)]"
  have "Without mx st v = Some ?st'"
    using assms(2) by (simp add: Without_def Remove_def GetPiece_def piece_index_div Let_def)
  moreover have "set_ok mx ?st'"
    by (rule ok_update [OF assms bit_and_not_piece])
  moreover have "elems mx ?st' = elems mx st - {v}"
    using elems_update_set [OF _ assms(2) bit_and_not_piece] assms(1) by (simp add: set_ok_def)
  ultimately show thesis by (rule that)
qed

lemma With_all_inserts:
  assumes "set_ok mx st" and "set es \<subseteq> {..mx}"
  shows "\<exists>st'. With_all mx st es = Some st' \<and> set_ok mx st' \<and> elems mx st' = elems mx st \<union> set es"
  using assms
proof (induction es arbitrary: st)
  case Nil
  then show ?case by simp
next
  case (Cons e es)
  from Cons.prems obtain st1 where "With mx st e = Some st1" "set_ok mx st1" "elems mx st1 = insert e (elems mx st)"
    by (auto elim: With_inserts [of mx st e])
  with Cons.IH [of st1] Cons.prems(2) show ?case by auto
qed

lemma Without_all_deletes:
  assumes "set_ok mx st" and "set es \<subseteq> {..mx}"
  shows "\<exists>st'. Without_all mx st es = Some st' \<and> set_ok mx st' \<and> elems mx st' = elems mx st - set es"
  using assms
proof (induction es arbitrary: st)
  case Nil
  then show ?case by simp
next
  case (Cons e es)
  from Cons.prems obtain st1 where "Without mx st e = Some st1" "set_ok mx st1" "elems mx st1 = elems mx st - {e}"
    by (auto elim: Without_deletes [of mx st e])
  with Cons.IH [of st1] Cons.prems(2) show ?case by auto
qed

lemma SmallEnumSet_of_elems:
  assumes "set es \<subseteq> {..mx}"
  shows "\<exists>st. SmallEnumSet_of mx es = Some st \<and> set_ok mx st \<and> elems mx st = set es"
  using assms
proof (induction es)
  case Nil
  then show ?case by (simp add: SmallEnumSet_empty_ok)
next
  case (Cons e es)
  then obtain st where "SmallEnumSet_of mx es = Some st" "set_ok mx st" "elems mx st = set es"
    by auto
  with Cons.prems show ?case by (auto elim: With_inserts [of mx st e])
qed

lemma elems_word: "v \<le> mx \<Longrightarrow> v \<in> elems mx st \<longleftrightarrow> bit (st ! (v div 64)) (v mod 64)"
  by (simp add: elems_def)

lemma set_eq_elems:
  assumes "set_ok mx a" and "set_ok mx b"
  shows "set_eq a b \<longleftrightarrow> elems mx a = elems mx b"
proof
  assume eq: "elems mx a = elems mx b"
  have "a ! i = b ! i" if "i < length a" for i
  proof (rule u64_eqI)
    fix k :: nat
    assume k: "k < 64"
    define v where "v = 64 * i + k"
    have v: "v div 64 = i" "v mod 64 = k" using k by (simp_all add: v_def)
    have "v < 64 * kPieceCount mx"
      using k that assms(1) unfolding set_ok_def v_def by (simp add: less_Suc_eq_le [symmetric])
    then have "bit (a ! (v div 64)) (v mod 64) = bit (b ! (v div 64)) (v mod 64)"
      using eq assms by (cases "v \<le> mx") (auto simp: set_ok_def simp flip: elems_word)
    then show "bit (a ! i) k = bit (b ! i) k" by (simp add: v)
  qed
  with assms show "set_eq a b"
    by (auto simp: set_eq_def set_ok_def intro: nth_equalityI)
qed (simp add: set_eq_def)

lemma set_empty_elems:
  assumes "set_ok mx st"
  shows "set_empty st \<longleftrightarrow> elems mx st = {}"
proof -
  have "set_empty st \<longleftrightarrow> set_eq st (SmallEnumSet_empty mx)"
    using assms
    by (auto simp: set_empty_def set_eq_def SmallEnumSet_empty_def set_ok_def list_all_iff
        intro: replicate_eqI)
  also have "\<dots> \<longleftrightarrow> elems mx st = elems mx (SmallEnumSet_empty mx)"
    by (rule set_eq_elems [OF assms SmallEnumSet_empty_ok])
  finally show ?thesis by simp
qed

lemma last_piece_bit:
  assumes "k < 64"
  shows "bit (if (mx + 1) AND kPieceMask \<noteq> 0 then push_bit ((mx + 1) AND kPieceMask) 1 - 1 else NOT 0 :: u64) k
    \<longleftrightarrow> k \<le> mx mod 64"
proof (cases "(mx + 1) mod 64 = 0")
  case True
  then have "mx mod 64 = 63" and z: "(mx + 1) AND kPieceMask = 0"
    using mod_Suc [of mx 64] by (simp_all add: mask_eq_mod split: if_splits)
  moreover have "bit (NOT 0 :: u64) k" using assms by (simp add: bit_not_iff)
  ultimately show ?thesis using assms by (simp only: z) simp
next
  case False
  then have m: "(mx + 1) AND kPieceMask = mx mod 64 + 1" and nz: "mx mod 64 + 1 \<noteq> 0"
    using mod_Suc [of mx 64] by (simp_all add: mask_eq_mod split: if_splits)
  have pm: "push_bit n 1 - 1 = (mask n :: u64)" for n
    by (simp add: mask_eq_exp_minus_1)
  have "(if (mx + 1) AND kPieceMask \<noteq> 0 then push_bit ((mx + 1) AND kPieceMask) 1 - 1 else NOT 0 :: u64)
      = mask (mx mod 64 + 1)"
    using nz by (simp only: m pm not_False_eq_True if_True)
  moreover have "bit (mask (mx mod 64 + 1) :: u64) k \<longleftrightarrow> k \<le> mx mod 64"
    unfolding bit_mask_iff using assms by (simp add: less_Suc_eq_le)
  ultimately show ?thesis by (simp only:)
qed

lemma All_nth_bit:
  assumes "i < kPieceCount mx" and "k < 64"
  shows "bit (All mx ! i) k \<longleftrightarrow> 64 * i + k \<le> mx"
proof (cases "i < mx div 64")
  case True
  then have "All mx ! i = NOT 0"
    by (simp add: All_def nth_append kPieceCount_def)
  moreover from True have "64 * i + k \<le> mx" using assms(2) by linarith
  ultimately show ?thesis using assms(2) by (simp add: bit_not_iff)
next
  case False
  with assms(1) have i: "i = mx div 64" by (simp add: kPieceCount_def)
  then have "All mx ! i =
    (if (mx + 1) AND kPieceMask \<noteq> 0 then push_bit ((mx + 1) AND kPieceMask) 1 - 1 else NOT 0)"
    by (simp add: All_def nth_append kPieceCount_def)
  moreover have "k \<le> mx mod 64 \<longleftrightarrow> 64 * i + k \<le> mx"
    unfolding i using mult_div_mod_eq [of 64 mx] by linarith
  ultimately show ?thesis by (simp only: last_piece_bit [OF assms(2)])
qed

lemma set_ok_elems_All: "set_ok mx (All mx) \<and> elems mx (All mx) = {..mx}"
proof
  have bit: "bit (All mx ! (v div 64)) (v mod 64) \<longleftrightarrow> v \<le> mx" if "v < 64 * kPieceCount mx" for v
    using All_nth_bit [of "v div 64" mx "v mod 64"] that
    by (simp add: div_less_iff_less_mult mult.commute)
  have "length (All mx) = kPieceCount mx"
    by (simp add: All_def kPieceCount_def)
  with bit show "set_ok mx (All mx)" by (simp add: set_ok_def)
  have "v < 64 * kPieceCount mx" if "v \<le> mx" for v
    using that by (simp add: kPieceCount_def)
  with bit show "elems mx (All mx) = {..mx}" by (auto simp: elems_def)
qed

text \<open>
  \<open>All\<close> is the set of every enumerator value from 0 to the largest one, with no bit set
  beyond it, for every size of the enumeration; and it is the only well-formed state that stands for
  that set.
\<close>

theorem All_elems: "set_ok mx (All mx) \<and> elems mx (All mx) = {..mx} \<and> (\<forall>st. set_ok mx st \<longrightarrow> elems mx st = {..mx} \<longrightarrow> set_eq st (All mx))"
  using set_ok_elems_All [of mx] set_eq_elems [of mx _ "All mx"] by simp

theorem All_elems_witness: "set_eq (All 3) (All 3) \<and> elems 3 (All 3) = {..3}"
  using All_elems [of 3] by simp

section \<open>Iteration and counting\<close>

text \<open>
  The contract of the out-of-line bit counters: the index of the lowest set bit of a non-zero
  piece, and the number of set bits of a piece.
\<close>

locale bit_counting =
  fixes ctz :: "u64 \<Rightarrow> nat" and popcount :: "u64 \<Rightarrow> nat"
  assumes ctz_bit: "w \<noteq> 0 \<Longrightarrow> bit w (ctz w)"
    and ctz_least: "w \<noteq> 0 \<Longrightarrow> k < ctz w \<Longrightarrow> \<not> bit w k"
    and popcount_card: "popcount w = card {k. bit w k}"
begin

lemma piece_window:
  assumes "set_ok mx st" and "pos \<le> mx"
  defines "r \<equiv> drop_bit (pos mod 64) (st ! (pos div 64))"
  shows "bit r j \<Longrightarrow> pos + j \<in> elems mx st"
    and "pos + j < next_piece pos \<Longrightarrow> pos + j \<in> elems mx st \<Longrightarrow> bit r j"
proof -
  have split: "(pos + j) div 64 = pos div 64 \<and> (pos + j) mod 64 = pos mod 64 + j"
    if "pos mod 64 + j < 64" for j
  proof -
    have eq: "pos + j = (pos mod 64 + j) + (pos div 64) * 64" by simp
    show ?thesis
      unfolding eq using that by (simp only: div_mult_self1 mod_mult_self1) simp
  qed
  show "pos + j \<in> elems mx st" if "bit r j"
  proof -
    from that have b: "bit (st ! (pos div 64)) (pos mod 64 + j)"
      by (simp add: r_def bit_drop_bit_eq)
    then have lt: "pos mod 64 + j < 64"
      by (rule bit_u64_bound)
    have "(pos + j) div 64 < kPieceCount mx"
      using split [OF lt] div_less_count [OF assms(2)] by simp
    then have "pos + j < 64 * kPieceCount mx"
      by (simp add: div_less_iff_less_mult mult.commute)
    then have "pos + j \<le> mx"
      by (rule set_ok_bit_bound [OF assms(1)]) (use b split [OF lt] in simp)
    with b split [OF lt] show ?thesis by (simp add: elems_def)
  qed
  show "bit r j" if "pos + j < next_piece pos" "pos + j \<in> elems mx st"
  proof -
    have "pos mod 64 + j < 64"
      by (rule window_inside [OF that(1)])
    from split [OF this] that(2) show ?thesis
      by (simp add: elems_def r_def bit_drop_bit_eq)
  qed
qed

lemma SkipUnset_least:
  assumes "set_ok mx st"
  defines "f \<equiv> SkipUnset ctz mx st"
  shows "f pos \<le> mx + 1 \<and> (\<forall>v \<in> elems mx st. pos \<le> v \<longrightarrow> f pos \<le> v) \<and>
    (f pos \<le> mx \<longrightarrow> pos \<le> f pos \<and> f pos \<in> elems mx st)"
proof (induction "Suc mx - pos" arbitrary: pos rule: less_induct)
  case less
  note win = piece_window [OF assms(1)]
  define r where "r = drop_bit (pos mod 64) (st ! (pos div 64))"
  have unfold: "f pos = (if pos \<le> mx then if r \<noteq> 0 then pos + ctz r else f (next_piece pos) else mx + 1)"
    by (simp add: f_def SkipUnset.simps [of ctz mx st pos] r_def mask_eq_mod GetPiece_def piece_index_div)
  consider (past) "mx < pos" | (found) "pos \<le> mx" "r \<noteq> 0" | (skip) "pos \<le> mx" "r = 0"
    by linarith
  then show ?case
  proof cases
    case past
    then show ?thesis by (auto simp: unfold elems_def)
  next
    case found
    have "pos + ctz r \<in> elems mx st"
      using win(1) [OF found(1)] ctz_bit [OF found(2)] by (simp add: r_def)
    moreover have "pos + ctz r \<le> v" if "v \<in> elems mx st" "pos \<le> v" for v
    proof (rule ccontr)
      assume "\<not> pos + ctz r \<le> v"
      then have lt: "v - pos < ctz r" and lt': "v < pos + ctz r" using that(2) by simp_all
      have "bit (st ! (pos div 64)) (pos mod 64 + ctz r)"
        using ctz_bit [OF found(2)] by (simp add: r_def bit_drop_bit_eq)
      then have "pos mod 64 + ctz r < 64" by (rule bit_u64_bound)
      then have "v < next_piece pos"
        by (rule window_bound [OF lt' less_imp_le_nat])
      with win(2) [OF found(1), of "v - pos"] that have "bit r (v - pos)"
        by (simp add: r_def)
      with ctz_least [OF found(2) lt] show False by simp
    qed
    ultimately show ?thesis using found by (auto simp: unfold elems_def)
  next
    case skip
    have IH: "f (next_piece pos) \<le> mx + 1 \<and>
      (\<forall>v \<in> elems mx st. next_piece pos \<le> v \<longrightarrow> f (next_piece pos) \<le> v) \<and>
      (f (next_piece pos) \<le> mx \<longrightarrow> next_piece pos \<le> f (next_piece pos) \<and> f (next_piece pos) \<in> elems mx st)"
      by (rule less) (use skip(1) next_piece_greater [of pos] in \<open>auto intro: diff_less_mono2\<close>)
    have "next_piece pos \<le> v" if "v \<in> elems mx st" "pos \<le> v" for v
    proof (rule leI, rule notI)
      assume "v < next_piece pos"
      with win(2) [OF skip(1), of "v - pos"] that have "bit r (v - pos)" by (simp add: r_def)
      with skip(2) show False by simp
    qed
    with IH skip next_piece_greater [of pos] show ?thesis
      by (auto simp: unfold intro: less_imp_le_nat order.strict_trans2)
  qed
qed

lemma iterate_from:
  assumes "set_ok mx st" and "pos = mx + 1 \<or> pos \<in> elems mx st" and "mx + 2 \<le> fuel + pos"
  shows "\<exists>xs. iterate fuel ctz mx st pos = Some xs \<and> sorted_wrt (<) xs \<and> set xs = {v \<in> elems mx st. pos \<le> v}"
  using assms(2,3)
proof (induction fuel arbitrary: pos)
  case 0
  then show ?case by (auto simp: elems_def)
next
  case (Suc fuel)
  show ?case
  proof (cases "pos = mx + 1")
    case True
    then show ?thesis by (auto simp: iter_end_def elems_def)
  next
    case False
    with Suc.prems have pos: "pos \<in> elems mx st" "pos \<le> mx" by (auto simp: elems_def)
    define nx where "nx = iter_next ctz mx st pos"
    have nx: "(nx = mx + 1 \<or> nx \<in> elems mx st) \<and> pos < nx \<and> (\<forall>v \<in> elems mx st. pos < v \<longrightarrow> nx \<le> v)"
    proof (cases "pos < mx")
      case True
      with SkipUnset_least [OF assms(1), of "pos + 1"] show ?thesis
        by (auto simp: nx_def iter_next_def Suc_le_eq le_Suc_eq)
    next
      case False
      with pos show ?thesis by (auto simp: nx_def iter_next_def elems_def)
    qed
    then obtain xs where xs: "iterate fuel ctz mx st nx = Some xs" "sorted_wrt (<) xs"
      "set xs = {v \<in> elems mx st. nx \<le> v}"
      using Suc.IH [of nx] Suc.prems(2) by auto
    have "{v \<in> elems mx st. pos \<le> v} = insert pos {v \<in> elems mx st. nx \<le> v}"
      using nx pos by (auto simp: order.order_iff_strict)
    with xs nx pos False show ?thesis
      by (auto simp: iter_end_def iter_deref_def nx_def [symmetric])
  qed
qed

lemma iterate_begin:
  assumes "set_ok mx st" and "mx + 2 \<le> fuel"
  shows "\<exists>xs. iterate fuel ctz mx st (iter_begin ctz mx st) = Some xs \<and> sorted_wrt (<) xs \<and> set xs = elems mx st"
proof -
  define b where "b = iter_begin ctz mx st"
  have b: "(b = mx + 1 \<or> b \<in> elems mx st) \<and> (\<forall>v \<in> elems mx st. b \<le> v)"
    using SkipUnset_least [OF assms(1), of 0] by (auto simp: b_def iter_begin_def le_Suc_eq)
  then have "{v \<in> elems mx st. b \<le> v} = elems mx st" by auto
  with iterate_from [OF assms(1), of b fuel] b assms(2) show ?thesis by (auto simp: b_def)
qed

lemma popcount_sum:
  "card {v. v < 64 * length st \<and> bit (st ! (v div 64)) (v mod 64)} = sum_list (map popcount st)"
proof (induction st rule: rev_induct)
  case Nil
  then show ?case by simp
next
  case (snoc p st)
  let ?A = "{v. v < 64 * length st \<and> bit (st ! (v div 64)) (v mod 64)}"
  let ?B = "(\<lambda>k. 64 * length st + k) ` {k. bit p k}"
  have k64: "k < 64" if "bit p k" for k using that by (rule bit_u64_bound)
  have "{v. v < 64 * length (st @ [p]) \<and> bit ((st @ [p]) ! (v div 64)) (v mod 64)} = ?A \<union> ?B"
    (is "?L = _")
  proof (intro set_eqI iffI)
    fix v assume v: "v \<in> ?L"
    show "v \<in> ?A \<union> ?B"
    proof (cases "v < 64 * length st")
      case True
      with v show ?thesis by (simp add: nth_append div_less_iff_less_mult mult.commute)
    next
      case False
      with v have "v div 64 = length st" by (simp add: div_nat_eqI)
      with v have "bit p (v mod 64)" by (simp add: nth_append)
      moreover have "v = 64 * length st + v mod 64"
        using \<open>v div 64 = length st\<close> mult_div_mod_eq [of 64 v] by simp
      ultimately show ?thesis by blast
    qed
  next
    fix v assume "v \<in> ?A \<union> ?B"
    then show "v \<in> ?L"
      using k64 by (auto simp: nth_append div_less_iff_less_mult mult.commute)
  qed
  moreover have "?A \<inter> ?B = {}" by auto
  moreover have "finite ?A" "finite ?B"
    using k64 by (auto intro: finite_subset [of _ "{..<64}"] finite_imageI)
  moreover have "card ?B = popcount p"
    by (simp add: card_image popcount_card)
  ultimately show ?case
    using snoc.IH by (simp add: card_Un_disjoint)
qed

lemma elems_card:
  assumes "set_ok mx st"
  shows "card (elems mx st) = sum_list (map popcount st)"
proof -
  have "v < 64 * kPieceCount mx" if "v \<le> mx" for v
    using that by (simp add: kPieceCount_def)
  then have "elems mx st = {v. v < 64 * length st \<and> bit (st ! (v div 64)) (v mod 64)}"
    using assms set_ok_bit_bound [OF assms] by (auto simp: elems_def set_ok_def)
  then show ?thesis by (simp add: popcount_sum)
qed

lemma count_card:
  assumes "set_ok mx st" and "mx < 1024"
  shows "unat (count popcount st) = card (elems mx st)"
proof -
  have "count popcount st = of_nat (sum_list (map popcount st))"
  proof -
    have "foldl (\<lambda>rv p. rv + of_nat (popcount p)) a st = a + of_nat (sum_list (map popcount st))" for a :: size_t
      by (induction st arbitrary: a) auto
    then show ?thesis by (simp add: count_def)
  qed
  moreover have "card (elems mx st) \<le> card {..mx}"
    by (rule card_mono) (auto simp: elems_def)
  ultimately show ?thesis
    using assms elems_card [OF assms(1)] by (simp add: unat_of_nat_small)
qed

end

text \<open>The two counters by their meaning, on 64-bit pieces.\<close>

definition ctz64 :: "u64 \<Rightarrow> nat" where
  "ctz64 w = length (takeWhile (\<lambda>k. \<not> bit w k) [0..<64])"

definition popcount64 :: "u64 \<Rightarrow> nat" where
  "popcount64 w = length (filter (bit w) [0..<64])"

lemma ctz64_lowest:
  assumes "w \<noteq> 0"
  shows "bit w (ctz64 w)" and "k < ctz64 w \<Longrightarrow> \<not> bit w k"
proof -
  from assms obtain j where j: "bit w j" using bit_word_eqI [of w 0] by auto
  note first = takeWhile_upt_first [of j 64 "\<lambda>k. \<not> bit w k", OF bit_u64_bound [OF j]]
  show "bit w (ctz64 w)" using first(2) j by (simp add: ctz64_def)
  show "\<not> bit w k" if "k < ctz64 w"
    using first(3) j that by (simp add: ctz64_def)
qed

lemma popcount64_card: "popcount64 w = card {k. bit w k}"
proof -
  have "{k. bit w k} = set (filter (bit w) [0..<64])"
    using bit_u64_bound [of w] by auto
  moreover have "card (set (filter (bit w) [0..<64])) = length (filter (bit w) [0..<64])"
    by (rule distinct_card) simp
  ultimately show ?thesis by (simp only: popcount64_def)
qed

interpretation word_bits: bit_counting ctz64 popcount64
  by unfold_locales (simp_all add: ctz64_lowest popcount64_card)


text \<open>
  C39: A range-based \<open>for\<close> loop over the set visits exactly its elements, each once and in
  increasing order, and stops, provided the trailing-zero counter is right on non-zero pieces.
\<close>

theorem iteration_visits_elements:
  assumes "\<And>w. w \<noteq> 0 \<Longrightarrow> bit w (ctz w)" and "\<And>w k. w \<noteq> 0 \<Longrightarrow> k < ctz w \<Longrightarrow> \<not> bit w k"
    and "set_ok mx st"
  shows "\<exists>xs. iterate (mx + 2) ctz mx st (iter_begin ctz mx st) = Some xs \<and>
    sorted_wrt (<) xs \<and> set xs = elems mx st"
proof -
  have "bit_counting ctz popcount64"
    by unfold_locales (use assms(1,2) popcount64_card in auto)
  from bit_counting.iterate_begin [OF this assms(3) order_refl] show ?thesis .
qed

theorem iteration_visits_elements_witness:
  "\<exists>xs. iterate 72 ctz64 70 (All 70) (iter_begin ctz64 70 (All 70)) = Some xs \<and> set xs = {..70}"
proof -
  have "set_ok 70 (All 70)" and all: "elems 70 (All 70) = {..70}"
    using set_ok_elems_All [of 70] by simp_all
  from iteration_visits_elements [OF ctz64_lowest this(1)] all show ?thesis by auto
qed

text \<open>
  \<open>count\<close> is the number of elements, without overflow of the 64-bit sum, for every
  enumeration the static assertion admits (fewer than 1024 values above 0), provided the bit
  counter counts the set bits of a piece.
\<close>

theorem count_is_cardinality:
  assumes "\<And>w. popcount w = card {k. bit w k}" and "set_ok mx st" and "mx < 1024"
  shows "unat (count popcount st) = card (elems mx st)"
proof -
  have "bit_counting ctz64 popcount"
    by unfold_locales (use assms(1) ctz64_lowest in auto)
  from bit_counting.count_card [OF this assms(2,3)] show ?thesis .
qed

theorem count_is_cardinality_witness: "unat (count popcount64 (All 70)) = 71"
  using count_is_cardinality [OF popcount64_card, of 70 "All 70"] set_ok_elems_All [of 70] by simp

section \<open>ManagedPtr\<close>

text \<open>
  A pointer to an object and to the owner that reclaims it. The destructor's calls of the reclaim
  function are listed as owner and object.
\<close>

record ManagedPtr =
  ptr_f :: "nat option"
  owner_f :: "nat option"

abbreviation (input) ManagedPtr_default :: ManagedPtr where
  "ManagedPtr_default \<equiv> \<lparr>ptr_f = None, owner_f = None\<rparr>"

abbreviation (input) ManagedPtr_new :: "nat option \<Rightarrow> nat option \<Rightarrow> ManagedPtr" where
  "ManagedPtr_new p o' \<equiv> \<lparr>ptr_f = p, owner_f = o'\<rparr>"

definition ManagedPtr_destroy :: "ManagedPtr \<Rightarrow> (nat \<times> nat) list" where
  "ManagedPtr_destroy x = (case (ptr_f x, owner_f x) of (Some p, Some o') \<Rightarrow> [(o', p)] | _ \<Rightarrow> [])"

text \<open>Both moves return the new object and what is left in the source.\<close>

definition ManagedPtr_move :: "ManagedPtr \<Rightarrow> ManagedPtr \<times> ManagedPtr" where
  "ManagedPtr_move other =
     (\<lparr>ptr_f = ptr_f other, owner_f = owner_f other\<rparr>, other\<lparr>ptr_f := None, owner_f := None\<rparr>)"

definition ManagedPtr_move_assign :: "ManagedPtr \<Rightarrow> ManagedPtr \<Rightarrow> ManagedPtr \<times> ManagedPtr" where
  "ManagedPtr_move_assign this other =
     (this\<lparr>ptr_f := ptr_f other, owner_f := owner_f other\<rparr>, other\<lparr>ptr_f := None, owner_f := None\<rparr>)"

abbreviation (input) ManagedPtr_get :: "ManagedPtr \<Rightarrow> nat option" where
  "ManagedPtr_get x \<equiv> ptr_f x"

abbreviation (input) ManagedPtr_owner :: "ManagedPtr \<Rightarrow> nat option" where
  "ManagedPtr_owner x \<equiv> owner_f x"

lemma ManagedPtr_move_reclaims_once:
  "ManagedPtr_move x = (y, z) \<Longrightarrow>
     ManagedPtr_destroy y = ManagedPtr_destroy x \<and> ManagedPtr_destroy z = []"
  by (auto simp: ManagedPtr_move_def ManagedPtr_destroy_def split: option.split)

text \<open>
  Move assignment overwrites the target without reclaiming what it held: after the two
  destructors have run, the target's old object has been reclaimed by neither.
\<close>

lemma ManagedPtr_move_assign_leaks:
  "ManagedPtr_move_assign x y = (x', y') \<Longrightarrow>
     ManagedPtr_destroy x' @ ManagedPtr_destroy y' = ManagedPtr_destroy y"
  by (auto simp: ManagedPtr_move_assign_def ManagedPtr_destroy_def split: option.split)

end
