(* ===== verification/Comparators.thy ===== *)
theory Comparators
  imports Slices
begin

text \<open>
  The comparator interface of \<open>libs/rocksdb/comparator.h\<close>. The virtual members a subclass has to
  supply are the parameters of the definitions; the default members are translated. The locale
  \<open>comparator_order\<close> is the contract of \<open>CompareInterface::Compare\<close>: a total order on keys, up to
  keys the comparator regards as equal. The bytewise order of slices is an instance.
\<close>

section \<open>Default members\<close>

record Comparator =
  timestamp_size_f :: size_t

definition Comparator_new :: "size_t \<Rightarrow> Comparator" where
  "Comparator_new ts_sz = \<lparr>timestamp_size_f = ts_sz\<rparr>"

abbreviation (input) Comparator_copy :: "Comparator \<Rightarrow> Comparator" where
  "Comparator_copy orig \<equiv> \<lparr>timestamp_size_f = timestamp_size_f orig\<rparr>"

definition Comparator_assign :: "bool \<Rightarrow> Comparator \<Rightarrow> Comparator \<Rightarrow> Comparator" where
  "Comparator_assign same this rhs =
     (if same then this else this\<lparr>timestamp_size_f := timestamp_size_f rhs\<rparr>)"

abbreviation (input) timestamp_size :: "Comparator \<Rightarrow> size_t" where
  "timestamp_size c \<equiv> timestamp_size_f c"

definition Equal :: "('k \<Rightarrow> 'k \<Rightarrow> int) \<Rightarrow> 'k \<Rightarrow> 'k \<Rightarrow> bool" where
  "Equal cmp a b \<longleftrightarrow> cmp a b = 0"

definition IsSameLengthImmediateSuccessor :: "'k \<Rightarrow> 'k \<Rightarrow> bool" where
  "IsSameLengthImmediateSuccessor s t = False"

definition CanKeysWithDifferentByteContentsBeEqual :: bool where
  "CanKeysWithDifferentByteContentsBeEqual = True"

text \<open>The two timestamp bounds: an assertion failure unless the comparator has no timestamps.\<close>

definition GetMaxTimestamp :: "Comparator \<Rightarrow> Slice option" where
  "GetMaxTimestamp c = (if timestamp_size_f c = 0 then Some Slice_default else None)"

definition GetMinTimestamp :: "Comparator \<Rightarrow> Slice option" where
  "GetMinTimestamp c = (if timestamp_size_f c = 0 then Some Slice_default else None)"

definition TimestampToString :: "'k \<Rightarrow> string" where
  "TimestampToString ts = ''''"

definition CompareTimestamp :: "'k \<Rightarrow> 'k \<Rightarrow> int" where
  "CompareTimestamp ts1 ts2 = 0"

definition CompareWithoutTimestamp_flags :: "('k \<Rightarrow> 'k \<Rightarrow> int) \<Rightarrow> 'k \<Rightarrow> bool \<Rightarrow> 'k \<Rightarrow> bool \<Rightarrow> int" where
  "CompareWithoutTimestamp_flags cmp a a_has_ts b b_has_ts = cmp a b"

text \<open>The two-argument form calls the virtual four-argument member \<open>cwt\<close>.\<close>

definition CompareWithoutTimestamp :: "('k \<Rightarrow> bool \<Rightarrow> 'k \<Rightarrow> bool \<Rightarrow> int) \<Rightarrow> 'k \<Rightarrow> 'k \<Rightarrow> int" where
  "CompareWithoutTimestamp cwt a b = cwt a True b True"

definition EqualWithoutTimestamp :: "('k \<Rightarrow> bool \<Rightarrow> 'k \<Rightarrow> bool \<Rightarrow> int) \<Rightarrow> 'k \<Rightarrow> 'k \<Rightarrow> bool" where
  "EqualWithoutTimestamp cwt a b \<longleftrightarrow> 0 = cwt a True b True"

section \<open>The order contract\<close>

locale comparator_order =
  fixes cmp :: "'k \<Rightarrow> 'k \<Rightarrow> int"
  assumes cmp_antisym: "cmp a b < 0 \<longleftrightarrow> 0 < cmp b a"
    and cmp_trans: "cmp a b \<le> 0 \<Longrightarrow> cmp b c \<le> 0 \<Longrightarrow> cmp a c \<le> 0"
begin

lemma cmp_refl [simp]: "cmp a a = 0"
  using cmp_antisym [of a a] by auto

lemma ge_iff: "0 \<le> cmp a b \<longleftrightarrow> \<not> cmp a b < 0"
  by auto

lemma le_iff: "cmp a b \<le> 0 \<longleftrightarrow> \<not> cmp b a < 0"
  using cmp_antisym [of b a] by auto

lemma gt_iff: "0 < cmp a b \<longleftrightarrow> cmp b a < 0"
  using cmp_antisym [of b a] by auto

lemma not_less_trans: "\<not> cmp b a < 0 \<Longrightarrow> \<not> cmp c b < 0 \<Longrightarrow> \<not> cmp c a < 0"
  using cmp_trans [of a b c] by (simp add: le_iff)

lemma less_asym: "cmp a b < 0 \<Longrightarrow> \<not> cmp b a < 0"
  using cmp_antisym [of a b] by auto

lemma less_le_trans: "cmp a b < 0 \<Longrightarrow> \<not> cmp c b < 0 \<Longrightarrow> cmp a c < 0"
  using not_less_trans [of c b a] by blast

lemma le_less_trans: "\<not> cmp b a < 0 \<Longrightarrow> cmp b c < 0 \<Longrightarrow> cmp a c < 0"
  using not_less_trans [of a c b] by blast

lemma less_trans: "cmp a b < 0 \<Longrightarrow> cmp b c < 0 \<Longrightarrow> cmp a c < 0"
  using less_le_trans less_asym by blast

lemma Equal_equivalence:
  "Equal cmp a a" "Equal cmp a b \<Longrightarrow> Equal cmp b a"
  "Equal cmp a b \<Longrightarrow> Equal cmp b c \<Longrightarrow> Equal cmp a c"
  using cmp_antisym [of a b] cmp_antisym [of b a] cmp_antisym [of c a] cmp_antisym [of b c]
    cmp_antisym [of c b] cmp_antisym [of a c] cmp_trans [of a b c] cmp_trans [of c b a]
  by (auto simp: Equal_def)

lemma Equal_congruent:
  assumes "Equal cmp a b"
  shows "cmp a c < 0 \<longleftrightarrow> cmp b c < 0" and "cmp c a < 0 \<longleftrightarrow> cmp c b < 0"
proof -
  have "\<not> cmp a b < 0" "\<not> cmp b a < 0"
    using assms cmp_antisym [of a b] cmp_antisym [of b a] by (auto simp: Equal_def)
  then show "cmp a c < 0 \<longleftrightarrow> cmp b c < 0" and "cmp c a < 0 \<longleftrightarrow> cmp c b < 0"
    using less_le_trans le_less_trans by blast+
qed

end

text \<open>The bytewise comparison of the contents of slices satisfies the contract.\<close>

lemma bytes_compare_trans:
  "bytes_compare a b \<le> 0 \<Longrightarrow> bytes_compare b c \<le> 0 \<Longrightarrow> bytes_compare a c \<le> 0"
  using lex_less_trans [of c b a] lex_less_total [of a b] lex_less_total [of b c] lex_less_trans [of a b c]
  by (auto simp: not_less [symmetric] bytes_compare_greater simp del: not_less) (use lex_less_asym in blast)

interpretation bytewise: comparator_order bytes_compare
proof
  show "bytes_compare a b < 0 \<longleftrightarrow> 0 < bytes_compare b a" for a b
    using bytes_compare_antisym [of b a] by linarith
qed (rule bytes_compare_trans)

interpretation u64_order: comparator_order "\<lambda>a b :: nat. int a - int b"
  by unfold_locales auto

end
