(* ===== verification/Interval_Sets.thy ===== *)
theory Interval_Sets
  imports Comparators
begin

text \<open>
  \<open>Interval\<close> and \<open>IntervalSet\<close> of \<open>libs/rocksdb/data_structure.h\<close>, the specialisation for slices
  ordered by a comparator (the member \<open>comparator_\<close> is the parameter \<open>cmp\<close>) and the generic version.
  An interval without an end reaches to infinity. Positions in the vector are list indices.
\<close>

section \<open>Intervals\<close>

record 'k Interval =
  start_f :: 'k
  end_f :: "'k option"

definition Interval_range :: "'k \<Rightarrow> 'k \<Rightarrow> 'k Interval" where
  "Interval_range s e = \<lparr>start_f = s, end_f = Some e\<rparr>"

definition Interval_from :: "'k \<Rightarrow> 'k Interval" where
  "Interval_from s = \<lparr>start_f = s, end_f = None\<rparr>"

definition Interval_of_pair :: "'k \<times> 'k \<Rightarrow> 'k Interval" where
  "Interval_of_pair p = \<lparr>start_f = fst p, end_f = Some (snd p)\<rparr>"

definition has_end :: "'k Interval \<Rightarrow> bool" where
  "has_end i \<longleftrightarrow> end_f i \<noteq> None"

text \<open>\<open>end ()\<close> reads the variant as a key; it throws for an infinite interval.\<close>

definition interval_end :: "'k Interval \<Rightarrow> 'k option" where
  "interval_end i = end_f i"

definition Interval_eq_pair :: "('k \<Rightarrow> 'k \<Rightarrow> bool) \<Rightarrow> 'k Interval \<Rightarrow> 'k \<times> 'k \<Rightarrow> bool" where
  "Interval_eq_pair eq i p \<longleftrightarrow>
     eq (start_f i) (fst p) \<and> (case end_f i of None \<Rightarrow> False | Some e \<Rightarrow> eq e (snd p))"

definition Interval_eq :: "('k \<Rightarrow> 'k \<Rightarrow> int) \<Rightarrow> 'k Interval \<Rightarrow> 'k Interval \<Rightarrow> bool" where
  "Interval_eq cmp i other =
     (if cmp (start_f i) (start_f other) \<noteq> 0 then False
      else case (end_f i, end_f other) of
             (None, None) \<Rightarrow> True
           | (Some e, Some e') \<Rightarrow> cmp e e' = 0
           | _ \<Rightarrow> False)"

definition Interval_less :: "('k \<Rightarrow> 'k \<Rightarrow> int) \<Rightarrow> 'k Interval \<Rightarrow> 'k Interval \<Rightarrow> bool" where
  "Interval_less cmp i other \<longleftrightarrow> cmp (start_f i) (start_f other) < 0"

section \<open>The interval set of slices\<close>

record 'k IntervalSet =
  intervals_f :: "'k Interval list"
  prop_f :: bool

definition IntervalSet_new :: "bool \<Rightarrow> 'k IntervalSet" where
  "IntervalSet_new fail_on_intersect = \<lparr>intervals_f = [], prop_f = fail_on_intersect\<rparr>"

abbreviation (input) ivs_empty :: "'k IntervalSet \<Rightarrow> bool" where
  "ivs_empty s \<equiv> intervals_f s = []"

abbreviation (input) ivs_clear :: "'k IntervalSet \<Rightarrow> 'k IntervalSet" where
  "ivs_clear s \<equiv> s\<lparr>intervals_f := []\<rparr>"

abbreviation (input) ivs_size :: "'k IntervalSet \<Rightarrow> nat" where
  "ivs_size s \<equiv> length (intervals_f s)"

fun findPosition :: "('k \<Rightarrow> 'k \<Rightarrow> int) \<Rightarrow> 'k Interval list \<Rightarrow> 'k Interval \<Rightarrow> nat" where
  "findPosition cmp [] interval = 0"
| "findPosition cmp (it # its) interval =
     (if 0 \<le> cmp (start_f it) (start_f interval) then 0 else Suc (findPosition cmp its interval))"

definition insert_at :: "nat \<Rightarrow> 'a \<Rightarrow> 'a list \<Rightarrow> 'a list" where
  "insert_at pos x xs = take pos xs @ x # drop pos xs"

text \<open>
  The loop of the infinite case, over the intervals from the merge position on; \<open>None\<close> when it
  returns early because intersections are to fail.
\<close>

fun inf_scan :: "('k \<Rightarrow> 'k \<Rightarrow> int) \<Rightarrow> bool \<Rightarrow> 'k Interval list \<Rightarrow> 'k \<Rightarrow> 'k option" where
  "inf_scan cmp prop [] new_start = Some new_start"
| "inf_scan cmp prop (it # its) new_start =
     (if cmp (start_f it) new_start < 0
      then (if prop then None else inf_scan cmp prop its (start_f it))
      else inf_scan cmp prop its new_start)"

text \<open>
  The merge loop of the finite case. It returns the merged start and end, whether an infinite
  interval was met, how many intervals from the merge position on are to be erased, and the
  intervals the iterator has not passed.
\<close>

fun merge_scan :: "('k \<Rightarrow> 'k \<Rightarrow> int) \<Rightarrow> 'k Interval list \<Rightarrow> 'k \<Rightarrow> 'k \<Rightarrow> nat
    \<Rightarrow> 'k \<times> 'k \<times> bool \<times> nat \<times> 'k Interval list" where
  "merge_scan cmp [] new_start new_end erase = (new_start, new_end, False, erase, [])"
| "merge_scan cmp (it # its) new_start new_end erase =
     (if 0 \<le> cmp new_end (start_f it)
      then (if (case end_f it of None \<Rightarrow> False | Some e \<Rightarrow> cmp e new_start < 0)
            then merge_scan cmp its new_start new_end (erase + 1)
            else let new_start' = (if cmp (start_f it) new_start < 0 then start_f it else new_start)
                 in case end_f it of
                      Some e \<Rightarrow>
                        merge_scan cmp its new_start' (if cmp new_end e < 0 then e else new_end) (erase + 1)
                    | None \<Rightarrow>
                        (new_start', new_end, True, erase + length (it # its), it # its))
      else (new_start, new_end, False, erase, it # its))"

text \<open>The whole insertion: the returned flag and the new set.\<close>

definition insertImpl :: "('k \<Rightarrow> 'k \<Rightarrow> int) \<Rightarrow> 'k Interval \<Rightarrow> 'k IntervalSet \<Rightarrow> bool \<times> 'k IntervalSet" where
  "insertImpl cmp i s =
     (if (case end_f i of None \<Rightarrow> False | Some e \<Rightarrow> 0 \<le> cmp (start_f i) e) then (False, s)
      else
        let ivs = intervals_f s;
            it0 = findPosition cmp ivs i;
            overlap = (it0 \<noteq> 0 \<and>
              (case end_f (ivs ! (it0 - 1)) of None \<Rightarrow> True | Some e \<Rightarrow> \<not> cmp e (start_f i) < 0))
        in if overlap \<and> prop_f s then (False, s)
           else
             let it = (if overlap then it0 - 1 else it0)
             in case end_f i of
                  None \<Rightarrow>
                    (case inf_scan cmp (prop_f s) (drop it ivs) (start_f i) of
                       None \<Rightarrow> (False, s)
                     | Some new_start \<Rightarrow>
                         if drop it ivs \<noteq> [] \<and> prop_f s then (False, s)
                         else let rest = take it ivs;
                                  new_interval = Interval_from new_start;
                                  pos = findPosition cmp rest new_interval
                              in (True, s\<lparr>intervals_f := insert_at pos new_interval rest\<rparr>))
                | Some e \<Rightarrow>
                    (case merge_scan cmp (drop it ivs) (start_f i) e 0 of
                       (new_start, new_end, inf0, erase0, unseen) \<Rightarrow>
                         let later_inf = list_ex (\<lambda>x. end_f x = None) unseen;
                             inf_end = (inf0 \<or> later_inf);
                             erase = (if later_inf then length (drop it ivs) else erase0);
                             rest = take it ivs @ drop (it + erase) ivs;
                             new_interval =
                               (if inf_end then Interval_from new_start
                                else Interval_range new_start new_end);
                             pos = findPosition cmp rest new_interval
                         in (True, s\<lparr>intervals_f := insert_at pos new_interval rest\<rparr>)))"

definition insert_range :: "('k \<Rightarrow> 'k \<Rightarrow> int) \<Rightarrow> 'k \<Rightarrow> 'k \<Rightarrow> 'k IntervalSet \<Rightarrow> bool \<times> 'k IntervalSet" where
  "insert_range cmp st en s = insertImpl cmp (Interval_range st en) s"

definition insert_from :: "('k \<Rightarrow> 'k \<Rightarrow> int) \<Rightarrow> 'k \<Rightarrow> 'k IntervalSet \<Rightarrow> bool \<times> 'k IntervalSet" where
  "insert_from cmp st s = insertImpl cmp (Interval_from st) s"

section \<open>The generic interval set\<close>

text \<open>
  The class template orders the keys by \<open>lt\<close> (the default \<open>std::less\<close>) and keeps the intervals in a
  \<open>std::set\<close> ordered by their start, here the list of its elements in that order. The default
  comparator of variants falls back to \<open>lt\<close> on two keys; the insertion only compares keys.
\<close>

definition CompareVariant :: "('k \<Rightarrow> 'k \<Rightarrow> bool) \<Rightarrow> 'k option \<Rightarrow> 'k option \<Rightarrow> bool" where
  "CompareVariant lt a b =
     (case (a, b) of
        (Some x, Some y) \<Rightarrow> lt x y
      | (None, None) \<Rightarrow> False
      | (Some x, None) \<Rightarrow> False
      | (None, Some y) \<Rightarrow> True)"

definition g_Interval_eq :: "'k Interval \<Rightarrow> 'k Interval \<Rightarrow> bool" where
  "g_Interval_eq i other =
     (if start_f i \<noteq> start_f other then False
      else if \<not> has_end i \<and> \<not> has_end other then True
      else if has_end i \<noteq> has_end other then False
      else interval_end i = interval_end other)"

definition CompareInterval :: "('k \<Rightarrow> 'k \<Rightarrow> bool) \<Rightarrow> 'k Interval \<Rightarrow> 'k Interval \<Rightarrow> bool" where
  "CompareInterval lt a b \<longleftrightarrow> lt (start_f a) (start_f b)"

text \<open>\<open>std::set::insert\<close>: in order, and without effect when an equivalent element is present.\<close>

fun set_insert :: "('k \<Rightarrow> 'k \<Rightarrow> bool) \<Rightarrow> 'k Interval \<Rightarrow> 'k Interval list \<Rightarrow> 'k Interval list" where
  "set_insert lt n [] = [n]"
| "set_insert lt n (x # xs) =
     (if CompareInterval lt n x then n # x # xs
      else if CompareInterval lt x n then x # set_insert lt n xs
      else x # xs)"

fun g_position :: "('k \<Rightarrow> 'k \<Rightarrow> bool) \<Rightarrow> 'k Interval list \<Rightarrow> 'k \<Rightarrow> nat" where
  "g_position lt [] st = 0"
| "g_position lt (it # its) st = (if lt (start_f it) st then Suc (g_position lt its st) else 0)"

text \<open>The merge loop; its fourth result is the intervals it stepped over without erasing them.\<close>

fun g_merge :: "('k \<Rightarrow> 'k \<Rightarrow> bool) \<Rightarrow> 'k Interval list \<Rightarrow> 'k \<Rightarrow> 'k
    \<Rightarrow> 'k \<times> 'k \<times> bool \<times> 'k Interval list \<times> 'k Interval list" where
  "g_merge lt [] new_start new_end = (new_start, new_end, False, [], [])"
| "g_merge lt (it # its) new_start new_end =
     (if \<not> lt new_end (start_f it)
      then (if (case end_f it of None \<Rightarrow> False | Some e \<Rightarrow> lt e new_start)
            then (case g_merge lt its new_start new_end of
                    (s, e, inf_end, kept, unseen) \<Rightarrow> (s, e, inf_end, it # kept, unseen))
            else let new_start' = (if lt (start_f it) new_start then start_f it else new_start)
                 in case end_f it of
                      Some e \<Rightarrow> g_merge lt its new_start' (if lt new_end e then e else new_end)
                    | None \<Rightarrow> (new_start', new_end, True, [], it # its))
      else (new_start, new_end, False, [], it # its))"

definition g_insertImpl :: "('k \<Rightarrow> 'k \<Rightarrow> bool) \<Rightarrow> 'k Interval \<Rightarrow> 'k Interval list \<Rightarrow> 'k Interval list" where
  "g_insertImpl lt i ivs =
     (if (case end_f i of None \<Rightarrow> False | Some e \<Rightarrow> \<not> lt (start_f i) e \<and> \<not> lt e (start_f i)) then ivs
      else if list_ex (\<lambda>it. end_f it = None \<and> \<not> lt (start_f i) (start_f it)) ivs then ivs
      else
        let it0 = g_position lt ivs (start_f i);
            it = (if it0 = 0 then it0
                  else case end_f (ivs ! (it0 - 1)) of
                         None \<Rightarrow> it0 - 1
                       | Some e \<Rightarrow> if lt e (start_f i) then it0 else it0 - 1)
        in case end_f i of
             None \<Rightarrow>
               let new_start = foldl (\<lambda>ns x. if lt (start_f x) ns then start_f x else ns)
                     (start_f i) (drop it ivs)
               in set_insert lt (Interval_from new_start) (take it ivs)
           | Some e \<Rightarrow>
               (case g_merge lt (drop it ivs) (start_f i) e of
                  (new_start, new_end, inf0, kept, unseen) \<Rightarrow>
                    let inf_end = (inf0 \<or> list_ex (\<lambda>x. end_f x = None) unseen);
                        rest = take it ivs @ kept @ filter has_end unseen
                    in set_insert lt
                         (if inf_end then Interval_from new_start else Interval_range new_start new_end)
                         rest))"

section \<open>Meaning and invariant\<close>

text \<open>The keys of an interval: from its start on, below its end.\<close>

definition iv_keys :: "('k \<Rightarrow> 'k \<Rightarrow> int) \<Rightarrow> 'k Interval \<Rightarrow> 'k set" where
  "iv_keys cmp i =
     {k. \<not> cmp k (start_f i) < 0 \<and> (case end_f i of None \<Rightarrow> True | Some e \<Rightarrow> cmp k e < 0)}"

definition ivs_keys :: "('k \<Rightarrow> 'k \<Rightarrow> int) \<Rightarrow> 'k Interval list \<Rightarrow> 'k set" where
  "ivs_keys cmp ivs = (\<Union>i \<in> set ivs. iv_keys cmp i)"

definition iv_nonempty :: "('k \<Rightarrow> 'k \<Rightarrow> int) \<Rightarrow> 'k Interval \<Rightarrow> bool" where
  "iv_nonempty cmp i \<longleftrightarrow> (case end_f i of None \<Rightarrow> True | Some e \<Rightarrow> cmp (start_f i) e < 0)"

definition iv_before :: "('k \<Rightarrow> 'k \<Rightarrow> int) \<Rightarrow> 'k Interval \<Rightarrow> 'k Interval \<Rightarrow> bool" where
  "iv_before cmp i j \<longleftrightarrow> (case end_f i of None \<Rightarrow> False | Some e \<Rightarrow> cmp e (start_f j) < 0)"

text \<open>Non-empty intervals in increasing order with gaps between them; only the last may be infinite.\<close>

definition ivs_ok :: "('k \<Rightarrow> 'k \<Rightarrow> int) \<Rightarrow> 'k Interval list \<Rightarrow> bool" where
  "ivs_ok cmp ivs \<longleftrightarrow> (\<forall>i \<in> set ivs. iv_nonempty cmp i) \<and> sorted_wrt (iv_before cmp) ivs"

lemma ivs_keys_simps [simp]:
  "ivs_keys cmp [] = {}" "ivs_keys cmp (i # ivs) = iv_keys cmp i \<union> ivs_keys cmp ivs"
  "ivs_keys cmp (xs @ ys) = ivs_keys cmp xs \<union> ivs_keys cmp ys"
  by (auto simp: ivs_keys_def)

lemma iv_keys_range: "iv_keys cmp (Interval_range s e) = {k. \<not> cmp k s < 0 \<and> cmp k e < 0}"
  and iv_keys_from: "iv_keys cmp (Interval_from s) = {k. \<not> cmp k s < 0}"
  by (simp_all add: iv_keys_def Interval_range_def Interval_from_def)

context comparator_order
begin

lemma before_less: "iv_nonempty cmp i \<Longrightarrow> iv_before cmp i j \<Longrightarrow> cmp (start_f i) (start_f j) < 0"
  by (auto simp: iv_nonempty_def iv_before_def intro: less_trans split: option.splits)

lemma findPosition_split:
  assumes "\<forall>a \<in> set as. cmp (start_f a) (start_f x) < 0"
    and "bs \<noteq> [] \<Longrightarrow> \<not> cmp (start_f (hd bs)) (start_f x) < 0"
  shows "findPosition cmp (as @ bs) x = length as"
  using assms(1)
proof (induction as)
  case Nil
  then show ?case using assms(2) by (cases bs) (auto simp: ge_iff)
qed (auto simp: ge_iff)

lemma findPosition_prefix:
  assumes "ivs_ok cmp ivs"
  shows "findPosition cmp ivs x \<le> length ivs
    \<and> (\<forall>a \<in> set (take (findPosition cmp ivs x) ivs). cmp (start_f a) (start_f x) < 0)
    \<and> (\<forall>b \<in> set (drop (findPosition cmp ivs x) ivs). \<not> cmp (start_f b) (start_f x) < 0)"
  using assms
proof (induction ivs)
  case Nil
  then show ?case by simp
next
  case (Cons i ivs)
  from Cons.prems have i: "iv_nonempty cmp i" "\<forall>j \<in> set ivs. iv_before cmp i j" "ivs_ok cmp ivs"
    by (auto simp: ivs_ok_def)
  show ?case
  proof (cases "cmp (start_f i) (start_f x) < 0")
    case True
    with Cons.IH [OF i(3)] show ?thesis by (simp add: ge_iff)
  next
    case False
    then have "\<not> cmp (start_f j) (start_f x) < 0" if "j \<in> set ivs" for j
      using before_less [OF i(1)] i(2) that less_trans by blast
    with False show ?thesis by (simp add: ge_iff)
  qed
qed

lemma range_Un_range:
  assumes "\<not> cmp ne s < 0" "\<not> cmp e ns < 0" "cmp ns ne < 0" "cmp s e < 0"
  shows "{k. \<not> cmp k ns < 0 \<and> cmp k ne < 0} \<union> {k. \<not> cmp k s < 0 \<and> cmp k e < 0} =
    {k. \<not> cmp k (if cmp s ns < 0 then s else ns) < 0 \<and> cmp k (if cmp ne e < 0 then e else ne) < 0}"
    (is "?L = ?R")
proof (rule set_eqI)
  fix k
  have "cmp k ns < 0 \<Longrightarrow> cmp k e < 0" "cmp k s < 0 \<Longrightarrow> cmp k ne < 0"
    using assms less_le_trans by blast+
  then show "k \<in> ?L \<longleftrightarrow> k \<in> ?R"
    using less_trans [of k s ns] less_trans [of k ne e] le_less_trans [of k s ns] less_le_trans [of k e ne]
    by (cases "cmp s ns < 0"; cases "cmp ne e < 0") auto
qed

lemma merged_bounds:
  assumes "cmp ns ne < 0" "cmp s e < 0"
  shows "cmp (if cmp s ns < 0 then s else ns) (if cmp ne e < 0 then e else ne) < 0"
    and "\<not> cmp ns (if cmp s ns < 0 then s else ns) < 0"
    and "\<not> cmp (if cmp ne e < 0 then e else ne) ne < 0"
  using assms less_trans [of ns ne e] less_trans [of s ns ne] less_asym [of s ns] less_asym [of ne e]
  by auto

lemma range_Un_from:
  assumes "\<not> cmp ne s < 0" "cmp ns ne < 0"
  shows "{k. \<not> cmp k ns < 0 \<and> cmp k ne < 0} \<union> {k. \<not> cmp k s < 0} =
    {k. \<not> cmp k (if cmp s ns < 0 then s else ns) < 0}" (is "?L = ?R")
proof (rule set_eqI)
  fix k
  have "cmp k s < 0 \<Longrightarrow> cmp k ne < 0" using assms less_le_trans by blast
  then show "k \<in> ?L \<longleftrightarrow> k \<in> ?R"
    using less_trans [of k s ns] le_less_trans [of k s ns] by auto
qed

lemma ends_mono:
  assumes "\<forall>y \<in> set xs. case end_f y of None \<Rightarrow> True | Some e \<Rightarrow> \<not> cmp e ns < 0" "\<not> cmp ns s < 0"
  shows "\<forall>y \<in> set xs. case end_f y of None \<Rightarrow> True | Some e \<Rightarrow> \<not> cmp e s < 0"
  using assms not_less_trans by (fastforce split: option.splits)

lemma ivs_ok_Cons:
  "ivs_ok cmp (i # ivs) \<longleftrightarrow>
     iv_nonempty cmp i \<and> (\<forall>j \<in> set ivs. iv_before cmp i j) \<and> ivs_ok cmp ivs"
  by (auto simp: ivs_ok_def)

lemma ivs_ok_append:
  "ivs_ok cmp (xs @ ys) \<longleftrightarrow>
     ivs_ok cmp xs \<and> ivs_ok cmp ys \<and> (\<forall>x \<in> set xs. \<forall>y \<in> set ys. iv_before cmp x y)"
  by (auto simp: ivs_ok_def sorted_wrt_append)

lemma infinite_is_last: "ivs_ok cmp (i # ivs) \<Longrightarrow> end_f i = None \<Longrightarrow> ivs = []"
  by (cases ivs) (auto simp: ivs_ok_Cons iv_before_def)

text \<open>
  The merge loop: over an ordered list of intervals none of which ends below the new start, it
  consumes a prefix, and the merged interval has exactly the keys of the new one and the prefix.
\<close>

lemma merge_scan_finite:
  assumes "merge_scan cmp xs ns ne k = (ns', ne', False, er, unseen)"
    and "ivs_ok cmp xs" "cmp ns ne < 0"
    and "\<forall>y \<in> set xs. case end_f y of None \<Rightarrow> True | Some e \<Rightarrow> \<not> cmp e ns < 0"
  shows "\<exists>ys. xs = ys @ unseen \<and> er = k + length ys \<and> (ns' = ns \<or> ns' \<in> start_f ` set ys)
    \<and> \<not> cmp ns ns' < 0 \<and> cmp ns' ne' < 0 \<and> \<not> cmp ne' ne < 0
    \<and> {q. \<not> cmp q ns' < 0 \<and> cmp q ne' < 0} = {q. \<not> cmp q ns < 0 \<and> cmp q ne < 0} \<union> ivs_keys cmp ys
    \<and> (\<forall>y \<in> set unseen. cmp ne' (start_f y) < 0) \<and> (\<forall>y \<in> set ys. end_f y \<noteq> None)"
  using assms
proof (induction xs arbitrary: ns ne k)
  case Nil
  then show ?case by simp
next
  case (Cons it its)
  note ok = Cons.prems(2) [unfolded ivs_ok_Cons]
  show ?case
  proof (cases "cmp ne (start_f it) < 0")
    case True
    then have "\<forall>y \<in> set (it # its). cmp ne (start_f y) < 0"
      using ok before_less less_trans by auto
    moreover have "ns' = ns" "ne' = ne" "er = k" "unseen = it # its"
      using Cons.prems(1) True by auto
    ultimately show ?thesis using Cons.prems(3) by (intro exI [of _ "[]"]) simp
  next
    case False
    obtain e where e: "end_f it = Some e"
      using Cons.prems(1) False by (cases "end_f it") (auto simp: Let_def)
    define s where "s = (if cmp (start_f it) ns < 0 then start_f it else ns)"
    define m where "m = (if cmp ne e < 0 then e else ne)"
    have ens: "\<not> cmp e ns < 0" and se: "cmp (start_f it) e < 0"
      using Cons.prems(4) e ok by (auto simp: iv_nonempty_def)
    have step: "merge_scan cmp its s m (k + 1) = (ns', ne', False, er, unseen)"
      using Cons.prems(1) False e ens by (simp add: s_def m_def Let_def ge_iff)
    have sm: "cmp s m < 0" "\<not> cmp ns s < 0" "\<not> cmp m ne < 0"
      unfolding s_def m_def by (rule merged_bounds [OF Cons.prems(3) se])+
    have "\<forall>y \<in> set its. case end_f y of None \<Rightarrow> True | Some e \<Rightarrow> \<not> cmp e s < 0"
      by (rule ends_mono [OF _ sm(2)]) (use Cons.prems(4) in simp)
    from Cons.IH [OF step _ sm(1) this] ok obtain ys where ys: "its = ys @ unseen" "er = k + 1 + length ys"
      "ns' = s \<or> ns' \<in> start_f ` set ys" "\<not> cmp s ns' < 0" "cmp ns' ne' < 0" "\<not> cmp ne' m < 0"
      "{q. \<not> cmp q ns' < 0 \<and> cmp q ne' < 0} = {q. \<not> cmp q s < 0 \<and> cmp q m < 0} \<union> ivs_keys cmp ys"
      "\<forall>y \<in> set unseen. cmp ne' (start_f y) < 0" "\<forall>y \<in> set ys. end_f y \<noteq> None"
      by auto
    have keys: "{q. \<not> cmp q s < 0 \<and> cmp q m < 0} =
        {q. \<not> cmp q ns < 0 \<and> cmp q ne < 0} \<union> iv_keys cmp it"
      using range_Un_range [OF False ens Cons.prems(3) se] e
      by (simp add: s_def m_def iv_keys_def)
    have "\<not> cmp ns ns' < 0" "\<not> cmp ne' ne < 0"
      using ys(4,6) sm not_less_trans by blast+
    then show ?thesis
      using ys keys e by (intro exI [of _ "it # ys"]) (auto simp: s_def)
  qed
qed

lemma merge_scan_infinite:
  assumes "merge_scan cmp xs ns ne k = (ns', ne', True, er, unseen)"
    and "ivs_ok cmp xs" "cmp ns ne < 0"
    and "\<forall>y \<in> set xs. case end_f y of None \<Rightarrow> True | Some e \<Rightarrow> \<not> cmp e ns < 0"
  shows "er = k + length xs \<and> (ns' = ns \<or> ns' \<in> start_f ` set xs) \<and> \<not> cmp ns ns' < 0
    \<and> {q. \<not> cmp q ns' < 0} = {q. \<not> cmp q ns < 0 \<and> cmp q ne < 0} \<union> ivs_keys cmp xs
    \<and> (\<exists>y \<in> set xs. end_f y = None)"
  using assms
proof (induction xs arbitrary: ns ne k)
  case Nil
  then show ?case by simp
next
  case (Cons it its)
  note ok = Cons.prems(2) [unfolded ivs_ok_Cons]
  have False: "\<not> cmp ne (start_f it) < 0" using Cons.prems(1) by (auto split: if_splits)
  define s where "s = (if cmp (start_f it) ns < 0 then start_f it else ns)"
  have s: "\<not> cmp ns s < 0" using less_asym [of "start_f it" ns] by (auto simp: s_def)
  show ?case
  proof (cases "end_f it")
    case None
    have "its = []" using infinite_is_last Cons.prems(2) None by blast
    moreover have "ns' = s" "er = k + length (it # its)"
      using Cons.prems(1) False None by (auto simp: Let_def s_def ge_iff)
    ultimately show ?thesis
      using range_Un_from [OF False Cons.prems(3)] None s by (auto simp: iv_keys_def s_def)
  next
    case (Some e)
    define m where "m = (if cmp ne e < 0 then e else ne)"
    have ens: "\<not> cmp e ns < 0" and se: "cmp (start_f it) e < 0"
      using Cons.prems(4) Some ok by (auto simp: iv_nonempty_def)
    have step: "merge_scan cmp its s m (k + 1) = (ns', ne', True, er, unseen)"
      using Cons.prems(1) False Some ens by (simp add: s_def m_def Let_def ge_iff)
    have sm: "cmp s m < 0"
      unfolding s_def m_def by (rule merged_bounds [OF Cons.prems(3) se])
    have "\<forall>y \<in> set its. case end_f y of None \<Rightarrow> True | Some e \<Rightarrow> \<not> cmp e s < 0"
      by (rule ends_mono [OF _ s]) (use Cons.prems(4) in simp)
    from Cons.IH [OF step _ sm this] ok have IH: "er = k + 1 + length its"
      "ns' = s \<or> ns' \<in> start_f ` set its" "\<not> cmp s ns' < 0" "\<exists>y \<in> set its. end_f y = None"
      "{q. \<not> cmp q ns' < 0} = {q. \<not> cmp q s < 0 \<and> cmp q m < 0} \<union> ivs_keys cmp its"
      by auto
    have keys: "{q. \<not> cmp q s < 0 \<and> cmp q m < 0} =
        {q. \<not> cmp q ns < 0 \<and> cmp q ne < 0} \<union> iv_keys cmp it"
      using range_Un_range [OF False ens Cons.prems(3) se] Some
      by (simp add: s_def m_def iv_keys_def)
    have "\<not> cmp ns ns' < 0" using IH(3) s not_less_trans by blast
    then show ?thesis using IH keys by (auto simp: s_def)
  qed
qed

text \<open>The new interval lands between what precedes it and what follows it.\<close>

lemma insert_between:
  assumes "ivs_ok cmp (pre @ n # post)"
  shows "insert_at (findPosition cmp (pre @ post) n) n (pre @ post) = pre @ n # post"
proof -
  have "cmp (start_f a) (start_f n) < 0" if "a \<in> set pre" for a
    using assms that before_less by (auto simp: ivs_ok_def sorted_wrt_append)
  moreover have "\<not> cmp (start_f (hd post)) (start_f n) < 0" if "post \<noteq> []"
    using assms that before_less less_asym by (auto simp: ivs_ok_append ivs_ok_Cons)
  ultimately have "findPosition cmp (pre @ post) n = length pre"
    by (intro findPosition_split) auto
  then show ?thesis by (simp add: insert_at_def)
qed

text \<open>
  The merge position: everything before it ends below the new start, nothing from it on does, and
  the previous interval is included exactly when some interval reaches over the new start.
\<close>

lemma merge_position:
  assumes "ivs_ok cmp ivs"
    and it0: "it0 = findPosition cmp ivs i"
    and overlap: "overlap = (it0 \<noteq> 0 \<and>
      (case end_f (ivs ! (it0 - 1)) of None \<Rightarrow> True | Some e \<Rightarrow> \<not> cmp e (start_f i) < 0))"
    and it: "it = (if overlap then it0 - 1 else it0)"
  shows "\<forall>x \<in> set (take it ivs). iv_before cmp x i"
    and "\<forall>y \<in> set (drop it ivs). case end_f y of None \<Rightarrow> True | Some e \<Rightarrow> \<not> cmp e (start_f i) < 0"
    and "overlap \<longleftrightarrow> (\<exists>x \<in> set ivs. cmp (start_f x) (start_f i) < 0 \<and> \<not> iv_before cmp x i)"
    and "\<not> overlap \<Longrightarrow> \<forall>y \<in> set (drop it ivs). \<not> cmp (start_f y) (start_f i) < 0"
proof -
  note P = findPosition_prefix [OF assms(1), of i, folded it0]
  have after: "\<not> iv_before cmp y i" if "y \<in> set (drop it0 ivs)" for y
    using P that assms(1) before_less [of y i] by (auto simp: ivs_ok_def dest: in_set_dropD)
  have ends: "(case end_f y of None \<Rightarrow> True | Some e \<Rightarrow> \<not> cmp e (start_f i) < 0) \<longleftrightarrow> \<not> iv_before cmp y i" for y
    by (simp add: iv_before_def split: option.splits)
  have "(\<forall>x \<in> set (take it ivs). iv_before cmp x i) \<and> (\<forall>y \<in> set (drop it ivs). \<not> iv_before cmp y i) \<and>
      (overlap \<longleftrightarrow> (\<exists>x \<in> set ivs. cmp (start_f x) (start_f i) < 0 \<and> \<not> iv_before cmp x i)) \<and>
      (\<not> overlap \<longrightarrow> it = it0)"
  proof (cases it0)
    case 0
    then show ?thesis using after P it overlap by auto
  next
    case (Suc n)
    define prev where "prev = ivs ! n"
    have n: "n < length ivs" using P Suc by simp
    have split: "take it0 ivs = take n ivs @ [prev]" "drop n ivs = prev # drop it0 ivs"
      using n Suc by (simp_all add: prev_def take_Suc_conv_app_nth Cons_nth_drop_Suc)
    have ivs: "ivs = take n ivs @ prev # drop it0 ivs" using split(2) append_take_drop_id [of n ivs] by simp
    have prev: "cmp (start_f prev) (start_f i) < 0" using P split by auto
    have "iv_before cmp x prev" if "x \<in> set (take n ivs)" for x
      using assms(1) that by (subst (asm) ivs) (auto simp: ivs_ok_append)
    then have early: "iv_before cmp x i" if "x \<in> set (take n ivs)" for x
      using that prev less_trans by (fastforce simp: iv_before_def split: option.splits)
    have ov: "overlap \<longleftrightarrow> \<not> iv_before cmp prev i"
      using overlap ends [of prev] Suc by (simp add: prev_def)
    have sets: "set ivs = insert prev (set (take n ivs) \<union> set (drop it0 ivs))"
      by (subst ivs) auto
    have late: "\<forall>y \<in> set (drop it0 ivs). \<not> cmp (start_f y) (start_f i) < 0" using P by blast
    have ex: "(\<exists>x \<in> set ivs. cmp (start_f x) (start_f i) < 0 \<and> \<not> iv_before cmp x i) \<longleftrightarrow> \<not> iv_before cmp prev i"
      unfolding sets using early late prev by blast
    show ?thesis
    proof (cases overlap)
      case True
      then have "it = n" using it Suc by simp
      with True show ?thesis using ex ov early after split(2) by simp
    next
      case False
      then have "it = it0" using it by simp
      with False show ?thesis using ex ov early after split(1) by simp
    qed
  qed
  note all = this [THEN conjunct1] this [THEN conjunct2, THEN conjunct1]
    this [THEN conjunct2, THEN conjunct2, THEN conjunct1] this [THEN conjunct2, THEN conjunct2, THEN conjunct2]
  show "\<forall>x \<in> set (take it ivs). iv_before cmp x i" by (rule all(1))
  show "\<forall>y \<in> set (drop it ivs). case end_f y of None \<Rightarrow> True | Some e \<Rightarrow> \<not> cmp e (start_f i) < 0"
    unfolding ends by (rule all(2))
  show "overlap \<longleftrightarrow> (\<exists>x \<in> set ivs. cmp (start_f x) (start_f i) < 0 \<and> \<not> iv_before cmp x i)" by (rule all(3))
  show "\<forall>y \<in> set (drop it ivs). \<not> cmp (start_f y) (start_f i) < 0" if "\<not> overlap"
    using P all(4) that by blast
qed

lemma insertImpl_split:
  assumes "ivs_ok cmp (intervals_f s)" "iv_nonempty cmp i"
  obtains pre suf overlap where
    "intervals_f s = pre @ suf" "\<forall>x \<in> set pre. iv_before cmp x i"
    "\<forall>y \<in> set suf. case end_f y of None \<Rightarrow> True | Some e \<Rightarrow> \<not> cmp e (start_f i) < 0"
    "overlap \<longleftrightarrow> (\<exists>x \<in> set (intervals_f s). cmp (start_f x) (start_f i) < 0 \<and> \<not> iv_before cmp x i)"
    "\<not> overlap \<Longrightarrow> \<forall>y \<in> set suf. \<not> cmp (start_f y) (start_f i) < 0"
    "insertImpl cmp i s = (if overlap \<and> prop_f s then (False, s) else
       case end_f i of
         None \<Rightarrow> (case inf_scan cmp (prop_f s) suf (start_f i) of
           None \<Rightarrow> (False, s)
         | Some ns \<Rightarrow> if suf \<noteq> [] \<and> prop_f s then (False, s) else
             (True, s\<lparr>intervals_f :=
               insert_at (findPosition cmp pre (Interval_from ns)) (Interval_from ns) pre\<rparr>))
       | Some e \<Rightarrow> (case merge_scan cmp suf (start_f i) e 0 of (ns, ne, inf0, erase0, unseen) \<Rightarrow>
           let later_inf = list_ex (\<lambda>x. end_f x = None) unseen;
               rest = pre @ drop (if later_inf then length suf else erase0) suf;
               n = (if inf0 \<or> later_inf then Interval_from ns else Interval_range ns ne)
           in (True, s\<lparr>intervals_f := insert_at (findPosition cmp rest n) n rest\<rparr>)))"
    "length pre = (let it0 = findPosition cmp (intervals_f s) i in
       if it0 = 0 then it0
       else case end_f (intervals_f s ! (it0 - 1)) of
              None \<Rightarrow> it0 - 1
            | Some e \<Rightarrow> if cmp e (start_f i) < 0 then it0 else it0 - 1)"
proof -
  define ivs where "ivs = intervals_f s"
  define it0 where "it0 = findPosition cmp ivs i"
  define overlap where "overlap = (it0 \<noteq> 0 \<and>
      (case end_f (ivs ! (it0 - 1)) of None \<Rightarrow> True | Some e \<Rightarrow> \<not> cmp e (start_f i) < 0))"
  define it where "it = (if overlap then it0 - 1 else it0)"
  have ok: "ivs_ok cmp ivs" using assms(1) by (simp add: ivs_def)
  note P = merge_position [OF ok it0_def overlap_def it_def]
  have ne: "\<not> (case end_f i of None \<Rightarrow> False | Some e \<Rightarrow> 0 \<le> cmp (start_f i) e)"
    using assms(2) by (auto simp: iv_nonempty_def ge_iff split: option.splits)
  have drops: "drop (it + k) ivs = drop k (drop it ivs)" for k by (simp add: add.commute)
  show thesis
  proof (rule that [of "take it ivs" "drop it ivs" overlap, OF _ P(1,2) P(3) [unfolded ivs_def]], goal_cases)
    case 1
    show ?case by (simp add: ivs_def)
  next
    case 2
    then show ?case by (rule P(4))
  next
    case 3
    note folds = ivs_def [symmetric] it0_def [symmetric] overlap_def [symmetric] it_def [symmetric]
    show ?case
      unfolding insertImpl_def if_not_P [OF ne] Let_def folds drops by (rule refl)
  next
    case 4
    have "it0 \<le> length ivs" using findPosition_prefix [OF ok, of i] by (simp add: it0_def)
    then show ?case
      by (auto simp: it_def overlap_def ivs_def [symmetric] it0_def [symmetric] split: option.splits)
  qed
qed

lemma from_Un_keys:
  assumes "\<forall>y \<in> set xs. case end_f y of None \<Rightarrow> True | Some e \<Rightarrow> \<not> cmp e ns < 0"
  shows "\<exists>ns'. inf_scan cmp False xs ns = Some ns' \<and> (ns' = ns \<or> ns' \<in> start_f ` set xs)
    \<and> \<not> cmp ns ns' < 0 \<and> {q. \<not> cmp q ns' < 0} = {q. \<not> cmp q ns < 0} \<union> ivs_keys cmp xs"
  using assms
proof (induction xs arbitrary: ns)
  case Nil
  then show ?case by simp
next
  case (Cons y ys)
  define s where "s = (if cmp (start_f y) ns < 0 then start_f y else ns)"
  have s: "\<not> cmp ns s < 0" using less_asym [of "start_f y" ns] by (simp add: s_def)
  have "\<forall>y \<in> set ys. case end_f y of None \<Rightarrow> True | Some e \<Rightarrow> \<not> cmp e s < 0"
    by (rule ends_mono [OF _ s]) (use Cons.prems in simp)
  from Cons.IH [OF this] obtain ns' where ns0: "inf_scan cmp False ys s = Some ns' \<and>
    (ns' = s \<or> ns' \<in> start_f ` set ys) \<and> \<not> cmp s ns' < 0 \<and>
    {q. \<not> cmp q ns' < 0} = {q. \<not> cmp q s < 0} \<union> ivs_keys cmp ys" ..
  note ns' = ns0 [THEN conjunct1] ns0 [THEN conjunct2, THEN conjunct1]
    ns0 [THEN conjunct2, THEN conjunct2, THEN conjunct1] ns0 [THEN conjunct2, THEN conjunct2, THEN conjunct2]
  have "k \<in> {q. \<not> cmp q s < 0} \<longleftrightarrow> k \<in> {q. \<not> cmp q ns < 0} \<union> iv_keys cmp y" for k
    using Cons.prems less_trans [of k "start_f y" ns] le_less_trans [of k "start_f y" ns]
      less_le_trans [of k ns "the (end_f y)"]
    by (cases "cmp (start_f y) ns < 0"; cases "end_f y"; cases "cmp k ns < 0") (auto simp: s_def iv_keys_def)
  then have "{q. \<not> cmp q s < 0} = {q. \<not> cmp q ns < 0} \<union> iv_keys cmp y" by blast
  moreover have "\<not> cmp ns ns' < 0" using ns'(3) s not_less_trans by blast
  moreover have "inf_scan cmp False (y # ys) ns = Some ns'"
    using ns'(1) by (cases "cmp (start_f y) ns < 0") (simp_all add: s_def)
  ultimately show ?case using ns' by (intro exI [of _ ns']) (auto simp: s_def)
qed

lemma before_start:
  "iv_before cmp x i \<Longrightarrow> \<forall>y \<in> set ys. iv_before cmp x y \<Longrightarrow>
   start_f n = start_f i \<or> start_f n \<in> start_f ` set ys \<Longrightarrow> iv_before cmp x n"
  by (auto simp: iv_before_def split: option.splits)

lemma insert_ok:
  assumes "ivs_ok cmp pre" "ivs_ok cmp suf" "\<forall>x \<in> set pre. \<forall>y \<in> set suf. iv_before cmp x y"
    and "\<forall>x \<in> set pre. iv_before cmp x i"
    and "start_f n = start_f i \<or> start_f n \<in> start_f ` set suf" "iv_nonempty cmp n"
    and "ivs_ok cmp post" "set post \<subseteq> set suf" "\<forall>y \<in> set post. iv_before cmp n y"
  shows "ivs_ok cmp (pre @ n # post)"
proof -
  have "iv_before cmp x n" if "x \<in> set pre" for x
    using before_start [of x i suf n] assms(3,4,5) that by blast
  then show ?thesis using assms by (auto simp: ivs_ok_append ivs_ok_Cons)
qed

lemma infinite_nonempty: "end_f i = None \<Longrightarrow> iv_nonempty cmp i"
  by (simp add: iv_nonempty_def)

lemma insertImpl_infinite:
  assumes "ivs_ok cmp (intervals_f s)" "end_f i = None"
    and "\<not> (prop_f s \<and> (\<exists>x \<in> set (intervals_f s). \<not> iv_before cmp x i))"
  shows "\<exists>s'. insertImpl cmp i s = (True, s') \<and> prop_f s' = prop_f s \<and> ivs_ok cmp (intervals_f s')
    \<and> ivs_keys cmp (intervals_f s') = ivs_keys cmp (intervals_f s) \<union> iv_keys cmp i"
proof (rule insertImpl_split [OF assms(1) infinite_nonempty [OF assms(2)]], goal_cases)
  case (1 pre suf overlap)
  note P = 1(1-3) and ov = 1(4) and eq = 1(6) [unfolded assms(2) option.case]
  have ok: "ivs_ok cmp pre" "ivs_ok cmp suf" "\<forall>x \<in> set pre. \<forall>y \<in> set suf. iv_before cmp x y"
    using assms(1) P(1) by (simp_all add: ivs_ok_append)
  have suf: "suf = []" if "prop_f s"
    using assms(3) that P(1,3) by (cases suf) (auto simp: iv_before_def split: option.splits)
  from from_Un_keys [OF P(3)] obtain ns where ns0: "inf_scan cmp False suf (start_f i) = Some ns \<and>
    (ns = start_f i \<or> ns \<in> start_f ` set suf) \<and> \<not> cmp (start_f i) ns < 0 \<and>
    {q. \<not> cmp q ns < 0} = {q. \<not> cmp q (start_f i) < 0} \<union> ivs_keys cmp suf" ..
  note ns = ns0 [THEN conjunct1] ns0 [THEN conjunct2, THEN conjunct1]
    ns0 [THEN conjunct2, THEN conjunct2, THEN conjunct2]
  have scan: "inf_scan cmp (prop_f s) suf (start_f i) = Some ns"
    using ns(1) suf by (cases "prop_f s") auto
  have new: "ivs_ok cmp (pre @ [Interval_from ns])"
    by (rule insert_ok [OF ok P(2)])
      (use ns(2) in \<open>auto simp: Interval_from_def iv_nonempty_def ivs_ok_def\<close>)
  have nov: "\<not> overlap" if "prop_f s" using suf [OF that] ov P by auto
  have "insertImpl cmp i s = (True, s\<lparr>intervals_f := pre @ [Interval_from ns]\<rparr>)"
    using eq scan nov suf insert_between [of pre _ "[]", simplified, OF new] by auto
  moreover have "iv_keys cmp i = {q. \<not> cmp q (start_f i) < 0}"
    using assms(2) by (simp add: iv_keys_def)
  ultimately show ?thesis using new ns(3) P(1) by (auto simp: iv_keys_from)
qed

text \<open>
  A finite interval: without an infinite interval in the set exactly its keys are added; with one,
  everything from its start on.
\<close>

lemma insertImpl_finite:
  assumes "ivs_ok cmp (intervals_f s)" "end_f i = Some e" "cmp (start_f i) e < 0"
    and "\<not> (prop_f s \<and> (\<exists>x \<in> set (intervals_f s). cmp (start_f x) (start_f i) < 0 \<and> \<not> iv_before cmp x i))"
  shows "\<exists>s'. insertImpl cmp i s = (True, s') \<and> prop_f s' = prop_f s \<and> ivs_ok cmp (intervals_f s')
    \<and> ivs_keys cmp (intervals_f s') = ivs_keys cmp (intervals_f s) \<union>
        (if \<exists>x \<in> set (intervals_f s). end_f x = None then {k. \<not> cmp k (start_f i) < 0} else iv_keys cmp i)"
proof (rule insertImpl_split [OF assms(1), of i], goal_cases)
  case 1
  show ?case using assms(2,3) by (simp add: iv_nonempty_def)
next
  case (2 pre suf overlap)
  note P = 2(1-3) and eq0 = 2(6) [unfolded assms(2) option.case]
  obtain ns ne inf0 er unseen where ms: "merge_scan cmp suf (start_f i) e 0 = (ns, ne, inf0, er, unseen)"
    by (cases "merge_scan cmp suf (start_f i) e 0") auto
  have "\<not> (overlap \<and> prop_f s)" using 2(4) assms(4) by blast
  note eq = eq0 [unfolded if_not_P [OF this] ms prod.case Let_def]
  have ok: "ivs_ok cmp pre" "ivs_ok cmp suf" "\<forall>x \<in> set pre. \<forall>y \<in> set suf. iv_before cmp x y"
    using assms(1) P(1) by (simp_all add: ivs_ok_append)
  have "\<forall>x \<in> set pre. end_f x \<noteq> None"
    using P(2) by (auto simp: iv_before_def split: option.splits)
  then have ex: "(\<exists>x \<in> set (pre @ suf). end_f x = None) \<longleftrightarrow> (\<exists>x \<in> set suf. end_f x = None)" by auto
  have ik: "iv_keys cmp i = {q. \<not> cmp q (start_f i) < 0 \<and> cmp q e < 0}"
    using assms(2) by (simp add: iv_keys_def)
  have late: "iv_keys cmp y \<subseteq> {q. \<not> cmp q (start_f i) < 0}" if "\<not> cmp (start_f y) (start_f i) < 0" for y
    using that not_less_trans by (auto simp: iv_keys_def)
  have main: "?case" if new: "ivs_ok cmp (pre @ n # post)"
    and ins: "insertImpl cmp i s = (True, s\<lparr>intervals_f := insert_at (findPosition cmp (pre @ post) n) n (pre @ post)\<rparr>)"
    and keys: "iv_keys cmp n \<union> ivs_keys cmp post = ivs_keys cmp suf \<union>
      (if \<exists>x \<in> set suf. end_f x = None then {k. \<not> cmp k (start_f i) < 0} else iv_keys cmp i)" for n post
    using ins new by (simp add: insert_between [OF new] ex P(1) keys Un_assoc del: set_append)
  show ?case
  proof (cases inf0)
    case True
    then have "inf0 = True" by simp
    note M = merge_scan_infinite [OF ms [unfolded this] ok(2) assms(3) P(3)]
    have new: "ivs_ok cmp (pre @ [Interval_from ns])"
      by (rule insert_ok [OF ok P(2)]) (use M in \<open>auto simp: Interval_from_def iv_nonempty_def ivs_ok_def\<close>)
    have sub: "{k. \<not> cmp k (start_f i) < 0} \<subseteq> {q. \<not> cmp q ns < 0}" using M not_less_trans by blast
    show ?thesis
      by (rule main [OF new]) (use eq True M sub ik in \<open>auto simp: iv_keys_from\<close>)
  next
    case False
    then have inf0: "inf0 = False" by simp
    obtain ys where M: "suf = ys @ unseen" "er = length ys" "ns = start_f i \<or> ns \<in> start_f ` set ys"
      "\<not> cmp (start_f i) ns < 0" "cmp ns ne < 0" "\<not> cmp ne e < 0"
      "{q. \<not> cmp q ns < 0 \<and> cmp q ne < 0} = iv_keys cmp i \<union> ivs_keys cmp ys"
      "\<forall>y \<in> set unseen. cmp ne (start_f y) < 0" "\<forall>y \<in> set ys. end_f y \<noteq> None"
      using merge_scan_finite [OF ms [unfolded inf0] ok(2) assms(3) P(3)] ik by auto
    have from_start: "{q. \<not> cmp q ns < 0} =
        {q. \<not> cmp q ns < 0 \<and> cmp q ne < 0} \<union> {q. \<not> cmp q (start_f i) < 0}"
      using range_Un_from [of ne "start_f i" ns] M(4,5,6) less_asym [OF less_le_trans [OF assms(3) M(6)]] by auto
    show ?thesis
    proof (cases "list_ex (\<lambda>x. end_f x = None) unseen")
      case True
      have new: "ivs_ok cmp (pre @ [Interval_from ns])"
        by (rule insert_ok [OF ok P(2)]) (use M in \<open>auto simp: Interval_from_def iv_nonempty_def ivs_ok_def\<close>)
      have "\<not> cmp (start_f y) (start_f i) < 0" if "y \<in> set unseen" for y
        using M(6,8) assms(3) that less_le_trans less_trans less_asym by blast
      then have "ivs_keys cmp unseen \<subseteq> {q. \<not> cmp q (start_f i) < 0}" using late by (auto simp: ivs_keys_def)
      then have "{q. \<not> cmp q ns < 0} = ivs_keys cmp suf \<union> {k. \<not> cmp k (start_f i) < 0}"
        using from_start M(1,7) ik by auto
      moreover have "\<exists>x \<in> set suf. end_f x = None" using True M(1) by (auto simp: list_ex_iff)
      ultimately show ?thesis
        by (intro main [OF new]) (use eq inf0 True in \<open>simp_all add: iv_keys_from if_P\<close>)
    next
      case fin: False
      have "ivs_ok cmp unseen" using ok(2) M(1) by (simp add: ivs_ok_append)
      have new: "ivs_ok cmp (pre @ Interval_range ns ne # unseen)"
        by (rule insert_ok [OF ok P(2) _ _ \<open>ivs_ok cmp unseen\<close>])
          (use M in \<open>auto simp: Interval_range_def iv_nonempty_def iv_before_def\<close>)
      show ?thesis
        by (rule main [OF new]) (use eq inf0 fin M in \<open>auto simp: iv_keys_range list_ex_iff\<close>)
    qed
  qed
qed

text \<open>The generic insertion, on ordered sets of finite intervals, does what the one for slices does.\<close>

lemma set_insert_between:
  assumes "ivs_ok cmp (pre @ n # post)"
  shows "set_insert (\<lambda>a b. cmp a b < 0) n (pre @ post) = pre @ n # post"
proof -
  have pre: "\<forall>a \<in> set pre. cmp (start_f a) (start_f n) < 0"
    using assms before_less by (auto simp: ivs_ok_def sorted_wrt_append)
  have post: "set_insert (\<lambda>a b. cmp a b < 0) n post = n # post"
    using assms before_less by (cases post) (auto simp: ivs_ok_append ivs_ok_Cons CompareInterval_def)
  show ?thesis using pre
    by (induction pre) (use post less_asym in \<open>auto simp: CompareInterval_def\<close>)
qed

lemma g_position_eq: "g_position (\<lambda>a b. cmp a b < 0) ivs (start_f i) = findPosition cmp ivs i"
  by (induction ivs) (auto simp: ge_iff)

lemma g_merge_eq:
  assumes "ivs_ok cmp xs" "cmp ns ne < 0" "\<forall>y \<in> set xs. end_f y \<noteq> None"
    and "\<forall>y \<in> set xs. case end_f y of None \<Rightarrow> True | Some e \<Rightarrow> \<not> cmp e ns < 0"
    and "merge_scan cmp xs ns ne k = (ns', ne', inf0, er, unseen)"
  shows "g_merge (\<lambda>a b. cmp a b < 0) xs ns ne = (ns', ne', inf0, [], unseen) \<and> \<not> inf0"
  using assms
proof (induction xs arbitrary: ns ne k)
  case Nil
  then show ?case by simp
next
  case (Cons it its)
  show ?case
  proof (cases "cmp ne (start_f it) < 0")
    case True
    then show ?thesis using Cons.prems(5) by auto
  next
    case False
    obtain e where e: "end_f it = Some e" using Cons.prems(3) by auto
    define s where "s = (if cmp (start_f it) ns < 0 then start_f it else ns)"
    define m where "m = (if cmp ne e < 0 then e else ne)"
    have ens: "\<not> cmp e ns < 0" and se: "cmp (start_f it) e < 0" and ok: "ivs_ok cmp its"
      using Cons.prems(1,4) e by (auto simp: ivs_ok_Cons iv_nonempty_def)
    have sm: "cmp s m < 0" "\<not> cmp ns s < 0"
      unfolding s_def m_def by (rule merged_bounds [OF Cons.prems(2) se])+
    have ends: "\<forall>y \<in> set its. case end_f y of None \<Rightarrow> True | Some e \<Rightarrow> \<not> cmp e s < 0"
      by (rule ends_mono [OF _ sm(2)]) (use Cons.prems(4) in simp)
    have step: "merge_scan cmp its s m (k + 1) = (ns', ne', inf0, er, unseen)"
      using Cons.prems(5) False e ens by (simp add: s_def m_def Let_def ge_iff)
    have "g_merge (\<lambda>a b. cmp a b < 0) (it # its) ns ne = g_merge (\<lambda>a b. cmp a b < 0) its s m"
      using False e ens by (simp add: s_def m_def Let_def)
    then show ?thesis using Cons.IH [OF ok sm(1) _ ends step] Cons.prems(3) by simp
  qed
qed

lemma inf_scan_foldl:
  "inf_scan cmp False xs ns = Some (foldl (\<lambda>ns x. if cmp (start_f x) ns < 0 then start_f x else ns) ns xs)"
  by (induction xs arbitrary: ns) auto

lemma g_insertImpl_eq:
  assumes ok: "ivs_ok cmp (intervals_f s)" and i: "iv_nonempty cmp i"
    and fin: "\<forall>x \<in> set (intervals_f s). end_f x \<noteq> None" and merging: "\<not> prop_f s"
  shows "intervals_f (snd (insertImpl cmp i s)) = g_insertImpl (\<lambda>a b. cmp a b < 0) i (intervals_f s)"
proof (rule insertImpl_split [OF ok i], goal_cases)
  case (1 pre suf overlap)
  note P = 1(1-3) and eq = 1(6) and len = 1(7)
  let ?lt = "\<lambda>a b. cmp a b < 0"
  have guard: "\<not> (case end_f i of None \<Rightarrow> False | Some e \<Rightarrow> \<not> ?lt (start_f i) e \<and> \<not> ?lt e (start_f i))"
    using i by (auto simp: iv_nonempty_def split: option.splits)
  have noinf: "\<not> list_ex (\<lambda>it. end_f it = None \<and> \<not> ?lt (start_f i) (start_f it)) (intervals_f s)"
    using fin by (auto simp: list_ex_iff)
  have parts: "take (length pre) (intervals_f s) = pre" "drop (length pre) (intervals_f s) = suf"
    using P(1) by simp_all
  note g = g_insertImpl_def [of ?lt i "intervals_f s", unfolded if_not_P [OF guard] if_not_P [OF noinf]
    g_position_eq, folded len [unfolded Let_def], unfolded Let_def, folded len [unfolded Let_def], unfolded parts]
  have ok': "ivs_ok cmp pre" "ivs_ok cmp suf" "\<forall>x \<in> set pre. \<forall>y \<in> set suf. iv_before cmp x y"
    using ok P(1) by (simp_all add: ivs_ok_append)
  show ?case
  proof (cases "end_f i")
    case None
    define ns where "ns = foldl (\<lambda>ns x. if cmp (start_f x) ns < 0 then start_f x else ns) (start_f i) suf"
    have scan: "inf_scan cmp False suf (start_f i) = Some ns" by (simp add: inf_scan_foldl ns_def)
    then have "ns = start_f i \<or> ns \<in> start_f ` set suf" using from_Un_keys [OF P(3)] by auto
    then have new: "ivs_ok cmp (pre @ [Interval_from ns])"
      by (intro insert_ok [OF ok' P(2)]) (auto simp: Interval_from_def iv_nonempty_def ivs_ok_def)
    show ?thesis
      using eq g scan None merging insert_between [of pre _ "[]", simplified, OF new]
        set_insert_between [of pre _ "[]", simplified, OF new]
      by (simp add: ns_def)
  next
    case (Some e)
    have less: "cmp (start_f i) e < 0" using i Some by (simp add: iv_nonempty_def)
    obtain ns ne inf0 er unseen where ms: "merge_scan cmp suf (start_f i) e 0 = (ns, ne, inf0, er, unseen)"
      by (cases "merge_scan cmp suf (start_f i) e 0") auto
    have "\<forall>y \<in> set suf. end_f y \<noteq> None" using fin P(1) by simp
    note gm = g_merge_eq [OF ok'(2) less this P(3) ms]
    then have "inf0 = False" by simp
    from merge_scan_finite [OF ms [unfolded this] ok'(2) less P(3)] obtain ys where
      M: "suf = ys @ unseen" "er = length ys" "ns = start_f i \<or> ns \<in> start_f ` set ys" "cmp ns ne < 0"
        "\<forall>y \<in> set unseen. cmp ne (start_f y) < 0" by auto
    have "ivs_ok cmp unseen" using ok'(2) M(1) by (simp add: ivs_ok_append)
    have new: "ivs_ok cmp (pre @ Interval_range ns ne # unseen)"
      by (rule insert_ok [OF ok' P(2) _ _ \<open>ivs_ok cmp unseen\<close>])
        (use M in \<open>auto simp: Interval_range_def iv_nonempty_def iv_before_def\<close>)
    have unseen: "\<not> list_ex (\<lambda>x. end_f x = None) unseen" "filter has_end unseen = unseen"
      using fin P(1) M(1) by (auto simp: list_ex_iff has_end_def filter_id_when_all)
    show ?thesis
      using eq g ms gm Some merging unseen M(1,2) insert_between [OF new] set_insert_between [OF new]
      by simp
  qed
qed

lemma insertImpl_refuses:
  assumes "ivs_ok cmp (intervals_f s)" "iv_nonempty cmp i" "prop_f s"
    and "\<exists>x \<in> set (intervals_f s). \<not> iv_before cmp x i \<and> (cmp (start_f x) (start_f i) < 0 \<or> end_f i = None)"
  shows "insertImpl cmp i s = (False, s)"
proof (rule insertImpl_split [OF assms(1,2)], goal_cases)
  case (1 pre suf overlap)
  note P = 1(1,2) and ov = 1(4) and eq = 1(6)
  show ?case
  proof (cases overlap)
    case True
    then show ?thesis using eq assms(3) by simp
  next
    case False
    with ov assms(4) have none: "end_f i = None" and "\<exists>x \<in> set (intervals_f s). \<not> iv_before cmp x i" by blast+
    with P have "suf \<noteq> []" by auto
    then show ?thesis
      using assms(3) unfolding eq none by (cases "inf_scan cmp (prop_f s) suf (start_f i)") simp_all
  qed
qed

lemma insertImpl_empty: "\<not> iv_nonempty cmp i \<Longrightarrow> insertImpl cmp i s = (False, s)"
  by (auto simp: iv_nonempty_def insertImpl_def ge_iff split: option.splits)

end

section \<open>Properties\<close>


definition nat_cmp :: "nat \<Rightarrow> nat \<Rightarrow> int" where
  "nat_cmp a b = int a - int b"

lemma nat_cmp_order: "comparator_order nat_cmp"
  unfolding nat_cmp_def by (rule u64_order.comparator_order_axioms)

definition three_intervals :: "nat IntervalSet" where
  "three_intervals =
     \<lparr>intervals_f = [Interval_range 1 2, Interval_range 3 5, Interval_range 9 10], prop_f = False\<rparr>"

lemmas interval_eval = Interval_range_def Interval_from_def nat_cmp_def ivs_ok_def iv_nonempty_def
  iv_before_def three_intervals_def


text \<open>
  When intersections are to fail, an insertion is refused, and the set left unchanged, exactly
  for an empty interval, when an interval that starts below the new start reaches it, and for an
  infinite interval also when some interval does not end below its start.
\<close>

theorem IntervalSet_refusal:
  assumes "comparator_order cmp" and "ivs_ok cmp (intervals_f s)" and "prop_f s"
  shows "(fst (insertImpl cmp i s) \<longleftrightarrow> iv_nonempty cmp i \<and>
      \<not> (\<exists>x \<in> set (intervals_f s). \<not> iv_before cmp x i \<and>
          (cmp (start_f x) (start_f i) < 0 \<or> end_f i = None)))
    \<and> (fst (insertImpl cmp i s) \<or> snd (insertImpl cmp i s) = s)"
proof (cases "iv_nonempty cmp i \<and> \<not> (\<exists>x \<in> set (intervals_f s). \<not> iv_before cmp x i \<and>
    (cmp (start_f x) (start_f i) < 0 \<or> end_f i = None))")
  case True
  have "fst (insertImpl cmp i s)"
  proof (cases "end_f i")
    case None
    with True comparator_order.insertImpl_infinite [OF assms(1,2) None] show ?thesis by auto
  next
    case (Some e)
    with True have "cmp (start_f i) e < 0" by (simp add: iv_nonempty_def)
    with True comparator_order.insertImpl_finite [OF assms(1,2) Some] show ?thesis by fastforce
  qed
  with True show ?thesis by simp
next
  case False
  then have "insertImpl cmp i s = (False, s)"
    using comparator_order.insertImpl_refuses [OF assms(1,2) _ assms(3)]
      comparator_order.insertImpl_empty [OF assms(1)] by blast
  with False show ?thesis by simp
qed

theorem IntervalSet_refusal_witness:
  "\<not> fst (insertImpl nat_cmp (Interval_range 4 8) \<lparr>intervals_f = [Interval_range 3 5], prop_f = True\<rparr>)
   \<and> fst (insertImpl nat_cmp (Interval_range 6 8) \<lparr>intervals_f = [Interval_range 3 5], prop_f = True\<rparr>)"
proof -
  have ok: "ivs_ok nat_cmp [Interval_range 3 5]"
    by (simp add: interval_eval)
  show ?thesis
    using IntervalSet_refusal [OF nat_cmp_order, of "\<lparr>intervals_f = [Interval_range 3 5], prop_f = True\<rparr>" "Interval_range 4 8"]
      IntervalSet_refusal [OF nat_cmp_order, of "\<lparr>intervals_f = [Interval_range 3 5], prop_f = True\<rparr>" "Interval_range 6 8"] ok
    by (simp add: interval_eval)
qed



text \<open>
  Two behaviours at odds with the description of the class: an infinite interval anywhere above is
  merged with, gap included, and when intersections are to fail, an interval that runs into a later
  one is merged all the same. In the generic set the intervals between are left in place.
\<close>

lemma gap_below_infinite_filled:
  "insertImpl nat_cmp (Interval_range 1 2) \<lparr>intervals_f = [Interval_from 10], prop_f = False\<rparr> =
     (True, \<lparr>intervals_f = [Interval_from 1], prop_f = False\<rparr>)"
  by code_simp

lemma later_intersection_accepted:
  "insertImpl nat_cmp (Interval_range 1 4) \<lparr>intervals_f = [Interval_range 3 5], prop_f = True\<rparr> =
     (True, \<lparr>intervals_f = [Interval_range 1 5], prop_f = True\<rparr>)"
  by code_simp

lemma generic_set_overlaps:
  "g_insertImpl (\<lambda>a b. nat_cmp a b < 0) (Interval_range 1 2) [Interval_range 4 5, Interval_from 10] =
     [Interval_from 1, Interval_range 4 5]"
  by code_simp

end
