(* ===== verification/Option_Types.thy ===== *)
theory Option_Types
  imports Statuses "HOL-Library.Monad_Syntax" "HOL-Library.Char_ord" "HOL-Library.List_Lexorder"
begin

text \<open>
  \<open>libs/rocksdb/utilities/options_type.h\<close>: the description of an option (\<open>OptionTypeInfo\<close>) with its
  flags, the factories that build descriptions of enums, structs, arrays, vectors, string maps and
  pointers, and the templates that parse, print and compare arrays and vectors; with the settings
  \<open>ConfigOptions\<close> of \<open>convenience.h\<close>. The functions the header only declares (\<open>Parse\<close>, \<open>Serialize\<close>,
  \<open>AreEqual\<close>, \<open>NextToken\<close>, the struct operations, \<open>DecodeHex\<close>, \<open>ToString\<close>) are parameters.
  A value an option is stored in is an argument and a result of the function that writes it.
\<close>

unbundle bit_operations_syntax

definition msg_bytes :: "string \<Rightarrow> bytes" where
  "msg_bytes s = map of_char s"

section \<open>Settings\<close>

abbreviation (input) kSanityLevelNone :: u32 where "kSanityLevelNone \<equiv> 0x01"
abbreviation (input) kSanityLevelLooselyCompatible :: u32 where "kSanityLevelLooselyCompatible \<equiv> 0x02"
abbreviation (input) kSanityLevelExactMatch :: u32 where "kSanityLevelExactMatch \<equiv> 0xFF"

datatype Depth = kDepthDefault | kDepthShallow | kDepthDetailed

record ConfigOptions =
  ignore_unknown_options :: bool
  ignore_unsupported_options :: bool
  input_strings_escaped :: bool
  invoke_prepare_options :: bool
  mutable_options_only :: bool
  delimiter :: string
  depth :: Depth
  sanity_level :: u32
  file_readahead_size :: size_t

definition ConfigOptions_default :: ConfigOptions where
  "ConfigOptions_default =
     \<lparr>ignore_unknown_options = False, ignore_unsupported_options = True, input_strings_escaped = True,
      invoke_prepare_options = True, mutable_options_only = False, delimiter = '';'',
      depth = kDepthDefault, sanity_level = kSanityLevelExactMatch, file_readahead_size = 512 * 1024\<rparr>"

abbreviation (input) IsShallow :: "ConfigOptions \<Rightarrow> bool" where
  "IsShallow c \<equiv> depth c = kDepthShallow"

abbreviation (input) IsDetailed :: "ConfigOptions \<Rightarrow> bool" where
  "IsDetailed c \<equiv> depth c = kDepthDetailed"

definition IsCheckDisabled :: "ConfigOptions \<Rightarrow> bool" where
  "IsCheckDisabled c \<longleftrightarrow> sanity_level c = kSanityLevelNone"

definition IsCheckEnabled :: "ConfigOptions \<Rightarrow> u32 \<Rightarrow> bool" where
  "IsCheckEnabled c level \<longleftrightarrow> kSanityLevelNone < level \<and> level \<le> sanity_level c"

section \<open>Descriptions of options\<close>

datatype OptionType =
    kBoolean | kInt | kInt32T | kInt64T | kUInt | kUInt8T | kUInt32T | kUInt64T | kSizeT | kDouble
  | kAtomicInt | kString | kCompactionStyle | kCompactionPri | kCompressionType
  | kCompactionStopStyle | kChecksumType | kEncodingType | kEnv | kEnum | kStruct | kVector
  | kConfigurable | kCustomizable | kEncodedString | kTemperature | kArray | kStringMap | kUnknown

datatype OptionVerificationType =
  kNormal | kByName | kByNameAllowNull | kByNameAllowFromNull | kDeprecated | kAlias

type_synonym OptionTypeFlags = u32

datatype OptionTypeFlag = kFlagNone | kCompareDefault | kCompareNever | kCompareLoose | kCompareExact | kMutable | kRawPointer
  | kShared | kUnique | kAllowNull | kDontSerialize | kDontPrepare | kStringNameOnly

fun flag_bits :: "OptionTypeFlag \<Rightarrow> OptionTypeFlags" where
  "flag_bits kFlagNone = 0x00"
| "flag_bits kCompareDefault = 0x0"
| "flag_bits kCompareNever = kSanityLevelNone"
| "flag_bits kCompareLoose = kSanityLevelLooselyCompatible"
| "flag_bits kCompareExact = kSanityLevelExactMatch"
| "flag_bits kMutable = 0x0100"
| "flag_bits kRawPointer = 0x0200"
| "flag_bits kShared = 0x0400"
| "flag_bits kUnique = 0x0800"
| "flag_bits kAllowNull = 0x1000"
| "flag_bits kDontSerialize = 0x2000"
| "flag_bits kDontPrepare = 0x4000"
| "flag_bits kStringNameOnly = 0x8000"

lemmas flag_defs = flag_bits.simps

definition flags_or :: "OptionTypeFlags \<Rightarrow> OptionTypeFlags \<Rightarrow> OptionTypeFlags" where
  "flags_or a b = a OR b"

definition flags_and :: "OptionTypeFlags \<Rightarrow> OptionTypeFlags \<Rightarrow> OptionTypeFlags" where
  "flags_and a b = a AND b"

text \<open>
  The map is a list of its pairs in iteration order. On failure the target keeps its value.
\<close>

definition ParseEnum :: "(string \<times> 'e) list \<Rightarrow> string \<Rightarrow> 'e \<Rightarrow> bool \<times> 'e" where
  "ParseEnum type_map type value =
     (case map_of type_map type of Some e \<Rightarrow> (True, e) | None \<Rightarrow> (False, value))"

fun SerializeEnum :: "(string \<times> 'e) list \<Rightarrow> 'e \<Rightarrow> string \<Rightarrow> bool \<times> string" where
  "SerializeEnum [] type value = (False, value)"
| "SerializeEnum (p # ps) type value = (if snd p = type then (True, fst p) else SerializeEnum ps type value)"

text \<open>A parse function may not return (\<open>None\<close>): an assertion in it fails, or its loop runs on.\<close>

type_synonym 'v ParseFunc = "ConfigOptions \<Rightarrow> string \<Rightarrow> string \<Rightarrow> 'v \<Rightarrow> (Status \<times> 'v) option"
type_synonym 'v SerializeFunc = "ConfigOptions \<Rightarrow> string \<Rightarrow> 'v \<Rightarrow> string \<Rightarrow> Status \<times> string"
type_synonym 'v EqualsFunc = "ConfigOptions \<Rightarrow> string \<Rightarrow> 'v \<Rightarrow> 'v \<Rightarrow> string \<Rightarrow> bool \<times> string"
type_synonym 'v PrepareFunc = "ConfigOptions \<Rightarrow> string \<Rightarrow> 'v \<Rightarrow> Status \<times> 'v"
type_synonym 'v ValidateFunc = "string \<Rightarrow> 'v \<Rightarrow> Status"

record 'v OptionTypeInfo =
  offset_f :: int
  parse_func_f :: "'v ParseFunc option"
  serialize_func_f :: "'v SerializeFunc option"
  equals_func_f :: "'v EqualsFunc option"
  prepare_func_f :: "'v PrepareFunc option"
  validate_func_f :: "'v ValidateFunc option"
  type_f :: OptionType
  verification_f :: OptionVerificationType
  flags_f :: OptionTypeFlags

definition OptionTypeInfo_new ::
  "int \<Rightarrow> OptionType \<Rightarrow> OptionVerificationType \<Rightarrow> OptionTypeFlags \<Rightarrow> 'v ParseFunc option
    \<Rightarrow> 'v SerializeFunc option \<Rightarrow> 'v EqualsFunc option \<Rightarrow> 'v OptionTypeInfo" where
  "OptionTypeInfo_new offset type verification flags parse_func serialize_func equals_func =
     \<lparr>offset_f = offset, parse_func_f = parse_func, serialize_func_f = serialize_func,
      equals_func_f = equals_func, prepare_func_f = None, validate_func_f = None, type_f = type,
      verification_f = verification, flags_f = flags\<rparr>"

text \<open>The setters of the five functions of an option, as one function of the new value.\<close>

datatype 'v OptionFunc =
    ParseFn "'v ParseFunc"
  | SerializeFn "'v SerializeFunc"
  | EqualsFn "'v EqualsFunc"
  | PrepareFn "'v PrepareFunc"
  | ValidateFn "'v ValidateFunc"

fun SetFunc :: "'v OptionFunc \<Rightarrow> 'v OptionTypeInfo \<Rightarrow> 'v OptionTypeInfo" where
  "SetFunc (ParseFn f) info = info\<lparr>parse_func_f := Some f\<rparr>"
| "SetFunc (SerializeFn f) info = info\<lparr>serialize_func_f := Some f\<rparr>"
| "SetFunc (EqualsFn f) info = info\<lparr>equals_func_f := Some f\<rparr>"
| "SetFunc (PrepareFn f) info = info\<lparr>prepare_func_f := Some f\<rparr>"
| "SetFunc (ValidateFn f) info = info\<lparr>validate_func_f := Some f\<rparr>"

abbreviation (input) "SetParseFunc f \<equiv> SetFunc (ParseFn f)"
abbreviation (input) "SetSerializeFunc f \<equiv> SetFunc (SerializeFn f)"
abbreviation (input) "SetEqualsFunc f \<equiv> SetFunc (EqualsFn f)"
abbreviation (input) "SetPrepareFunc f \<equiv> SetFunc (PrepareFn f)"
abbreviation (input) "SetValidateFunc f \<equiv> SetFunc (ValidateFn f)"

abbreviation (input) GetFlags :: "'v OptionTypeInfo \<Rightarrow> OptionTypeFlags" where
  "GetFlags info \<equiv> flags_f info"

definition SetFlags :: "OptionTypeFlags \<Rightarrow> 'v OptionTypeInfo \<Rightarrow> 'v OptionTypeInfo" where
  "SetFlags flags info = info\<lparr>flags_f := flags\<rparr>"

definition IsEnabled :: "OptionTypeFlags \<Rightarrow> 'v OptionTypeInfo \<Rightarrow> bool" where
  "IsEnabled otf info \<longleftrightarrow> flags_and (flags_f info) otf = otf"

definition IsEnabled_ver :: "OptionVerificationType \<Rightarrow> 'v OptionTypeInfo \<Rightarrow> bool" where
  "IsEnabled_ver ovf info \<longleftrightarrow> verification_f info = ovf"

definition IsMutable :: "'v OptionTypeInfo \<Rightarrow> bool" where
  "IsMutable info \<longleftrightarrow> IsEnabled (flag_bits kMutable) info"

definition IsEditable :: "ConfigOptions \<Rightarrow> 'v OptionTypeInfo \<Rightarrow> bool" where
  "IsEditable opts info \<longleftrightarrow> (if mutable_options_only opts then IsMutable info else True)"

definition IsDeprecated :: "'v OptionTypeInfo \<Rightarrow> bool" where
  "IsDeprecated info \<longleftrightarrow> IsEnabled_ver kDeprecated info"

definition IsAlias :: "'v OptionTypeInfo \<Rightarrow> bool" where
  "IsAlias info \<longleftrightarrow> IsEnabled_ver kAlias info"

definition GetSanityLevel :: "'v OptionTypeInfo \<Rightarrow> u32" where
  "GetSanityLevel info =
     (if IsDeprecated info \<or> IsAlias info then kSanityLevelNone
      else let match = flags_and (flags_f info) (flag_bits kCompareExact)
           in if match = (flag_bits kCompareDefault) then kSanityLevelExactMatch else match)"

definition ShouldSerialize :: "'v OptionTypeInfo \<Rightarrow> bool" where
  "ShouldSerialize info \<longleftrightarrow>
     (if IsDeprecated info \<or> IsAlias info then False
      else if IsEnabled (flag_bits kDontSerialize) info then False else True)"

text \<open>The tests of how an option is held and of its type.\<close>

datatype OptionTest =
    TestSharedPtr
  | TestUniquePtr
  | TestRawPtr
  | TestByName
  | TestStruct
  | TestConfigurable
  | TestCustomizable

fun option_is :: "OptionTest \<Rightarrow> 'v OptionTypeInfo \<Rightarrow> bool" where
  "option_is TestSharedPtr info \<longleftrightarrow> IsEnabled (flag_bits kShared) info"
| "option_is TestUniquePtr info \<longleftrightarrow> IsEnabled (flag_bits kUnique) info"
| "option_is TestRawPtr info \<longleftrightarrow> IsEnabled (flag_bits kRawPointer) info"
| "option_is TestByName info \<longleftrightarrow> verification_f info = kByName \<or> verification_f info = kByNameAllowNull
     \<or> verification_f info = kByNameAllowFromNull"
| "option_is TestStruct info \<longleftrightarrow> type_f info = kStruct"
| "option_is TestConfigurable info \<longleftrightarrow> type_f info = kConfigurable \<or> type_f info = kCustomizable"
| "option_is TestCustomizable info \<longleftrightarrow> type_f info = kCustomizable"

declare option_is.simps [simp del]

abbreviation "IsSharedPtr \<equiv> option_is TestSharedPtr"
abbreviation "IsUniquePtr \<equiv> option_is TestUniquePtr"
abbreviation "IsRawPtr \<equiv> option_is TestRawPtr"
abbreviation "IsByName \<equiv> option_is TestByName"
abbreviation "IsStruct \<equiv> option_is TestStruct"
abbreviation "IsConfigurable \<equiv> option_is TestConfigurable"
abbreviation "IsCustomizable \<equiv> option_is TestCustomizable"

definition ShouldPrepare :: "'v OptionTypeInfo \<Rightarrow> bool" where
  "ShouldPrepare info \<longleftrightarrow>
     (if IsDeprecated info \<or> IsAlias info then False
      else if IsEnabled (flag_bits kDontPrepare) info then False
      else prepare_func_f info \<noteq> None \<or> IsConfigurable info)"

definition ShouldValidate :: "'v OptionTypeInfo \<Rightarrow> bool" where
  "ShouldValidate info \<longleftrightarrow>
     (if IsDeprecated info \<or> IsAlias info then False
      else validate_func_f info \<noteq> None \<or> IsConfigurable info)"

definition CanBeNull :: "'v OptionTypeInfo \<Rightarrow> bool" where
  "CanBeNull info \<longleftrightarrow>
     IsEnabled (flag_bits kAllowNull) info \<or> IsEnabled_ver kByNameAllowNull info \<or> IsEnabled_ver kByNameAllowFromNull info"

abbreviation (input) GetType :: "'v OptionTypeInfo \<Rightarrow> OptionType" where
  "GetType info \<equiv> type_f info"

text \<open>
  Addresses: the base is a pointer (\<open>None\<close> the null pointer), \<open>deref\<close> what a pointer object at an
  address holds; a unique and a shared pointer hold one pointer like a raw one.
\<close>

definition GetOffset :: "int \<Rightarrow> 'v OptionTypeInfo \<Rightarrow> int" where
  "GetOffset base info = base + offset_f info"

definition AsRawPointer :: "(int \<Rightarrow> int option) \<Rightarrow> int option \<Rightarrow> 'v OptionTypeInfo \<Rightarrow> int option" where
  "AsRawPointer deref base_addr info =
     (case base_addr of
        None \<Rightarrow> None
      | Some base \<Rightarrow>
          if IsUniquePtr info then deref (GetOffset base info)
          else if IsSharedPtr info then deref (GetOffset base info)
          else if IsRawPtr info then deref (GetOffset base info)
          else Some (GetOffset base info))"

section \<open>Arrays and vectors\<close>

type_synonym NextToken = "string \<Rightarrow> char \<Rightarrow> nat \<Rightarrow> Status \<times> nat option \<times> string"

text \<open>
  \<open>NextToken\<close> returns the status, the end of the token (\<open>None\<close> for \<open>npos\<close>) and the token. A loop over
  tokens goes on behind the end; at \<open>npos\<close> it stops.
\<close>

definition token_start :: "nat option \<Rightarrow> nat" where
  "token_start e = (case e of None \<Rightarrow> 0 | Some p \<Rightarrow> p + 1)"

definition relax_unsupported :: "ConfigOptions \<Rightarrow> Status \<Rightarrow> Status" where
  "relax_unsupported config_options status =
     (if ignore_unsupported_options config_options \<and> IsNotSupported status then Status_OK else status)"

function ParseArray_loop ::
  "NextToken \<Rightarrow> 'e ParseFunc \<Rightarrow> ConfigOptions \<Rightarrow> char \<Rightarrow> string \<Rightarrow> string \<Rightarrow> nat
    \<Rightarrow> nat \<Rightarrow> nat \<Rightarrow> nat option \<Rightarrow> Status \<Rightarrow> 'e list \<Rightarrow> (nat \<times> nat \<times> nat option \<times> Status \<times> 'e list) option" where
  "ParseArray_loop next parse config_options separator name value kSize i start e status result =
     (if Status_ok status \<and> i < kSize \<and> start < length value \<and> e \<noteq> None
      then case next value separator start of (st, e', token) \<Rightarrow>
        if Status_ok st
        then case parse (config_options\<lparr>ignore_unsupported_options := False\<rparr>) name token (result ! i) of
               None \<Rightarrow> None
             | Some (st', v) \<Rightarrow>
                 ParseArray_loop next parse config_options separator name value kSize (i + 1)
                   (token_start e') e' (relax_unsupported config_options st') (result[i := v])
        else ParseArray_loop next parse config_options separator name value kSize (i + 1)
               (token_start e') e' st result
      else Some (i, start, e, status, result))"
  by pat_completeness auto

termination
  by (relation "measure (\<lambda>(_, _, _, _, _, _, kSize, i, _). kSize - i)") auto

declare ParseArray_loop.simps [simp del]

definition ParseArray ::
  "status_ctor \<Rightarrow> NextToken \<Rightarrow> 'e ParseFunc \<Rightarrow> char \<Rightarrow> nat \<Rightarrow> 'e list ParseFunc" where
  "ParseArray mk next parse separator kSize config_options name value result =
     (case ParseArray_loop next parse config_options separator name value kSize 0 0 (Some 0) Status_default result of
        None \<Rightarrow> None
      | Some (i, start, e, status, result') \<Rightarrow>
          if \<not> Status_ok status then Some (status, result')
          else if i < kSize
          then Some (Status_InvalidArgument_msg mk
                 (msg_bytes ''Serialized value has less elements than array size'') (msg_bytes name), result')
          else if start < length value \<and> e \<noteq> None
          then Some (Status_InvalidArgument_msg mk
                 (msg_bytes ''Serialized value has more elements than array size'') (msg_bytes name), result')
          else Some (status, result'))"

partial_function (option) ParseVector_loop ::
  "NextToken \<Rightarrow> 'e ParseFunc \<Rightarrow> 'e \<Rightarrow> ConfigOptions \<Rightarrow> char \<Rightarrow> string \<Rightarrow> string
    \<Rightarrow> nat \<Rightarrow> nat option \<Rightarrow> Status \<Rightarrow> 'e list \<Rightarrow> (Status \<times> 'e list) option" where
  "ParseVector_loop next parse elem0 config_options separator name value start e status result =
     (if Status_ok status \<and> start < length value \<and> e \<noteq> None
      then case next value separator start of (st, e', token) \<Rightarrow>
        if Status_ok st
        then parse (config_options\<lparr>ignore_unsupported_options := False\<rparr>) name token elem0 \<bind> (\<lambda>r.
               ParseVector_loop next parse elem0 config_options separator name value (token_start e') e'
                 (if Status_ok (fst r) then fst r else relax_unsupported config_options (fst r))
                 (if Status_ok (fst r) then result @ [snd r] else result))
        else ParseVector_loop next parse elem0 config_options separator name value (token_start e') e' st result
      else Some (status, result))"

definition ParseVector :: "NextToken \<Rightarrow> 'e ParseFunc \<Rightarrow> 'e \<Rightarrow> char \<Rightarrow> 'e list ParseFunc" where
  "ParseVector next parse elem0 separator config_options name value result =
     ParseVector_loop next parse elem0 config_options separator name value 0 (Some 0) Status_default []"

text \<open>
  Printing. \<open>Inl\<close> is the status of an element that fails to print; otherwise the text so far and the
  number of printed elements. \<open>SerializeArray\<close> and \<open>SerializeVector\<close> have the same body.
\<close>

definition quote_elem :: "char \<Rightarrow> string \<Rightarrow> string" where
  "quote_elem separator elem_str =
     (if separator \<in> set elem_str then ''{'' @ elem_str @ ''}'' else elem_str)"

fun Serialize_loop ::
  "'e SerializeFunc \<Rightarrow> ConfigOptions \<Rightarrow> char \<Rightarrow> string \<Rightarrow> 'e list \<Rightarrow> string \<Rightarrow> nat \<Rightarrow> Status + string \<times> nat" where
  "Serialize_loop ser embedded separator name [] result printed = Inr (result, printed)"
| "Serialize_loop ser embedded separator name (elem # elems) result printed =
     (case ser embedded name elem [] of (s, elem_str) \<Rightarrow>
        if \<not> Status_ok s then Inl s
        else if elem_str \<noteq> []
        then Serialize_loop ser embedded separator name elems
               (result @ (if 0 < printed then [separator] else []) @ quote_elem separator elem_str) (printed + 1)
        else Serialize_loop ser embedded separator name elems result printed)"

definition Serialize_finish :: "string \<Rightarrow> nat \<Rightarrow> string" where
  "Serialize_finish result printed =
     (if CHR ''='' \<in> set result then ''{'' @ result @ ''}''
      else if 1 < printed \<and> hd result = CHR ''{'' then ''{'' @ result @ ''}''
      else result)"

definition SerializeVector :: "'e SerializeFunc \<Rightarrow> char \<Rightarrow> 'e list SerializeFunc" where
  "SerializeVector ser separator config_options name vec value =
     (case Serialize_loop ser (config_options\<lparr>delimiter := '';''\<rparr>) separator name vec [] 0 of
        Inl s \<Rightarrow> (s, value)
      | Inr (result, printed) \<Rightarrow> (Status_OK, Serialize_finish result printed))"

definition SerializeArray :: "'e SerializeFunc \<Rightarrow> char \<Rightarrow> 'e list SerializeFunc" where
  "SerializeArray ser separator config_options name array value =
     (case Serialize_loop ser (config_options\<lparr>delimiter := '';''\<rparr>) separator name array [] 0 of
        Inl s \<Rightarrow> (s, value)
      | Inr (result, printed) \<Rightarrow> (Status_OK, Serialize_finish result printed))"

fun Equal_loop :: "'e EqualsFunc \<Rightarrow> ConfigOptions \<Rightarrow> string \<Rightarrow> 'e list \<Rightarrow> 'e list \<Rightarrow> string \<Rightarrow> bool \<times> string" where
  "Equal_loop eq config_options name (x # xs) (y # ys) mismatch =
     (case eq config_options name x y mismatch of (b, mismatch') \<Rightarrow>
        if \<not> b then (False, mismatch') else Equal_loop eq config_options name xs ys mismatch')"
| "Equal_loop eq config_options name _ _ mismatch = (True, mismatch)"

text \<open>Both arrays have the size of their type, so the assertions on the sizes hold.\<close>

definition ArraysAreEqual :: "'e EqualsFunc \<Rightarrow> 'e list EqualsFunc" where
  "ArraysAreEqual eq config_options name array1 array2 mismatch =
     Equal_loop eq config_options name array1 array2 mismatch"

definition VectorsAreEqual :: "'e EqualsFunc \<Rightarrow> 'e list EqualsFunc" where
  "VectorsAreEqual eq config_options name vec1 vec2 mismatch =
     (if length vec1 \<noteq> length vec2 then (False, name)
      else Equal_loop eq config_options name vec1 vec2 mismatch)"

section \<open>Factories\<close>

definition Enum_info ::
  "status_ctor \<Rightarrow> int \<Rightarrow> (string \<times> 'e) list option \<Rightarrow> OptionTypeFlags \<Rightarrow> OptionVerificationType \<Rightarrow> 'e OptionTypeInfo" where
  "Enum_info mk offset mapping flags verification =
     SetEqualsFunc (\<lambda>_ _ addr1 addr2 mismatch. (addr1 = addr2, mismatch))
       (SetSerializeFunc (\<lambda>_ name addr value.
          (case mapping of
             None \<Rightarrow> (Status_NotSupported_msg mk (msg_bytes ''No enum mapping '') (msg_bytes name), value)
           | Some m \<Rightarrow>
               (case SerializeEnum m addr value of (found, value') \<Rightarrow>
                  if found then (Status_OK, value')
                  else (Status_InvalidArgument_msg mk (msg_bytes ''No mapping for enum '') (msg_bytes name), value'))))
         (SetParseFunc (\<lambda>_ name value addr.
            (case mapping of
               None \<Rightarrow> Some (Status_NotSupported_msg mk (msg_bytes ''No enum mapping '') (msg_bytes name), addr)
             | Some m \<Rightarrow>
                 (case ParseEnum m value addr of (found, addr') \<Rightarrow>
                    if found then Some (Status_OK, addr')
                    else Some (Status_InvalidArgument_msg mk (msg_bytes ''No mapping for enum '') (msg_bytes name), addr'))))
           (OptionTypeInfo_new offset kEnum verification flags None None None)))"

definition Struct_info ::
  "(string \<Rightarrow> 'm \<Rightarrow> 'v ParseFunc) \<Rightarrow> (string \<Rightarrow> 'm \<Rightarrow> 'v SerializeFunc) \<Rightarrow> (string \<Rightarrow> 'm \<Rightarrow> 'v EqualsFunc)
    \<Rightarrow> string \<Rightarrow> 'm \<Rightarrow> int \<Rightarrow> OptionVerificationType \<Rightarrow> OptionTypeFlags \<Rightarrow> 'v OptionTypeInfo" where
  "Struct_info ParseStruct SerializeStruct StructsAreEqual struct_name struct_map offset verification flags =
     SetEqualsFunc (StructsAreEqual struct_name struct_map)
       (SetSerializeFunc (SerializeStruct struct_name struct_map)
         (SetParseFunc (ParseStruct struct_name struct_map)
           (OptionTypeInfo_new offset kStruct verification flags None None None)))"

definition Struct_info_parse ::
  "(string \<Rightarrow> 'm \<Rightarrow> 'v ParseFunc) \<Rightarrow> (string \<Rightarrow> 'm \<Rightarrow> 'v SerializeFunc) \<Rightarrow> (string \<Rightarrow> 'm \<Rightarrow> 'v EqualsFunc)
    \<Rightarrow> string \<Rightarrow> 'm \<Rightarrow> int \<Rightarrow> OptionVerificationType \<Rightarrow> OptionTypeFlags \<Rightarrow> 'v ParseFunc \<Rightarrow> 'v OptionTypeInfo" where
  "Struct_info_parse PS SS SE struct_name struct_map offset verification flags parse_func =
     SetParseFunc parse_func (Struct_info PS SS SE struct_name struct_map offset verification flags)"

definition Array_info ::
  "status_ctor \<Rightarrow> NextToken \<Rightarrow> ('e OptionTypeInfo \<Rightarrow> 'e ParseFunc) \<Rightarrow> ('e OptionTypeInfo \<Rightarrow> 'e SerializeFunc)
    \<Rightarrow> ('e OptionTypeInfo \<Rightarrow> 'e EqualsFunc) \<Rightarrow> nat \<Rightarrow> int \<Rightarrow> OptionVerificationType \<Rightarrow> OptionTypeFlags
    \<Rightarrow> 'e OptionTypeInfo \<Rightarrow> char \<Rightarrow> 'e list OptionTypeInfo" where
  "Array_info mk next Parse Serialize AreEqual kSize offset verification flags elem_info separator =
     SetEqualsFunc (ArraysAreEqual (AreEqual elem_info))
       (SetSerializeFunc (SerializeArray (Serialize elem_info) separator)
         (SetParseFunc (ParseArray mk next (Parse elem_info) separator kSize)
           (OptionTypeInfo_new offset kArray verification flags None None None)))"

definition Vector_info ::
  "NextToken \<Rightarrow> ('e OptionTypeInfo \<Rightarrow> 'e ParseFunc) \<Rightarrow> ('e OptionTypeInfo \<Rightarrow> 'e SerializeFunc)
    \<Rightarrow> ('e OptionTypeInfo \<Rightarrow> 'e EqualsFunc) \<Rightarrow> 'e \<Rightarrow> int \<Rightarrow> OptionVerificationType \<Rightarrow> OptionTypeFlags
    \<Rightarrow> 'e OptionTypeInfo \<Rightarrow> char \<Rightarrow> 'e list OptionTypeInfo" where
  "Vector_info next Parse Serialize AreEqual elem0 offset verification flags elem_info separator =
     SetEqualsFunc (VectorsAreEqual (AreEqual elem_info))
       (SetSerializeFunc (SerializeVector (Serialize elem_info) separator)
         (SetParseFunc (ParseVector next (Parse elem_info) elem0 separator)
           (OptionTypeInfo_new offset kVector verification flags None None None)))"

text \<open>
  A \<open>std::map\<close> of strings is its list of pairs in increasing order of the keys; \<open>emplace\<close> keeps an
  entry that is already there.
\<close>

fun map_emplace :: "string \<Rightarrow> string \<Rightarrow> (string \<times> string) list \<Rightarrow> (string \<times> string) list" where
  "map_emplace k v [] = [(k, v)]"
| "map_emplace k v (p # ps) =
     (if k < fst p then (k, v) # p # ps
      else if fst p < k then p # map_emplace k v ps
      else p # ps)"

partial_function (option) StringMap_loop ::
  "NextToken \<Rightarrow> (string \<Rightarrow> string) \<Rightarrow> char \<Rightarrow> char \<Rightarrow> string \<Rightarrow> nat \<Rightarrow> nat option \<Rightarrow> Status
    \<Rightarrow> (string \<times> string) list \<Rightarrow> (Status \<times> (string \<times> string) list) option" where
  "StringMap_loop next DecodeHex kv_separator item_separator value start e s m =
     (if Status_ok s \<and> start < length value \<and> e \<noteq> None
      then case next value item_separator start of (s', e', token) \<Rightarrow>
        if Status_ok s' \<and> token \<noteq> []
        then if kv_separator \<in> set token
             then StringMap_loop next DecodeHex kv_separator item_separator value (token_start e') e' s'
                    (map_emplace (DecodeHex (takeWhile (\<lambda>c. c \<noteq> kv_separator) token))
                                 (DecodeHex (drop 1 (dropWhile (\<lambda>c. c \<noteq> kv_separator) token))) m)
             else None
        else StringMap_loop next DecodeHex kv_separator item_separator value (token_start e') e' s' m
      else Some (s, m))"

definition StringMap_parse :: "NextToken \<Rightarrow> (string \<Rightarrow> string) \<Rightarrow> char \<Rightarrow> char \<Rightarrow> (string \<times> string) list ParseFunc" where
  "StringMap_parse next DecodeHex kv_separator item_separator opts name value addr =
     (case StringMap_loop next DecodeHex kv_separator item_separator value 0 (Some 0) Status_default [] of
        None \<Rightarrow> None
      | Some (s, m) \<Rightarrow> Some (s, if Status_ok s then m else addr))"

definition StringMap_serialize :: "(string \<Rightarrow> string) \<Rightarrow> char \<Rightarrow> char \<Rightarrow> (string \<times> string) list SerializeFunc" where
  "StringMap_serialize ToHex kv_separator item_separator opts name m value =
     (Status_OK, value @ ''{'' @
       concat (map (\<lambda>(k, v). ToHex k @ [kv_separator] @ ToHex v @ [item_separator]) m) @ ''}'')"

definition StringMap_info ::
  "NextToken \<Rightarrow> (string \<Rightarrow> string) \<Rightarrow> (string \<Rightarrow> string) \<Rightarrow> int \<Rightarrow> OptionVerificationType \<Rightarrow> OptionTypeFlags
    \<Rightarrow> char \<Rightarrow> char \<Rightarrow> (string \<times> string) list OptionTypeInfo" where
  "StringMap_info next DecodeHex ToHex offset verification flags kv_separator item_separator =
     SetEqualsFunc (\<lambda>_ _ addr1 addr2 mismatch. (addr1 = addr2, mismatch))
       (SetSerializeFunc (StringMap_serialize ToHex kv_separator item_separator)
         (SetParseFunc (StringMap_parse next DecodeHex kv_separator item_separator)
           (OptionTypeInfo_new offset kStringMap verification flags None None None)))"

abbreviation (input) kIdPropName :: string where "kIdPropName \<equiv> ''id''"
abbreviation (input) kIdPropSuffix :: string where "kIdPropSuffix \<equiv> ''.id''"

text \<open>The three pointer factories parse alike: an empty id resets the pointer.\<close>

definition custom_parse ::
  "(ConfigOptions \<Rightarrow> string \<Rightarrow> 'o option \<Rightarrow> Status \<times> 'o option) \<Rightarrow> 'o option ParseFunc" where
  "custom_parse CreateFromString opts name value ptr =
     (if name = kIdPropName \<and> value = [] then Some (Status_OK, None)
      else Some (CreateFromString opts value ptr))"

definition AsCustomSharedPtr ::
  "(ConfigOptions \<Rightarrow> string \<Rightarrow> 'o option \<Rightarrow> Status \<times> 'o option) \<Rightarrow> int \<Rightarrow> OptionVerificationType
    \<Rightarrow> OptionTypeFlags \<Rightarrow> 'o option SerializeFunc option \<Rightarrow> 'o option EqualsFunc option \<Rightarrow> 'o option OptionTypeInfo" where
  "AsCustomSharedPtr CreateFromString offset ovt flags serialize_func equals_func =
     OptionTypeInfo_new offset kCustomizable ovt (flags_or flags (flag_bits kShared))
       (Some (custom_parse CreateFromString)) serialize_func equals_func"

definition AsCustomUniquePtr ::
  "(ConfigOptions \<Rightarrow> string \<Rightarrow> 'o option \<Rightarrow> Status \<times> 'o option) \<Rightarrow> int \<Rightarrow> OptionVerificationType
    \<Rightarrow> OptionTypeFlags \<Rightarrow> 'o option OptionTypeInfo" where
  "AsCustomUniquePtr CreateFromString offset ovt flags =
     SetParseFunc (custom_parse CreateFromString)
       (OptionTypeInfo_new offset kCustomizable ovt (flags_or flags (flag_bits kUnique)) None None None)"

definition AsCustomUniquePtr_funcs ::
  "(ConfigOptions \<Rightarrow> string \<Rightarrow> 'o option \<Rightarrow> Status \<times> 'o option) \<Rightarrow> int \<Rightarrow> OptionVerificationType
    \<Rightarrow> OptionTypeFlags \<Rightarrow> 'o option SerializeFunc \<Rightarrow> 'o option EqualsFunc \<Rightarrow> 'o option OptionTypeInfo" where
  "AsCustomUniquePtr_funcs CreateFromString offset ovt flags serialize_func equals_func =
     SetEqualsFunc equals_func (SetSerializeFunc serialize_func (AsCustomUniquePtr CreateFromString offset ovt flags))"

definition AsCustomRawPtr ::
  "(ConfigOptions \<Rightarrow> string \<Rightarrow> 'o option \<Rightarrow> Status \<times> 'o option) \<Rightarrow> int \<Rightarrow> OptionVerificationType
    \<Rightarrow> OptionTypeFlags \<Rightarrow> 'o option OptionTypeInfo" where
  "AsCustomRawPtr CreateFromString offset ovt flags =
     SetParseFunc (custom_parse CreateFromString)
       (OptionTypeInfo_new offset kCustomizable ovt (flags_or flags (flag_bits kRawPointer)) None None None)"

definition AsCustomRawPtr_funcs ::
  "(ConfigOptions \<Rightarrow> string \<Rightarrow> 'o option \<Rightarrow> Status \<times> 'o option) \<Rightarrow> int \<Rightarrow> OptionVerificationType
    \<Rightarrow> OptionTypeFlags \<Rightarrow> 'o option SerializeFunc \<Rightarrow> 'o option EqualsFunc \<Rightarrow> 'o option OptionTypeInfo" where
  "AsCustomRawPtr_funcs CreateFromString offset ovt flags serialize_func equals_func =
     SetEqualsFunc equals_func (SetSerializeFunc serialize_func (AsCustomRawPtr CreateFromString offset ovt flags))"

section \<open>Tokens\<close>

text \<open>
  What the callers rely on of \<open>NextToken\<close>: the end of a token is where it stops, so behind its start,
  and a token, in braces when it has delimiters inside, is found up to the delimiter behind it.
\<close>

definition clean_token :: "string \<Rightarrow> bool" where
  "clean_token t \<longleftrightarrow> t \<noteq> [] \<and> (\<forall>c \<in> set t. c \<notin> {CHR ''{'', CHR ''}'', CHR '' ''} \<and> 32 < (of_char c :: nat))"

definition delimiter_ok :: "char \<Rightarrow> bool" where
  "delimiter_ok d \<longleftrightarrow> d \<notin> {CHR ''{'', CHR ''}'', CHR ''='', CHR '' ''} \<and> 32 < (of_char d :: nat)"

text \<open>What follows the first element in a printed list.\<close>

definition tail_text :: "char \<Rightarrow> ('e \<Rightarrow> string) \<Rightarrow> 'e list \<Rightarrow> string" where
  "tail_text d f xs = concat (map (\<lambda>x. d # quote_elem d (f x)) xs)"

definition printed_list :: "char \<Rightarrow> ('e \<Rightarrow> string) \<Rightarrow> 'e list \<Rightarrow> string" where
  "printed_list d f xs = (case xs of [] \<Rightarrow> [] | y # ys \<Rightarrow> quote_elem d (f y) @ tail_text d f ys)"

lemma tail_text_simps [simp]:
  "tail_text d f [] = []" "tail_text d f (x # xs) = d # quote_elem d (f x) @ tail_text d f xs"
  by (simp_all add: tail_text_def)

lemma printed_list_simps [simp]:
  "printed_list d f [] = []" "printed_list d f (x # xs) = quote_elem d (f x) @ tail_text d f xs"
  by (simp_all add: printed_list_def)

lemma Status_OK_simps [simp]: "Status_ok Status_OK" "Status_default = Status_OK" "\<not> IsNotSupported Status_OK"
  by (simp_all add: Status_ok_def Status_OK_def code_def Status_default_def status_is.simps)

lemma relax_OK [simp]: "relax_unsupported cfg Status_OK = Status_OK"
  by (simp add: relax_unsupported_def)

locale option_tokenizer =
  fixes "next" :: NextToken
  assumes next_advances: "next opts d start = (s, Some e, t) \<Longrightarrow> Status_ok s \<Longrightarrow> start \<le> e"
    and next_more: "clean_token t \<Longrightarrow> delimiter_ok d \<Longrightarrow>
      next (pre @ quote_elem d t @ d # rest) d (length pre) =
        (Status_OK, Some (length pre + length (quote_elem d t)), t)"
    and next_last: "clean_token t \<Longrightarrow> delimiter_ok d \<Longrightarrow>
      \<exists>e. next (pre @ quote_elem d t) d (length pre) = (Status_OK, e, t) \<and>
          (\<forall>p. e = Some p \<longrightarrow> length pre + length (quote_elem d t) \<le> p)"
begin

text \<open>The loop over the tokens of a vector comes to its end.\<close>

lemma ParseVector_loop_returns:
  assumes "\<And>cfg n v x. parse cfg n v x \<noteq> None"
  shows "\<exists>r. ParseVector_loop next parse elem0 cfg d name value start e status result = Some r"
proof (induction "length value - start" arbitrary: start e status result rule: less_induct)
  case less
  show ?case
  proof (cases "Status_ok status \<and> start < length value \<and> e \<noteq> None")
    case False
    then show ?thesis by (subst ParseVector_loop.simps) auto
  next
    case True
    obtain st e' token where nt: "next value d start = (st, e', token)" by (cases "next value d start") auto
    have rest: "\<exists>r. ParseVector_loop next parse elem0 cfg d name value (token_start e') e' st' result' = Some r"
      if "Status_ok st" for st' result'
    proof (cases e')
      case None
      then show ?thesis by (subst ParseVector_loop.simps) simp
    next
      case (Some p)
      then have "start \<le> p" using next_advances nt that by blast
      then have "length value - token_start e' < length value - start"
        using True Some by (simp add: token_start_def diff_less_mono2)
      then show ?thesis by (rule less)
    qed
    obtain r where r: "parse (cfg\<lparr>ignore_unsupported_options := False\<rparr>) name token elem0 = Some r"
      using assms by blast
    show ?thesis
    proof (cases "Status_ok st")
      case True
      with \<open>Status_ok status \<and> start < length value \<and> e \<noteq> None\<close> nt r rest show ?thesis
        by (subst ParseVector_loop.simps) simp
    next
      case False
      then have "ParseVector_loop next parse elem0 cfg d name value (token_start e') e' st result = Some (st, result)"
        by (subst ParseVector_loop.simps) simp
      with False True nt show ?thesis by (subst ParseVector_loop.simps) simp
    qed
  qed
qed

lemma ParseVector_loop_tokens:
  assumes d: "delimiter_ok d" and st: "Status_ok st"
    and elems: "\<forall>y \<in> set (x # xs). clean_token (f y) \<and>
      parse (cfg\<lparr>ignore_unsupported_options := False\<rparr>) name (f y) elem0 = Some (Status_OK, y)"
  shows "ParseVector_loop next parse elem0 cfg d name (pre @ quote_elem d (f x) @ tail_text d f xs)
      (length pre) (Some k) st acc = Some (Status_OK, acc @ x # xs)"
  using elems st
proof (induction xs arbitrary: x pre acc k st)
  case Nil
  obtain e where e: "next (pre @ quote_elem d (f x)) d (length pre) = (Status_OK, e, f x)"
    "\<forall>p. e = Some p \<longrightarrow> length pre + length (quote_elem d (f x)) \<le> p"
    using next_last [of "f x" d pre] Nil.prems(1) d by auto
  have q: "quote_elem d (f x) \<noteq> []" using Nil.prems(1) by (auto simp: quote_elem_def clean_token_def)
  have stop: "ParseVector_loop next parse elem0 cfg d name (pre @ quote_elem d (f x)) (token_start e) e Status_OK
      (acc @ [x]) = Some (Status_OK, acc @ [x])"
    using e(2) by (subst ParseVector_loop.simps) (auto simp: token_start_def split: option.splits)
  show ?case
    using Nil.prems e(1) q stop by (subst ParseVector_loop.simps) (simp)
next
  case (Cons y ys)
  let ?v = "pre @ quote_elem d (f x) @ tail_text d f (y # ys)"
  let ?pre = "pre @ quote_elem d (f x) @ [d]"
  have v: "?v = pre @ quote_elem d (f x) @ d # (quote_elem d (f y) @ tail_text d f ys)"
    and v': "?v = ?pre @ quote_elem d (f y) @ tail_text d f ys"
    by simp_all
  have nt: "next ?v d (length pre) = (Status_OK, Some (length pre + length (quote_elem d (f x))), f x)"
    unfolding v using next_more [of "f x" d] Cons.prems(1) d by simp
  have rest: "ParseVector_loop next parse elem0 cfg d name ?v (length ?pre)
      (Some (length pre + length (quote_elem d (f x)))) Status_OK (acc @ [x]) = Some (Status_OK, (acc @ [x]) @ y # ys)"
    unfolding v' by (rule Cons.IH) (use Cons.prems(1) in \<open>simp_all\<close>)
  have "length pre < length ?v" by simp
  with nt rest Cons.prems show ?case
    by (subst ParseVector_loop.simps) (simp add: token_start_def)
qed

lemma ParseArray_loop_tokens:
  assumes d: "delimiter_ok d" and st: "Status_ok st"
    and elems: "\<forall>y \<in> set (x # xs). clean_token (f y) \<and>
      (\<forall>v. parse (cfg\<lparr>ignore_unsupported_options := False\<rparr>) name (f y) v = Some (Status_OK, y))"
    and i: "i < kSize" "length result = kSize"
  shows "\<exists>start e. ParseArray_loop next parse cfg d name (pre @ quote_elem d (f x) @ tail_text d f xs) kSize i
      (length pre) (Some k) st result =
        Some (min kSize (i + length (x # xs)), start, e, Status_OK,
              take i result @ take (kSize - i) (x # xs) @ drop (i + length (x # xs)) result)
    \<and> (start < length (pre @ quote_elem d (f x) @ tail_text d f xs) \<and> e \<noteq> None \<longleftrightarrow> kSize < i + length (x # xs))"
  using elems st i
proof (induction xs arbitrary: x pre i k st result)
  case Nil
  obtain e where e: "next (pre @ quote_elem d (f x)) d (length pre) = (Status_OK, e, f x)"
    "\<forall>p. e = Some p \<longrightarrow> length pre + length (quote_elem d (f x)) \<le> p"
    using next_last [of "f x" d pre] Nil.prems(1) d by auto
  have q: "quote_elem d (f x) \<noteq> []" using Nil.prems(1) by (auto simp: quote_elem_def clean_token_def)
  have end_text: "\<not> (token_start e < length (pre @ quote_elem d (f x)) \<and> e \<noteq> None)"
    using e(2) by (cases e) (auto simp: token_start_def)
  have stop: "ParseArray_loop next parse cfg d name (pre @ quote_elem d (f x)) kSize (i + 1) (token_start e) e Status_OK
      (result[i := x]) = Some (i + 1, token_start e, e, Status_OK, result[i := x])"
    using end_text by (subst ParseArray_loop.simps) auto
  have upd: "result[i := x] = take i result @ x # drop (i + 1) result"
    using Nil.prems(3,4) by (simp add: upd_conv_take_nth_drop)
  show ?case
    using Nil.prems e(1) q stop end_text upd
    by (intro exI [of _ "token_start e"] exI [of _ e], subst ParseArray_loop.simps) auto
next
  case (Cons y ys)
  let ?v = "pre @ quote_elem d (f x) @ tail_text d f (y # ys)"
  let ?pre = "pre @ quote_elem d (f x) @ [d]" and ?e = "Some (length pre + length (quote_elem d (f x)))"
  have v: "?v = pre @ quote_elem d (f x) @ d # (quote_elem d (f y) @ tail_text d f ys)"
    and v': "?v = ?pre @ quote_elem d (f y) @ tail_text d f ys" by simp_all
  have nt: "next ?v d (length pre) = (Status_OK, ?e, f x)"
    unfolding v using next_more [of "f x" d] Cons.prems(1) d by simp
  have "length pre < length ?v" by simp
  then have step: "ParseArray_loop next parse cfg d name ?v kSize i (length pre) (Some k) st result =
      ParseArray_loop next parse cfg d name ?v kSize (i + 1) (length ?pre) ?e Status_OK (result[i := x])"
    using nt Cons.prems by (subst ParseArray_loop.simps) (simp add: token_start_def)
  have upd: "result[i := x] = take i result @ x # drop (i + 1) result"
    using Cons.prems(3,4) by (simp add: upd_conv_take_nth_drop)
  show ?case
  proof (cases "i + 1 < kSize")
    case True
    have "\<exists>start e. ParseArray_loop next parse cfg d name ?v kSize (i + 1) (length ?pre) ?e Status_OK (result[i := x]) =
        Some (min kSize (i + 1 + length (y # ys)), start, e, Status_OK, take (i + 1) (result[i := x]) @
          take (kSize - (i + 1)) (y # ys) @ drop (i + 1 + length (y # ys)) (result[i := x]))
      \<and> (start < length ?v \<and> e \<noteq> None \<longleftrightarrow> kSize < i + 1 + length (y # ys))"
      unfolding v' by (rule Cons.IH) (use Cons.prems True in simp_all)
    then obtain start e where IH: "ParseArray_loop next parse cfg d name ?v kSize (i + 1) (length ?pre) ?e Status_OK (result[i := x]) =
        Some (min kSize (i + 1 + length (y # ys)), start, e, Status_OK, take (i + 1) (result[i := x]) @
          take (kSize - (i + 1)) (y # ys) @ drop (i + 1 + length (y # ys)) (result[i := x]))"
      "start < length ?v \<and> e \<noteq> None \<longleftrightarrow> kSize < i + 1 + length (y # ys)" by blast
    have "take (kSize - i) (x # y # ys) = x # take (kSize - (i + 1)) (y # ys)"
      using True by (simp add: take_Cons')
    then have "take (i + 1) (result[i := x]) @ take (kSize - (i + 1)) (y # ys) @
          drop (i + 1 + length (y # ys)) (result[i := x]) =
        take i result @ take (kSize - i) (x # y # ys) @ drop (i + length (x # y # ys)) result"
      using Cons.prems(3,4) by (simp add: upd add.commute)
    with IH step show ?thesis by (intro exI [of _ start] exI [of _ e]) simp
  next
    case False
    then have k: "kSize = i + 1" using Cons.prems(3) by simp
    have q: "quote_elem d (f y) \<noteq> []" using Cons.prems(1) by (auto simp: quote_elem_def clean_token_def)
    have "ParseArray_loop next parse cfg d name ?v kSize (i + 1) (length ?pre) ?e Status_OK (result[i := x]) =
        Some (i + 1, length ?pre, ?e, Status_OK, result[i := x])"
      using k by (subst ParseArray_loop.simps) simp
    with step k upd q Cons.prems(4) show ?thesis
      by (intro exI [of _ "length ?pre"] exI [of _ ?e]) simp
  qed
qed

lemma ParseVector_tokens:
  assumes "delimiter_ok d"
    and "\<forall>y \<in> set xs. clean_token (f y) \<and>
      parse (cfg\<lparr>ignore_unsupported_options := False\<rparr>) name (f y) elem0 = Some (Status_OK, y)"
    and "value = (printed_list d f xs)"
  shows "ParseVector next parse elem0 d cfg name value result = Some (Status_OK, xs)"
proof (cases xs)
  case Nil
  then show ?thesis using assms(3) by (simp add: ParseVector_def ParseVector_loop.simps)
next
  case (Cons y ys)
  then show ?thesis
    using ParseVector_loop_tokens [of d Status_OK y ys f parse cfg name elem0 "[]" 0 "[]"] assms
    by (simp add: ParseVector_def)
qed

end

text \<open>Printing: the quoted elements with separators between them.\<close>

lemma Serialize_loop_tail:
  assumes "\<forall>y \<in> set xs. ser emb name y [] = (Status_OK, f y) \<and> f y \<noteq> []"
  shows "Serialize_loop ser emb d name xs acc (Suc n) = Inr (acc @ tail_text d f xs, Suc n + length xs)"
  using assms by (induction xs arbitrary: acc n) simp_all

lemma Serialize_loop_all:
  assumes "\<forall>y \<in> set xs. ser emb name y [] = (Status_OK, f y) \<and> f y \<noteq> []"
  shows "Serialize_loop ser emb d name xs [] 0 =
    Inr (printed_list d f xs, length xs)"
  using assms Serialize_loop_tail [of _ ser emb name f d _ 0] by (cases xs) auto

lemma no_equals_sign:
  assumes "delimiter_ok d" "\<forall>y \<in> set xs. CHR ''='' \<notin> set (f y)"
  shows "CHR ''='' \<notin> set (tail_text d f xs)"
  using assms by (induction xs) (auto simp: quote_elem_def delimiter_ok_def)

text \<open>No outer braces are needed when no element has an equals sign and the first is not quoted.\<close>

lemma Serialize_finish_plain:
  assumes "delimiter_ok d" "\<forall>y \<in> set xs. clean_token (f y) \<and> CHR ''='' \<notin> set (f y)"
    and "length xs \<le> 1 \<or> d \<notin> set (f (hd xs))"
  shows "Serialize_finish (printed_list d f xs) (length xs) =
    (printed_list d f xs)"
proof (cases xs)
  case Nil
  then show ?thesis by (simp add: Serialize_finish_def)
next
  case (Cons y ys)
  have "CHR ''='' \<notin> set (quote_elem d (f y) @ tail_text d f ys)"
    using assms(1,2) no_equals_sign [of d ys f] Cons by (auto simp: quote_elem_def)
  moreover have "hd (quote_elem d (f y) @ tail_text d f ys) \<noteq> CHR ''{''" if "1 < length xs"
    using assms(2,3) that Cons by (cases "f y") (auto simp: quote_elem_def clean_token_def)
  ultimately show ?thesis using Cons by (auto simp: Serialize_finish_def)
qed

lemma Serialize_printed:
  assumes "delimiter_ok d"
    and "\<forall>x \<in> set xs. ser (cfg\<lparr>delimiter := '';''\<rparr>) name x [] = (Status_OK, f x) \<and> clean_token (f x) \<and>
      CHR ''='' \<notin> set (f x)"
    and "length xs \<le> 1 \<or> d \<notin> set (f (hd xs))"
  shows "SerializeVector ser d cfg name xs value = (Status_OK, printed_list d f xs)"
    and "SerializeArray ser d cfg name xs value = (Status_OK, printed_list d f xs)"
proof -
  have "Serialize_loop ser (cfg\<lparr>delimiter := '';''\<rparr>) d name xs [] 0 = Inr (printed_list d f xs, length xs)"
    using assms(2) by (intro Serialize_loop_all) (auto simp: clean_token_def)
  moreover have "Serialize_finish (printed_list d f xs) (length xs) = printed_list d f xs"
    using assms by (intro Serialize_finish_plain) auto
  ultimately show "SerializeVector ser d cfg name xs value = (Status_OK, printed_list d f xs)"
    and "SerializeArray ser d cfg name xs value = (Status_OK, printed_list d f xs)"
    by (simp_all add: SerializeVector_def SerializeArray_def)
qed

text \<open>A tokenizer for braces without nesting, an instance of the contract.\<close>

definition brace_tokenizer :: NextToken where
  "brace_tokenizer opts d start =
     (let s = drop start opts;
          braced = (s \<noteq> [] \<and> hd s = CHR ''{'');
          t = (if braced then takeWhile (\<lambda>c. c \<noteq> CHR ''}'') (tl s) else takeWhile (\<lambda>c. c \<noteq> d) s);
          e = start + length t + (if braced then 2 else 0)
      in (Status_OK, if e < length opts then Some e else None, t))"

lemma takeWhile_all_append: "\<forall>c \<in> set t. P c \<Longrightarrow> \<not> P x \<Longrightarrow> takeWhile P (t @ x # ys) = t"
  by (induction t) auto

lemma brace_tokenizer_token:
  assumes "clean_token t" "delimiter_ok d" "rest = [] \<or> hd rest = d"
  shows "brace_tokenizer (pre @ quote_elem d t @ rest) d (length pre) =
    (Status_OK, if rest = [] then None else Some (length pre + length (quote_elem d t)), t)"
proof (cases "d \<in> set t")
  case True
  have "takeWhile (\<lambda>c. c \<noteq> CHR ''}'') (t @ CHR ''}'' # rest) = t"
    using assms(1) by (intro takeWhile_all_append) (auto simp: clean_token_def)
  with True show ?thesis by (simp add: brace_tokenizer_def quote_elem_def Let_def)
next
  case False
  have t: "t \<noteq> []" "hd t \<noteq> CHR ''{''" using assms(1) by (cases t; auto simp: clean_token_def)+
  have "takeWhile (\<lambda>c. c \<noteq> d) (t @ rest) = t"
    using False assms(3) by (cases rest) (auto simp: takeWhile_eq_all_conv intro!: takeWhile_all_append)
  with False t show ?thesis by (simp add: brace_tokenizer_def quote_elem_def Let_def)
qed

interpretation brace_tokens: option_tokenizer brace_tokenizer
proof
  show "start \<le> e" if "brace_tokenizer opts d start = (s, Some e, t)" for opts d start s e t
    using that by (auto simp: brace_tokenizer_def Let_def split: if_splits)
  show "brace_tokenizer (pre @ quote_elem d t @ d # rest) d (length pre) =
      (Status_OK, Some (length pre + length (quote_elem d t)), t)"
    if "clean_token t" "delimiter_ok d" for t d pre rest
    using brace_tokenizer_token [OF that, of "d # rest" pre] by simp
  show "\<exists>e. brace_tokenizer (pre @ quote_elem d t) d (length pre) = (Status_OK, e, t) \<and>
      (\<forall>p. e = Some p \<longrightarrow> length pre + length (quote_elem d t) \<le> p)"
    if "clean_token t" "delimiter_ok d" for t d pre
    using brace_tokenizer_token [OF that, of "[]" pre] by simp
qed

section \<open>Properties\<close>


definition text_parse :: "string ParseFunc" where
  "text_parse cfg name v x = Some (Status_OK, v)"

definition text_serialize :: "string SerializeFunc" where
  "text_serialize cfg name x v = (Status_OK, x)"


text \<open>
  Parsing a printed list into an array fails with an invalid argument when the list is shorter or
  longer than the array, and otherwise fills the array with the list.
\<close>

theorem array_parse_checks_length:
  assumes "option_tokenizer next" and "status_message_ctor mk" and "delimiter_ok d"
    and "\<forall>x \<in> set xs. \<exists>t. ser (cfg\<lparr>delimiter := '';''\<rparr>) name x [] = (Status_OK, t) \<and> clean_token t \<and>
      CHR ''='' \<notin> set t \<and>
      (\<forall>v. parse (cfg\<lparr>ignore_unsupported_options := False\<rparr>) name t v = Some (Status_OK, x))"
    and "length xs \<le> 1 \<or> d \<notin> set (snd (ser (cfg\<lparr>delimiter := '';''\<rparr>) name (hd xs) []))"
    and "length result = kSize" and "0 < kSize"
  shows "\<exists>str st arr. SerializeArray ser d cfg name xs value = (Status_OK, str) \<and>
    ParseArray mk next parse d kSize cfg name str result = Some (st, arr) \<and>
    (if length xs = kSize then st = Status_OK \<and> arr = xs else IsInvalidArgument st)"
proof -
  define f where "f x = snd (ser (cfg\<lparr>delimiter := '';''\<rparr>) name x [])" for x
  define str where "str = printed_list d f xs"
  have f: "\<forall>x \<in> set xs. ser (cfg\<lparr>delimiter := '';''\<rparr>) name x [] = (Status_OK, f x) \<and> clean_token (f x) \<and>
      CHR ''='' \<notin> set (f x)"
    "\<forall>x \<in> set xs. clean_token (f x) \<and>
      (\<forall>v. parse (cfg\<lparr>ignore_unsupported_options := False\<rparr>) name (f x) v = Some (Status_OK, x))"
    using assms(4) by (fastforce simp: f_def)+
  have ser: "SerializeArray ser d cfg name xs value = (Status_OK, str)"
    unfolding str_def using assms(3,5) f(1) by (intro Serialize_printed) (simp_all add: f_def)
  have bad: "IsInvalidArgument (Status_InvalidArgument_msg mk a b)" for a b
    using status_message_ctor.message_factories_recognised(4) [OF assms(2), of a b] by simp
  have "\<exists>st arr. ParseArray mk next parse d kSize cfg name str result = Some (st, arr) \<and>
    (if length xs = kSize then st = Status_OK \<and> arr = xs else IsInvalidArgument st)"
  proof (cases xs)
    case Nil
    then have "ParseArray_loop next parse cfg d name str kSize 0 0 (Some 0) Status_OK result =
        Some (0, 0, Some 0, Status_OK, result)"
      by (subst ParseArray_loop.simps) (simp add: str_def)
    with Nil assms(7) bad show ?thesis by (simp add: ParseArray_def)
  next
    case (Cons y ys)
    obtain start e where loop: "ParseArray_loop next parse cfg d name str kSize 0 0 (Some 0) Status_OK result =
        Some (min kSize (length xs), start, e, Status_OK, take kSize xs @ drop (length xs) result)"
      "start < length str \<and> e \<noteq> None \<longleftrightarrow> kSize < length xs"
      using option_tokenizer.ParseArray_loop_tokens [OF assms(1,3), of Status_OK y ys f parse cfg name 0 kSize result "[]" 0]
        f(2) assms(6,7) Cons by (auto simp: str_def)
    show ?thesis
      using loop bad assms(6) by (auto simp: ParseArray_def min_def)
  qed
  with ser show ?thesis by blast
qed

theorem array_parse_checks_length_witness:
  "\<exists>str st arr. SerializeArray text_serialize CHR '':'' ConfigOptions_default ''n'' [''1'', ''23''] [] = (Status_OK, str) \<and>
    ParseArray header_ctor brace_tokenizer text_parse CHR '':'' 2 ConfigOptions_default ''n'' str [''a'', ''b''] = Some (st, arr) \<and>
    (if length [''1'', ''23''] = (2 :: nat) then st = Status_OK \<and> arr = [''1'', ''23''] else IsInvalidArgument st)"
  by (rule array_parse_checks_length [OF brace_tokens.option_tokenizer_axioms header_message.status_message_ctor_axioms])
    (auto simp: text_serialize_def text_parse_def clean_token_def delimiter_ok_def)



lemma SerializeEnum_found: "e \<in> snd ` set m \<Longrightarrow> \<exists>k. SerializeEnum m e v = (True, k) \<and> (k, e) \<in> set m"
  by (induction m) auto

lemma SerializeEnum_missing: "e \<notin> snd ` set m \<Longrightarrow> SerializeEnum m e v = (False, v)"
  by (induction m) auto

text \<open>
  An enum described by a table of distinct names prints to a name that parses back to the same
  enumerator; a name or an enumerator that is not in the table gives an invalid argument.
\<close>

theorem enum_roundtrip:
  assumes "distinct (map fst m)"
  shows "let info = Enum_info mk offset (Some m) flags verification in
    \<exists>ser parse. serialize_func_f info = Some ser \<and> parse_func_f info = Some parse \<and>
    (if e \<in> snd ` set m
     then \<exists>k. ser cfg name e v = (Status_OK, k) \<and> parse cfg name k w = Some (Status_OK, e)
     else snd (ser cfg name e v) = v \<and> fst (ser cfg name e v) =
       Status_InvalidArgument_msg mk (msg_bytes ''No mapping for enum '') (msg_bytes name))"
proof -
  have "\<exists>k. SerializeEnum m e v = (True, k) \<and> ParseEnum m k w = (True, e)" if "e \<in> snd ` set m"
    using SerializeEnum_found [OF that, of v] assms(1) by (auto simp: ParseEnum_def)
  then show ?thesis
    using SerializeEnum_missing [of e m v]
    by (cases "e \<in> snd ` set m")
      (force simp: Let_def Enum_info_def OptionTypeInfo_new_def simp del: image_iff)+
qed

theorem enum_roundtrip_witness:
  "\<exists>ser parse. serialize_func_f (Enum_info header_ctor 0 (Some [(''lz4'', 4 :: nat), (''zstd'', 7)]) (flag_bits kMutable) kNormal) = Some ser \<and>
    parse_func_f (Enum_info header_ctor 0 (Some [(''lz4'', 4 :: nat), (''zstd'', 7)]) (flag_bits kMutable) kNormal) = Some parse \<and>
    (\<exists>k. ser ConfigOptions_default ''n'' 7 [] = (Status_OK, k) \<and>
       parse ConfigOptions_default ''n'' k 0 = Some (Status_OK, 7))"
  using enum_roundtrip [of "[(''lz4'', 4 :: nat), (''zstd'', 7)]" header_ctor 0 "flag_bits kMutable" kNormal 7 ConfigOptions_default "''n''" "[]" 0]
  by (simp add: Let_def)

text \<open>Flags combined by \<open>|\<close> are both enabled, and the level of comparison is that of the low byte.\<close>

lemma IsEnabled_or:
  "IsEnabled a (SetFlags (flags_or a b) info)" "IsEnabled b (SetFlags (flags_or a b) info)"
  by (auto simp: IsEnabled_def SetFlags_def flags_or_def flags_and_def bit_simps intro!: bit_word_eqI)

lemma GetSanityLevel_low_byte:
  assumes "\<not> IsDeprecated info" "\<not> IsAlias info" "flags_f info AND 0xFF = 0"
  shows "GetSanityLevel info = kSanityLevelExactMatch"
    and "GetSanityLevel (info\<lparr>flags_f := flags_or (flags_f info) (flag_bits kCompareLoose)\<rparr>) = kSanityLevelLooselyCompatible"
    and "GetSanityLevel (info\<lparr>flags_f := flags_or (flags_f info) (flag_bits kCompareNever)\<rparr>) = kSanityLevelNone"
  using assms
  by (simp_all add: GetSanityLevel_def IsDeprecated_def IsAlias_def IsEnabled_ver_def Let_def flags_and_def
      flags_or_def flag_defs bit.conj_disj_distrib2)

text \<open>Comparing vectors with an element comparison that decides equality decides equality.\<close>

lemma VectorsAreEqual_iff:
  assumes "\<And>x y mm. fst (eq cfg name x y mm) \<longleftrightarrow> x = y"
  shows "fst (VectorsAreEqual eq cfg name xs ys mm) \<longleftrightarrow> xs = ys"
proof -
  have "fst (Equal_loop eq cfg name xs ys mm) \<longleftrightarrow> xs = ys" if "length xs = length ys"
    using that
  proof (induction xs ys arbitrary: mm rule: list_induct2)
    case (Cons x xs y ys)
    then show ?case using assms [of x y mm] by (cases "eq cfg name x y mm") auto
  qed simp
  then show ?thesis by (auto simp: VectorsAreEqual_def)
qed

end
