(* ===== verification/Object_Registry.thy ===== *)
theory Object_Registry
  imports Option_Types
begin

text \<open>
  \<open>libs/rocksdb/utilities/object_registry.h\<close>: patterns for names, libraries of factories and the
  registry that finds a factory and creates or shares objects. \<open>Matches\<close> and \<open>GetManagedObject\<close> are
  declared only and are parameters, as are what an object answers for \<open>Name\<close> and \<open>GetId\<close> and which
  weak pointers can still be locked (\<open>alive\<close>). A type \<open>T\<close> is its name \<open>T::Type()\<close>. The mutexes guard
  whole operations, which are atomic here.
\<close>

section \<open>Patterns\<close>

datatype Quantifier = kMatchZeroOrMore | kMatchAtLeastOne | kMatchExact | kMatchInteger | kMatchDecimal

record PatternEntry =
  name_f :: string
  nlength_f :: nat
  names_f :: "string list"
  optional_f :: bool
  slength_f :: nat
  separators_f :: "(string \<times> Quantifier) list"

definition PatternEntry_new :: "string \<Rightarrow> bool \<Rightarrow> PatternEntry" where
  "PatternEntry_new name optional =
     \<lparr>name_f = name, nlength_f = length name, names_f = [], optional_f = optional, slength_f = 0,
      separators_f = []\<rparr>"

definition AddSuffix :: "string \<Rightarrow> PatternEntry \<Rightarrow> PatternEntry" where
  "AddSuffix suffix e =
     e\<lparr>separators_f := separators_f e @ [(suffix, kMatchExact)], slength_f := slength_f e + length suffix\<rparr>"

definition AddSeparator :: "string \<Rightarrow> bool \<Rightarrow> PatternEntry \<Rightarrow> PatternEntry" where
  "AddSeparator separator at_least_one e =
     (let e' = e\<lparr>slength_f := slength_f e + length separator\<rparr>
      in if at_least_one
         then e'\<lparr>separators_f := separators_f e' @ [(separator, kMatchAtLeastOne)], slength_f := slength_f e' + 1\<rparr>
         else e'\<lparr>separators_f := separators_f e' @ [(separator, kMatchZeroOrMore)]\<rparr>)"

definition AddNumber :: "string \<Rightarrow> bool \<Rightarrow> PatternEntry \<Rightarrow> PatternEntry" where
  "AddNumber separator is_int e =
     e\<lparr>separators_f := separators_f e @ [(separator, if is_int then kMatchInteger else kMatchDecimal)],
       slength_f := slength_f e + (length separator + 1)\<rparr>"

definition AnotherName :: "string \<Rightarrow> PatternEntry \<Rightarrow> PatternEntry" where
  "AnotherName alt e = e\<lparr>names_f := names_f e @ [alt]\<rparr>"

definition SetOptional :: "bool \<Rightarrow> PatternEntry \<Rightarrow> PatternEntry" where
  "SetOptional optional e = e\<lparr>optional_f := optional\<rparr>"

definition AsIndividualId :: "string \<Rightarrow> PatternEntry" where
  "AsIndividualId name = AddSeparator ''#'' True (AddSeparator ''@'' True (PatternEntry_new name True))"

abbreviation (input) pattern_Name :: "PatternEntry \<Rightarrow> string" where
  "pattern_Name e \<equiv> name_f e"

section \<open>Libraries\<close>

text \<open>A factory returns the object, what it put into the guard, and its error message.\<close>

type_synonym 'o FactoryFunc = "string \<Rightarrow> 'o option \<times> 'o option \<times> string"

record 'o FactoryEntry =
  entry_f :: PatternEntry
  factory_f :: "'o FactoryFunc"

definition FactoryEntry_Matches :: "(PatternEntry \<Rightarrow> string \<Rightarrow> bool) \<Rightarrow> string \<Rightarrow> 'o FactoryEntry \<Rightarrow> bool" where
  "FactoryEntry_Matches Matches target e \<longleftrightarrow> Matches (entry_f e) target"

definition NewFactoryObject :: "'o FactoryEntry \<Rightarrow> string \<Rightarrow> 'o option \<times> 'o option \<times> string" where
  "NewFactoryObject e target = factory_f e target"

record 'o ObjectLibrary =
  factories_f :: "string \<Rightarrow> 'o FactoryEntry list"
  id_f :: string

definition ObjectLibrary_new :: "string \<Rightarrow> 'o ObjectLibrary" where
  "ObjectLibrary_new oid = \<lparr>factories_f = (\<lambda>_. []), id_f = oid\<rparr>"

abbreviation (input) GetID :: "'o ObjectLibrary \<Rightarrow> string" where
  "GetID lib \<equiv> id_f lib"

fun find_entry :: "(PatternEntry \<Rightarrow> string \<Rightarrow> bool) \<Rightarrow> string \<Rightarrow> 'o FactoryEntry list \<Rightarrow> 'o FactoryFunc option" where
  "find_entry Matches target [] = None"
| "find_entry Matches target (e # es) =
     (if FactoryEntry_Matches Matches target e then Some (factory_f e) else find_entry Matches target es)"

definition library_FindFactory ::
  "(PatternEntry \<Rightarrow> string \<Rightarrow> bool) \<Rightarrow> string \<Rightarrow> string \<Rightarrow> 'o ObjectLibrary \<Rightarrow> 'o FactoryFunc option" where
  "library_FindFactory Matches type target lib = find_entry Matches target (factories_f lib type)"

definition AddFactoryEntry :: "string \<Rightarrow> 'o FactoryEntry \<Rightarrow> 'o ObjectLibrary \<Rightarrow> 'o ObjectLibrary" where
  "AddFactoryEntry type entry lib =
     lib\<lparr>factories_f := (factories_f lib)(type := factories_f lib type @ [entry])\<rparr>"

definition AddFactory_name :: "string \<Rightarrow> string \<Rightarrow> 'o FactoryFunc \<Rightarrow> 'o ObjectLibrary \<Rightarrow> 'o ObjectLibrary" where
  "AddFactory_name type name func lib =
     AddFactoryEntry type \<lparr>entry_f = PatternEntry_new name True, factory_f = func\<rparr> lib"

definition AddFactory :: "string \<Rightarrow> PatternEntry \<Rightarrow> 'o FactoryFunc \<Rightarrow> 'o ObjectLibrary \<Rightarrow> 'o ObjectLibrary" where
  "AddFactory type entry func lib = AddFactoryEntry type \<lparr>entry_f = entry, factory_f = func\<rparr> lib"

definition Register ::
  "('o ObjectLibrary \<Rightarrow> string \<Rightarrow> int \<times> 'o ObjectLibrary) \<Rightarrow> string \<Rightarrow> 'o ObjectLibrary \<Rightarrow> int \<times> 'o ObjectLibrary" where
  "Register registrar arg lib = registrar lib arg"

section \<open>Registries\<close>

datatype 'o ObjectRegistry =
  ObjectRegistry (libraries_f: "'o ObjectLibrary list") (managed_objects_f: "string \<Rightarrow> 'o option")
    (parent_f: "'o ObjectRegistry option")

definition ObjectRegistry_new :: "'o ObjectRegistry option \<Rightarrow> 'o ObjectRegistry" where
  "ObjectRegistry_new parent = ObjectRegistry [] (\<lambda>_. None) parent"

definition AddLibrary :: "'o ObjectLibrary \<Rightarrow> 'o ObjectRegistry \<Rightarrow> 'o ObjectRegistry" where
  "AddLibrary library reg = ObjectRegistry (libraries_f reg @ [library]) (managed_objects_f reg) (parent_f reg)"

definition AddLibrary_id :: "string \<Rightarrow> 'o ObjectRegistry \<Rightarrow> 'o ObjectLibrary \<times> 'o ObjectRegistry" where
  "AddLibrary_id oid reg = (let library = ObjectLibrary_new oid in (library, AddLibrary library reg))"

text \<open>The registered library is shared with the registry, so what the registrar adds to it is seen there.\<close>

definition AddLibrary_registrar ::
  "string \<Rightarrow> ('o ObjectLibrary \<Rightarrow> string \<Rightarrow> int \<times> 'o ObjectLibrary) \<Rightarrow> string \<Rightarrow> 'o ObjectRegistry \<Rightarrow> 'o ObjectRegistry" where
  "AddLibrary_registrar oid registrar arg reg =
     AddLibrary (snd (Register registrar arg (ObjectLibrary_new oid))) reg"

fun first_factory ::
  "(PatternEntry \<Rightarrow> string \<Rightarrow> bool) \<Rightarrow> string \<Rightarrow> string \<Rightarrow> 'o ObjectLibrary list \<Rightarrow> 'o FactoryFunc option" where
  "first_factory Matches type name [] = None"
| "first_factory Matches type name (lib # libs) =
     (case library_FindFactory Matches type name lib of
        Some factory \<Rightarrow> Some factory
      | None \<Rightarrow> first_factory Matches type name libs)"

primrec FindFactory ::
  "(PatternEntry \<Rightarrow> string \<Rightarrow> bool) \<Rightarrow> string \<Rightarrow> string \<Rightarrow> 'o ObjectRegistry \<Rightarrow> 'o FactoryFunc option" where
  "FindFactory Matches type name (ObjectRegistry libs managed parent) =
     (case first_factory Matches type name (rev libs) of
        Some factory \<Rightarrow> Some factory
      | None \<Rightarrow> (case map_option (FindFactory Matches type name) parent of None \<Rightarrow> None | Some r \<Rightarrow> r))"

text \<open>\<open>NewObject\<close> returns the status, the object and the guard (\<open>guard\<close> is never null).\<close>

definition NewObject ::
  "status_ctor \<Rightarrow> (PatternEntry \<Rightarrow> string \<Rightarrow> bool) \<Rightarrow> string \<Rightarrow> 'o ObjectRegistry \<Rightarrow> string \<Rightarrow> 'o option
    \<Rightarrow> Status \<times> 'o option \<times> 'o option" where
  "NewObject mk Matches type reg target object0 =
     (case FindFactory Matches type target reg of
        Some factory \<Rightarrow>
          (case factory target of (object, guard, errmsg) \<Rightarrow>
             if object \<noteq> None then (Status_OK, object, guard)
             else if errmsg = []
             then (Status_InvalidArgument_msg mk (msg_bytes (''Could not load '' @ type)) (msg_bytes target), object, guard)
             else (Status_InvalidArgument_msg mk (msg_bytes errmsg) (msg_bytes target), object, guard))
      | None \<Rightarrow>
          (Status_NotSupported_msg mk (msg_bytes (''Could not load '' @ type)) (msg_bytes target), object0, None))"

definition NewUniqueObject ::
  "status_ctor \<Rightarrow> (PatternEntry \<Rightarrow> string \<Rightarrow> bool) \<Rightarrow> string \<Rightarrow> 'o ObjectRegistry \<Rightarrow> string \<Rightarrow> 'o option \<Rightarrow> Status \<times> 'o option" where
  "NewUniqueObject mk Matches type reg target result =
     (case NewObject mk Matches type reg target None of (s, ptr, guard) \<Rightarrow>
        if \<not> Status_ok s then (s, result)
        else if guard \<noteq> None then (Status_OK, guard)
        else (Status_InvalidArgument_msg mk
                (msg_bytes (''Cannot make a unique '' @ type @ '' from unguarded one '')) (msg_bytes target), result))"

definition NewSharedObject ::
  "status_ctor \<Rightarrow> (PatternEntry \<Rightarrow> string \<Rightarrow> bool) \<Rightarrow> string \<Rightarrow> 'o ObjectRegistry \<Rightarrow> string \<Rightarrow> 'o option \<Rightarrow> Status \<times> 'o option" where
  "NewSharedObject mk Matches type reg target result =
     (case NewObject mk Matches type reg target None of (s, ptr, guard) \<Rightarrow>
        if \<not> Status_ok s then (s, result)
        else if guard \<noteq> None then (Status_OK, guard)
        else (Status_InvalidArgument_msg mk
                (msg_bytes (''Cannot make a shared '' @ type @ '' from unguarded one '')) (msg_bytes target), result))"

definition NewStaticObject ::
  "status_ctor \<Rightarrow> (PatternEntry \<Rightarrow> string \<Rightarrow> bool) \<Rightarrow> string \<Rightarrow> 'o ObjectRegistry \<Rightarrow> string \<Rightarrow> 'o option \<Rightarrow> Status \<times> 'o option" where
  "NewStaticObject mk Matches type reg target result =
     (case NewObject mk Matches type reg target None of (s, ptr, guard) \<Rightarrow>
        if \<not> Status_ok s then (s, result)
        else if guard \<noteq> None
        then (Status_InvalidArgument_msg mk
                (msg_bytes (''Cannot make a static '' @ type @ '' from a guarded one '')) (msg_bytes target), result)
        else (Status_OK, ptr))"

definition ToManagedObjectKey :: "string \<Rightarrow> string \<Rightarrow> string" where
  "ToManagedObjectKey type oid = type @ ''://'' @ oid"

definition set_managed :: "string \<Rightarrow> 'o \<Rightarrow> 'o ObjectRegistry \<Rightarrow> 'o ObjectRegistry" where
  "set_managed key c reg = ObjectRegistry (libraries_f reg) ((managed_objects_f reg)(key \<mapsto> c)) (parent_f reg)"

definition SetManagedObject_obj ::
  "(string \<Rightarrow> string \<Rightarrow> 'o \<Rightarrow> 'o ObjectRegistry \<Rightarrow> Status \<times> 'o ObjectRegistry) \<Rightarrow> ('o \<Rightarrow> string) \<Rightarrow> string \<Rightarrow> 'o
    \<Rightarrow> 'o ObjectRegistry \<Rightarrow> Status \<times> 'o ObjectRegistry" where
  "SetManagedObject_obj SetManagedObject GetId type object reg = SetManagedObject type (GetId object) object reg"

definition ListManagedObjects ::
  "('o ObjectRegistry \<Rightarrow> string \<Rightarrow> string \<Rightarrow> Status \<times> 'o list) \<Rightarrow> string \<Rightarrow> string \<Rightarrow> 'o ObjectRegistry \<Rightarrow> Status \<times> 'o list" where
  "ListManagedObjects List_untyped type oid reg =
     (case List_untyped reg type oid of (s, customizables) \<Rightarrow> (s, if Status_ok s then customizables else []))"

text \<open>
  The part of \<open>GetOrCreateManagedObject\<close> that makes a new object, configures it, and registers it
  under the given id and under its own, unless they are the name of its class.
\<close>

definition create_managed ::
  "status_ctor \<Rightarrow> (PatternEntry \<Rightarrow> string \<Rightarrow> bool) \<Rightarrow> ('o \<Rightarrow> string) \<Rightarrow> ('o \<Rightarrow> string) \<Rightarrow> string
    \<Rightarrow> ('o \<Rightarrow> Status \<times> 'o) option \<Rightarrow> string \<Rightarrow> 'o option \<Rightarrow> 'o ObjectRegistry \<Rightarrow> Status \<times> 'o option \<times> 'o ObjectRegistry" where
  "create_managed mk Matches Name GetId type cfunc oid result reg =
     (case NewSharedObject mk Matches type reg oid None of (s, object) \<Rightarrow>
        let (s', object') =
          (case (cfunc, object) of
             (Some f, Some x) \<Rightarrow> if Status_ok s then (case f x of (s2, x') \<Rightarrow> (s2, Some x')) else (s, object)
           | _ \<Rightarrow> (s, object))
        in case object' of
             Some c \<Rightarrow>
               if Status_ok s' then
                 let reg1 = (if oid \<noteq> Name c then set_managed (ToManagedObjectKey type oid) c reg else reg);
                     reg2 = (if oid \<noteq> GetId c \<and> GetId c \<noteq> Name c
                             then set_managed (ToManagedObjectKey type (GetId c)) c reg1 else reg1)
                 in (s', Some c, reg2)
               else (s', result, reg)
           | None \<Rightarrow> (s', result, reg))"

text \<open>
  \<open>GetOrCreateManagedObject\<close> returns the status, what is written to the result, and the registry. The
  configuration function may change the object.
\<close>

definition GetOrCreateManagedObject ::
  "status_ctor \<Rightarrow> (PatternEntry \<Rightarrow> string \<Rightarrow> bool) \<Rightarrow> ('o ObjectRegistry \<Rightarrow> string \<Rightarrow> string \<Rightarrow> 'o option)
    \<Rightarrow> ('o \<Rightarrow> bool) \<Rightarrow> ('o \<Rightarrow> string) \<Rightarrow> ('o \<Rightarrow> string) \<Rightarrow> string \<Rightarrow> ('o \<Rightarrow> Status \<times> 'o) option
    \<Rightarrow> string \<Rightarrow> 'o option \<Rightarrow> 'o ObjectRegistry \<Rightarrow> Status \<times> 'o option \<times> 'o ObjectRegistry" where
  "GetOrCreateManagedObject mk Matches GetManagedObject alive Name GetId type cfunc oid result reg =
     (case (case parent_f reg of None \<Rightarrow> None | Some parent \<Rightarrow> GetManagedObject parent type oid) of
        Some object \<Rightarrow> (Status_OK, Some object, reg)
      | None \<Rightarrow>
          let key = ToManagedObjectKey type oid in
          (case managed_objects_f reg key of
             Some object \<Rightarrow> if alive object then (Status_OK, Some object, reg) else
               create_managed mk Matches Name GetId type cfunc oid result reg
           | None \<Rightarrow> create_managed mk Matches Name GetId type cfunc oid result reg))"

section \<open>Finding factories\<close>

text \<open>The order in which the entries for a type are tried.\<close>

primrec search_order :: "string \<Rightarrow> 'o ObjectRegistry \<Rightarrow> 'o FactoryEntry list" where
  "search_order type (ObjectRegistry libs managed parent) =
     concat (map (\<lambda>lib. factories_f lib type) (rev libs)) @
     (case map_option (search_order type) parent of None \<Rightarrow> [] | Some es \<Rightarrow> es)"

lemma find_entry_find:
  "find_entry Matches target es = map_option factory_f (find (\<lambda>e. Matches (entry_f e) target) es)"
  by (induction es) (auto simp: FactoryEntry_Matches_def)

lemma find_append: "find P (xs @ ys) = (case find P xs of Some x \<Rightarrow> Some x | None \<Rightarrow> find P ys)"
  by (induction xs) auto

lemma first_factory_find:
  "first_factory Matches type target libs =
     map_option factory_f (find (\<lambda>e. Matches (entry_f e) target) (concat (map (\<lambda>lib. factories_f lib type) libs)))"
  by (induction libs) (auto simp: library_FindFactory_def find_entry_find find_append split: option.splits)

lemma FindFactory_search:
  "FindFactory Matches type target reg =
     map_option factory_f (find (\<lambda>e. Matches (entry_f e) target) (search_order type reg))"
proof (induction reg)
  case (ObjectRegistry libs managed parent)
  then show ?case by (cases parent) (auto simp: first_factory_find find_append split: option.splits)
qed

lemma create_managed_stores:
  assumes "create_managed mk Matches Name GetId type cfunc oid result reg = (s, Some c, reg')" "Status_ok s"
    and "oid \<noteq> Name c" "result = None"
  shows "managed_objects_f reg' (ToManagedObjectKey type oid) = Some c \<and> parent_f reg' = parent_f reg"
  using assms
  by (auto simp: create_managed_def set_managed_def Let_def ToManagedObjectKey_def
      split: prod.splits option.splits if_splits)

lemma create_managed_parent:
  "parent_f (snd (snd (create_managed mk Matches Name GetId type cfunc oid result reg))) = parent_f reg"
  by (auto simp: create_managed_def set_managed_def Let_def split: prod.splits option.splits)

text \<open>The minimum length counted while a pattern is built.\<close>

fun separator_length :: "string \<times> Quantifier \<Rightarrow> nat" where
  "separator_length (sep, kMatchZeroOrMore) = length sep"
| "separator_length (sep, kMatchAtLeastOne) = length sep + 1"
| "separator_length (sep, kMatchExact) = length sep"
| "separator_length (sep, kMatchInteger) = length sep + 1"
| "separator_length (sep, kMatchDecimal) = length sep + 1"

definition pattern_ok :: "PatternEntry \<Rightarrow> bool" where
  "pattern_ok e \<longleftrightarrow> nlength_f e = length (name_f e) \<and> slength_f e = sum_list (map separator_length (separators_f e))"

lemma pattern_ok_operations:
  "pattern_ok (PatternEntry_new name opt)"
  "pattern_ok e \<Longrightarrow> pattern_ok (AddSuffix s e)" "pattern_ok e \<Longrightarrow> pattern_ok (AddSeparator s b e)"
  "pattern_ok e \<Longrightarrow> pattern_ok (AddNumber s b e)" "pattern_ok e \<Longrightarrow> pattern_ok (AnotherName s e)"
  "pattern_ok e \<Longrightarrow> pattern_ok (SetOptional b e)" "pattern_ok (AsIndividualId name)"
  by (simp_all add: pattern_ok_def PatternEntry_new_def AddSuffix_def AddSeparator_def AddNumber_def
      AnotherName_def SetOptional_def AsIndividualId_def Let_def)

text \<open>When an object is made, exactly one of the shared and the static form of the request succeeds.\<close>

lemma shared_static_exclusive:
  assumes "status_message_ctor mk"
    and "Status_ok (fst (NewObject mk Matches type reg target None))"
  shows "Status_ok (fst (NewSharedObject mk Matches type reg target r)) \<longleftrightarrow>
      IsInvalidArgument (fst (NewStaticObject mk Matches type reg target r'))"
proof -
  have "IsInvalidArgument (Status_InvalidArgument_msg mk a b)" for a b
    using status_message_ctor.message_factories_recognised(4) [OF assms(1), of a b] by simp
  then show ?thesis
    using assms(2) by (auto simp: NewSharedObject_def NewStaticObject_def Status_ok_def status_is.simps
        Status_OK_def code_def Status_default_def simp del: Status_OK_simps split: prod.splits)
qed

text \<open>A second request for an id finds the object of the first.\<close>

lemma managed_again:
  assumes "GetOrCreateManagedObject mk Matches GetManagedObject alive Name GetId type cfunc oid None reg = (s, Some c, reg')"
    and "Status_ok s" and "oid \<noteq> Name c" and "alive c"
  shows "GetOrCreateManagedObject mk Matches GetManagedObject alive Name GetId type cfunc' oid result reg' =
    (Status_OK, Some c, reg')"
proof (cases "case parent_f reg of None \<Rightarrow> None | Some parent \<Rightarrow> GetManagedObject parent type oid")
  case (Some object)
  then show ?thesis using assms(1) by (auto simp: GetOrCreateManagedObject_def split: option.splits)
next
  case None
  let ?key = "ToManagedObjectKey type oid"
  have "managed_objects_f reg' ?key = Some c \<and> parent_f reg' = parent_f reg"
    using assms None create_managed_stores [of mk Matches Name GetId type cfunc oid None reg s c reg']
    by (auto simp: GetOrCreateManagedObject_def Let_def split: option.splits if_splits)
  then show ?thesis using None assms(4) by (simp add: GetOrCreateManagedObject_def Let_def)
qed

section \<open>Properties\<close>

text \<open>
  C34: the registry uses the first entry that matches, in the order: the libraries from the last added
  to the first, within a library in the order of registration, then the parent registry.
\<close>

theorem FindFactory_first_match:
  "FindFactory Matches type target reg =
     (case find (\<lambda>e. Matches (entry_f e) target) (search_order type reg) of
        None \<Rightarrow> None | Some e \<Rightarrow> Some (factory_f e))"
  by (simp add: FindFactory_search map_option_case)

text \<open>
  An object that was created for an id other than the name of its class is shared: as long as it
  is alive, a second request for the id returns the same object and changes nothing.
\<close>

theorem managed_object_shared:
  assumes "GetOrCreateManagedObject mk Matches GetManagedObject alive Name GetId type cfunc oid None reg = (s, Some c, reg')"
    and "Status_ok s" and "oid \<noteq> Name c" and "alive c"
  shows "GetOrCreateManagedObject mk Matches GetManagedObject alive Name GetId type cfunc' oid result reg' =
    (Status_OK, Some c, reg')"
  using assms by (rule managed_again)

definition one_factory_registry :: "nat ObjectRegistry" where
  "one_factory_registry =
     AddLibrary (AddFactory ''Cache'' (AsIndividualId ''LRU'') (\<lambda>target. (Some 7, Some 7, [])) (ObjectLibrary_new ''lib''))
       (ObjectRegistry_new None)"

theorem managed_object_shared_witness:
  "\<exists>reg'. GetOrCreateManagedObject header_ctor (\<lambda>e t. True) (\<lambda>_ _ _. None) (\<lambda>_. True) (\<lambda>_. ''LRU'') (\<lambda>_. ''LRU@7#1'')
      ''Cache'' None ''LRU@1'' None one_factory_registry = (Status_OK, Some 7, reg') \<and>
    GetOrCreateManagedObject header_ctor (\<lambda>e t. True) (\<lambda>_ _ _. None) (\<lambda>_. True) (\<lambda>_. ''LRU'') (\<lambda>_. ''LRU@7#1'')
      ''Cache'' None ''LRU@1'' None reg' = (Status_OK, Some 7, reg')"
proof -
  obtain reg' where "GetOrCreateManagedObject header_ctor (\<lambda>e t. True) (\<lambda>_ _ _. None) (\<lambda>_. True) (\<lambda>_. ''LRU'') (\<lambda>_. ''LRU@7#1'')
      ''Cache'' None ''LRU@1'' None one_factory_registry = (Status_OK, Some 7, reg')"
    by (simp add: GetOrCreateManagedObject_def create_managed_def NewSharedObject_def NewObject_def Let_def
        one_factory_registry_def ObjectRegistry_new_def AddLibrary_def AddFactory_def AddFactoryEntry_def
        ObjectLibrary_new_def library_FindFactory_def FactoryEntry_Matches_def)
  with managed_object_shared [OF this] show ?thesis by auto
qed

end
