(* ===== verification/Wide_Columns.thy ===== *)
theory Wide_Columns
  imports Pinnable Statuses
begin

text \<open>
  \<open>libs/rocksdb/wide_columns.h\<close>: a wide column and \<open>PinnableWideColumns\<close>, a value together with the
  list of columns that point into it. A name or value of a column is a view: a base pointer, an
  offset and a length. The move assignment of \<open>PinnableSlice\<close> and \<open>CreateIndexForWideColumns\<close> are
  declared only: parameters \<open>mv\<close>, which returns the new target and the source, and \<open>idx\<close>, which
  gives a status and the positions of the names and values in the bytes of a value. Whether a string keeps its storage when it is
  moved is the parameter \<open>stays\<close>.
\<close>

section \<open>Columns\<close>

record view =
  vbase_f :: pin_data
  voff_f :: nat
  vlen_f :: nat

definition view_bytes :: "mem \<Rightarrow> bytes \<Rightarrow> view \<Rightarrow> bytes" where
  "view_bytes m buf v = (case vbase_f v of
       Ext q \<Rightarrow> mem_read m (ptr_add q (voff_f v)) (vlen_f v)
     | InBuf \<Rightarrow> take (vlen_f v) (drop (voff_f v) buf))"

record WideColumn =
  wname_f :: view
  wvalue_f :: view

definition WideColumn_new :: "view \<Rightarrow> view \<Rightarrow> WideColumn" where
  "WideColumn_new name value = \<lparr>wname_f = name, wvalue_f = value\<rparr>"

definition WideColumn_eq :: "mem \<Rightarrow> bytes \<Rightarrow> bytes \<Rightarrow> WideColumn \<Rightarrow> WideColumn \<Rightarrow> bool" where
  "WideColumn_eq m buf1 buf2 lhs rhs \<longleftrightarrow>
     view_bytes m buf1 (wname_f lhs) = view_bytes m buf2 (wname_f rhs) \<and>
     view_bytes m buf1 (wvalue_f lhs) = view_bytes m buf2 (wvalue_f rhs)"

abbreviation (input) WideColumn_neq :: "mem \<Rightarrow> bytes \<Rightarrow> bytes \<Rightarrow> WideColumn \<Rightarrow> WideColumn \<Rightarrow> bool" where
  "WideColumn_neq m buf1 buf2 lhs rhs \<equiv> \<not> WideColumn_eq m buf1 buf2 lhs rhs"

text \<open>Printing: \<open>render\<close> is \<open>ToString\<close>, in hexadecimal when the stream is.\<close>

definition WideColumn_print :: "(bool \<Rightarrow> bytes \<Rightarrow> string) \<Rightarrow> bool \<Rightarrow> mem \<Rightarrow> bytes \<Rightarrow> WideColumn \<Rightarrow> string" where
  "WideColumn_print render hex m buf c =
     (let part = (\<lambda>v. if vlen_f v \<noteq> 0
                      then (if hex then ''0x'' else []) @ render hex (view_bytes m buf v) else [])
      in part (wname_f c) @ '':'' @ part (wvalue_f c))"

definition kDefaultWideColumnName :: view where
  "kDefaultWideColumnName = \<lparr>vbase_f = Ext empty_literal, voff_f = 0, vlen_f = 0\<rparr>"

section \<open>The collection\<close>

record PinnableWideColumns =
  value_f :: PinnableSlice
  columns_f :: "WideColumn list"

definition PinnableWideColumns_new :: PinnableWideColumns where
  "PinnableWideColumns_new = \<lparr>value_f = PinnableSlice_new [], columns_f = []\<rparr>"

definition columns :: "PinnableWideColumns \<Rightarrow> WideColumn list" where
  "columns w = columns_f w"

abbreviation (input) serialized_size :: "PinnableWideColumns \<Rightarrow> size_t" where
  "serialized_size w \<equiv> psize_f (value_f w)"

definition wide_Reset :: "PinnableWideColumns \<Rightarrow> Cleanup list \<times> PinnableWideColumns" where
  "wide_Reset w = (case PinnableSlice_Reset (value_f w) of (calls, v) \<Rightarrow> (calls, \<lparr>value_f = v, columns_f = []\<rparr>))"

definition value_view :: "PinnableSlice \<Rightarrow> view" where
  "value_view p = \<lparr>vbase_f = pdata_f p, voff_f = 0, vlen_f = unat (psize_f p)\<rparr>"

definition CreateIndexForPlainValue :: "PinnableWideColumns \<Rightarrow> PinnableWideColumns" where
  "CreateIndexForPlainValue w =
     w\<lparr>columns_f := [WideColumn_new kDefaultWideColumnName (value_view (value_f w))]\<rparr>"

type_synonym positions = "((nat \<times> nat) \<times> (nat \<times> nat)) list"

definition CreateIndexForWideColumns ::
  "(bytes \<Rightarrow> Status \<times> positions) \<Rightarrow> mem \<Rightarrow> PinnableWideColumns \<Rightarrow> Status \<times> PinnableWideColumns" where
  "CreateIndexForWideColumns idx m w =
     (case idx (pin_bytes m (value_f w)) of (s, ps) \<Rightarrow>
        (s, w\<lparr>columns_f := map (\<lambda>((no, nl), (vo, vl)).
               WideColumn_new \<lparr>vbase_f = pdata_f (value_f w), voff_f = no, vlen_f = nl\<rparr>
                              \<lparr>vbase_f = pdata_f (value_f w), voff_f = vo, vlen_f = vl\<rparr>) ps\<rparr>))"

definition CopyValue :: "mem \<Rightarrow> Slice \<Rightarrow> PinnableWideColumns \<Rightarrow> PinnableWideColumns option" where
  "CopyValue m value w = map_option (\<lambda>v. w\<lparr>value_f := v\<rparr>) (PinSelf_slice m value (value_f w))"

definition PinOrCopyValue ::
  "(Cleanable \<Rightarrow> Cleanable \<Rightarrow> Cleanable \<times> Cleanable) \<Rightarrow> mem \<Rightarrow> Slice \<Rightarrow> Cleanable option \<Rightarrow> PinnableWideColumns
    \<Rightarrow> (Cleanable option \<times> PinnableWideColumns) option" where
  "PinOrCopyValue deleg m value cleanable w =
     (case cleanable of
        None \<Rightarrow> map_option (\<lambda>w'. (None, w')) (CopyValue m value w)
      | Some c \<Rightarrow> map_option (\<lambda>(c', v). (c', w\<lparr>value_f := v\<rparr>)) (PinSlice deleg value (Some c) (value_f w)))"

definition MoveValue ::
  "(PinnableSlice \<Rightarrow> PinnableSlice \<Rightarrow> PinnableSlice \<times> PinnableSlice) \<Rightarrow> PinnableSlice \<Rightarrow> PinnableWideColumns
    \<Rightarrow> PinnableWideColumns \<times> PinnableSlice" where
  "MoveValue mv value w = (case mv (value_f w) value of (v, left) \<Rightarrow> (w\<lparr>value_f := v\<rparr>, left))"

definition MoveValue_string :: "bytes \<Rightarrow> PinnableWideColumns \<Rightarrow> PinnableWideColumns option" where
  "MoveValue_string value w =
     map_option (\<lambda>v. w\<lparr>value_f := v\<rparr>) (PinSelf ((value_f w)\<lparr>buf_f := value\<rparr>))"

definition SetPlainValue :: "mem \<Rightarrow> Slice \<Rightarrow> PinnableWideColumns \<Rightarrow> PinnableWideColumns option" where
  "SetPlainValue m value w = map_option CreateIndexForPlainValue (CopyValue m value w)"

definition SetPlainValue_pin ::
  "(Cleanable \<Rightarrow> Cleanable \<Rightarrow> Cleanable \<times> Cleanable) \<Rightarrow> mem \<Rightarrow> Slice \<Rightarrow> Cleanable option \<Rightarrow> PinnableWideColumns
    \<Rightarrow> (Cleanable option \<times> PinnableWideColumns) option" where
  "SetPlainValue_pin deleg m value cleanable w =
     map_option (\<lambda>(c, w'). (c, CreateIndexForPlainValue w')) (PinOrCopyValue deleg m value cleanable w)"

definition SetPlainValue_move ::
  "(PinnableSlice \<Rightarrow> PinnableSlice \<Rightarrow> PinnableSlice \<times> PinnableSlice) \<Rightarrow> PinnableSlice \<Rightarrow> PinnableWideColumns
    \<Rightarrow> PinnableWideColumns \<times> PinnableSlice" where
  "SetPlainValue_move mv value w =
     (case MoveValue mv value w of (w', left) \<Rightarrow> (CreateIndexForPlainValue w', left))"

definition SetPlainValue_string :: "bytes \<Rightarrow> PinnableWideColumns \<Rightarrow> PinnableWideColumns option" where
  "SetPlainValue_string value w = map_option CreateIndexForPlainValue (MoveValue_string value w)"

text \<open>A value whose columns cannot be read is dropped; the cleanups it then runs are returned.\<close>

definition index_or_reset ::
  "(bytes \<Rightarrow> Status \<times> positions) \<Rightarrow> mem \<Rightarrow> PinnableWideColumns \<Rightarrow> Status \<times> Cleanup list \<times> PinnableWideColumns" where
  "index_or_reset idx m w =
     (case CreateIndexForWideColumns idx m w of (s, w') \<Rightarrow>
        if \<not> Status_ok s then (s, wide_Reset w') else (s, [], w'))"

definition SetWideColumnValue ::
  "(bytes \<Rightarrow> Status \<times> positions) \<Rightarrow> mem \<Rightarrow> Slice \<Rightarrow> PinnableWideColumns
    \<Rightarrow> (Status \<times> Cleanup list \<times> PinnableWideColumns) option" where
  "SetWideColumnValue idx m value w = map_option (index_or_reset idx m) (CopyValue m value w)"

definition SetWideColumnValue_pin ::
  "(bytes \<Rightarrow> Status \<times> positions) \<Rightarrow> (Cleanable \<Rightarrow> Cleanable \<Rightarrow> Cleanable \<times> Cleanable) \<Rightarrow> mem \<Rightarrow> Slice
    \<Rightarrow> Cleanable option \<Rightarrow> PinnableWideColumns
    \<Rightarrow> (Cleanable option \<times> Status \<times> Cleanup list \<times> PinnableWideColumns) option" where
  "SetWideColumnValue_pin idx deleg m value cleanable w =
     map_option (\<lambda>(c, w'). (c, index_or_reset idx m w')) (PinOrCopyValue deleg m value cleanable w)"

definition SetWideColumnValue_move ::
  "(bytes \<Rightarrow> Status \<times> positions) \<Rightarrow> (PinnableSlice \<Rightarrow> PinnableSlice \<Rightarrow> PinnableSlice \<times> PinnableSlice) \<Rightarrow> mem
    \<Rightarrow> PinnableSlice \<Rightarrow> PinnableWideColumns \<Rightarrow> (Status \<times> Cleanup list \<times> PinnableWideColumns) \<times> PinnableSlice" where
  "SetWideColumnValue_move idx mv m value w =
     (case MoveValue mv value w of (w', left) \<Rightarrow> (index_or_reset idx m w', left))"

definition SetWideColumnValue_string ::
  "(bytes \<Rightarrow> Status \<times> positions) \<Rightarrow> mem \<Rightarrow> bytes \<Rightarrow> PinnableWideColumns
    \<Rightarrow> (Status \<times> Cleanup list \<times> PinnableWideColumns) option" where
  "SetWideColumnValue_string idx m value w = map_option (index_or_reset idx m) (MoveValue_string value w)"

text \<open>
  Moving: \<open>None\<close> when an assertion fails; otherwise the target, the source, and the cleanups that the
  final reset of the source runs.
\<close>

definition Move ::
  "(bytes \<Rightarrow> Status \<times> positions) \<Rightarrow> (PinnableSlice \<Rightarrow> PinnableSlice \<Rightarrow> PinnableSlice \<times> PinnableSlice)
    \<Rightarrow> (bytes \<Rightarrow> bool) \<Rightarrow> mem \<Rightarrow> PinnableWideColumns \<Rightarrow> PinnableWideColumns
    \<Rightarrow> (PinnableWideColumns \<times> Cleanup list \<times> PinnableWideColumns) option" where
  "Move idx mv stays m other w =
     (if columns_f w \<noteq> [] then None
      else if columns_f other = [] then Some (w, [], other)
      else
        let data = pdata_f (value_f other);
            front = hd (columns_f other);
            is_plain_value = (length (columns_f other) = 1 \<and>
              view_bytes m (buf_f (value_f other)) (wname_f front) = [] \<and>
              view_bytes m (buf_f (value_f other)) (wvalue_f front) = pin_bytes m (value_f other))
        in case MoveValue mv (value_f other) w of (w1, left) \<Rightarrow>
             let other1 = other\<lparr>value_f := left\<rparr>;
                 same = (pdata_f (value_f w1) = data \<and> (data = InBuf \<longrightarrow> stays (buf_f (value_f other))));
                 result =
                   (if same then Some (w1\<lparr>columns_f := columns_f other\<rparr>, other1\<lparr>columns_f := []\<rparr>)
                    else if is_plain_value then Some (CreateIndexForPlainValue w1, other1)
                    else case CreateIndexForWideColumns idx m w1 of (s, w2) \<Rightarrow>
                           if Status_ok s then Some (w2, other1) else None)
             in case result of
                  None \<Rightarrow> None
                | Some (w', o') \<Rightarrow> (case wide_Reset o' of (calls, o'') \<Rightarrow> Some (w', calls, o'')))"

definition wide_move ::
  "(bytes \<Rightarrow> Status \<times> positions) \<Rightarrow> (PinnableSlice \<Rightarrow> PinnableSlice \<Rightarrow> PinnableSlice \<times> PinnableSlice)
    \<Rightarrow> (bytes \<Rightarrow> bool) \<Rightarrow> mem \<Rightarrow> PinnableWideColumns
    \<Rightarrow> (PinnableWideColumns \<times> Cleanup list \<times> PinnableWideColumns) option" where
  "wide_move idx mv stays m other = Move idx mv stays m other PinnableWideColumns_new"

definition wide_move_assign ::
  "(bytes \<Rightarrow> Status \<times> positions) \<Rightarrow> (PinnableSlice \<Rightarrow> PinnableSlice \<Rightarrow> PinnableSlice \<times> PinnableSlice)
    \<Rightarrow> (bytes \<Rightarrow> bool) \<Rightarrow> mem \<Rightarrow> bool \<Rightarrow> PinnableWideColumns \<Rightarrow> PinnableWideColumns
    \<Rightarrow> (PinnableWideColumns \<times> Cleanup list \<times> PinnableWideColumns) option" where
  "wide_move_assign idx mv stays m same other w =
     (if same then Some (w, [], w)
      else case wide_Reset w of (calls, w0) \<Rightarrow>
        map_option (\<lambda>(w', calls', o'). (w', calls @ calls', o')) (Move idx mv stays m other w0))"

definition wide_eq :: "mem \<Rightarrow> PinnableWideColumns \<Rightarrow> PinnableWideColumns \<Rightarrow> bool" where
  "wide_eq m lhs rhs \<longleftrightarrow> list_all2 (WideColumn_eq m (buf_f (value_f lhs)) (buf_f (value_f rhs)))
     (columns_f lhs) (columns_f rhs)"

abbreviation (input) wide_neq :: "mem \<Rightarrow> PinnableWideColumns \<Rightarrow> PinnableWideColumns \<Rightarrow> bool" where
  "wide_neq m lhs rhs \<equiv> \<not> wide_eq m lhs rhs"

section \<open>Contents and invariant\<close>

definition wide_contents :: "mem \<Rightarrow> PinnableWideColumns \<Rightarrow> (bytes \<times> bytes) list" where
  "wide_contents m w =
     map (\<lambda>c. (view_bytes m (buf_f (value_f w)) (wname_f c), view_bytes m (buf_f (value_f w)) (wvalue_f c)))
       (columns_f w)"

definition view_ok :: "PinnableSlice \<Rightarrow> view \<Rightarrow> bool" where
  "view_ok p v \<longleftrightarrow> vlen_f v = 0 \<or> vbase_f v = pdata_f p \<and> voff_f v + vlen_f v \<le> unat (psize_f p)"

text \<open>The columns the positions cut out of the bytes of a value.\<close>

definition cut_out :: "bytes \<Rightarrow> positions \<Rightarrow> (bytes \<times> bytes) list" where
  "cut_out b ps = map (\<lambda>((no, nl), (vo, vl)). (take nl (drop no b), take vl (drop vo b))) ps"

definition positions_ok :: "bytes \<Rightarrow> positions \<Rightarrow> bool" where
  "positions_ok b ps \<longleftrightarrow> (\<forall>((no, nl), (vo, vl)) \<in> set ps. no + nl \<le> length b \<and> vo + vl \<le> length b)"

text \<open>
  The columns are views of the value, and they are the whole value under the default name or what
  the index makes of the value.
\<close>

definition wide_ok :: "(bytes \<Rightarrow> Status \<times> positions) \<Rightarrow> mem \<Rightarrow> PinnableWideColumns \<Rightarrow> bool" where
  "wide_ok idx m w \<longleftrightarrow> pin_ok (value_f w) \<and>
     (\<forall>c \<in> set (columns_f w). view_ok (value_f w) (wname_f c) \<and> view_ok (value_f w) (wvalue_f c)) \<and>
     (columns_f w = [] \<or> wide_contents m w = [([], pin_bytes m (value_f w))] \<or>
      (\<exists>s ps. idx (pin_bytes m (value_f w)) = (s, ps) \<and> Status_ok s \<and>
         positions_ok (pin_bytes m (value_f w)) ps \<and> wide_contents m w = cut_out (pin_bytes m (value_f w)) ps))"

text \<open>What a view shows depends on the bytes of the value only.\<close>

lemma view_bytes_value:
  assumes "pin_ok p" "view_ok p v"
  shows "view_bytes m (buf_f p) v = take (vlen_f v) (drop (voff_f v) (pin_bytes m p))"
proof (cases "vlen_f v = 0")
  case True
  then show ?thesis by (auto simp: view_bytes_def split: pin_data.split)
next
  case False
  then have v: "vbase_f v = pdata_f p" "voff_f v + vlen_f v \<le> unat (psize_f p)"
    using assms(2) by (auto simp: view_ok_def)
  show ?thesis
  proof (cases "pdata_f p")
    case (Ext q)
    then show ?thesis
      using v by (simp add: view_bytes_def pin_bytes_def drop_mem_read take_mem_read)
  next
    case InBuf
    then have "unat (psize_f p) = length (buf_f p)" using assms(1) by (auto simp: pin_ok_def split: if_splits)
    then show ?thesis using v InBuf by (simp add: view_bytes_def pin_bytes_def)
  qed
qed

lemma wide_contents_plain:
  "pin_ok (value_f w) \<Longrightarrow>
   wide_contents m (CreateIndexForPlainValue w) = [([], pin_bytes m (value_f w))]"
  using view_bytes_value [of "value_f w" "value_view (value_f w)" m]
  by (simp add: wide_contents_def CreateIndexForPlainValue_def WideColumn_new_def kDefaultWideColumnName_def
      view_ok_def value_view_def length_pin_bytes) (simp add: view_bytes_def)

lemma wide_contents_index:
  assumes "pin_ok (value_f w)" "idx (pin_bytes m (value_f w)) = (s, ps)" "positions_ok (pin_bytes m (value_f w)) ps"
  shows "fst (CreateIndexForWideColumns idx m w) = s"
    and "wide_contents m (snd (CreateIndexForWideColumns idx m w)) = cut_out (pin_bytes m (value_f w)) ps"
proof -
  show "fst (CreateIndexForWideColumns idx m w) = s" using assms(2) by (simp add: CreateIndexForWideColumns_def)
  have "view_bytes m (buf_f (value_f w)) \<lparr>vbase_f = pdata_f (value_f w), voff_f = a, vlen_f = l\<rparr> =
      take l (drop a (pin_bytes m (value_f w)))" if "a + l \<le> length (pin_bytes m (value_f w))" for a l
    using view_bytes_value [OF assms(1), of "\<lparr>vbase_f = pdata_f (value_f w), voff_f = a, vlen_f = l\<rparr>"] that
    by (simp add: view_ok_def length_pin_bytes [OF assms(1)])
  then show "wide_contents m (snd (CreateIndexForWideColumns idx m w)) = cut_out (pin_bytes m (value_f w)) ps"
    using assms(2,3)
    by (auto simp: CreateIndexForWideColumns_def wide_contents_def cut_out_def WideColumn_new_def positions_ok_def)
qed

text \<open>What moving a pinnable slice promises: the target points where the source did, at the same bytes.\<close>

locale pinnable_move =
  fixes mv :: "PinnableSlice \<Rightarrow> PinnableSlice \<Rightarrow> PinnableSlice \<times> PinnableSlice"
  assumes mv_target: "mv p q = (p', q') \<Longrightarrow> pinned_f p' = pinned_f q \<and> pdata_f p' = pdata_f q \<and>
    psize_f p' = psize_f q \<and> (pdata_f q = InBuf \<longrightarrow> buf_f p' = buf_f q) \<and>
    (length (buf_f q) < 2 ^ 64 \<longrightarrow> length (buf_f p') < 2 ^ 64)"
begin

lemma mv_ok: "mv p q = (p', q') \<Longrightarrow> pin_ok q \<Longrightarrow> pin_ok p' \<and> pin_bytes m p' = pin_bytes m q"
  using mv_target [of p q p' q'] by (auto simp: pin_ok_def pin_bytes_def split: if_splits pin_data.splits)

lemma Move_contents:
  assumes "wide_ok idx m other" "columns_f w = []"
  shows "\<exists>w' calls other'. Move idx mv stays m other w = Some (w', calls, other') \<and>
    wide_contents m w' = wide_contents m other \<and> columns_f other' = []"
proof (cases "columns_f other = []")
  case True
  then show ?thesis using assms(2) by (simp add: Move_def wide_contents_def)
next
  case False
  let ?b = "pin_bytes m (value_f other)"
  obtain v left where mv: "mv (value_f w) (value_f other) = (v, left)" by fastforce
  define w1 where "w1 = w\<lparr>value_f := v\<rparr>"
  have ok: "pin_ok (value_f other)" using assms(1) by (simp add: wide_ok_def)
  have v: "pin_ok v" "pin_bytes m v = ?b" "pdata_f v = pdata_f (value_f other)" "psize_f v = psize_f (value_f other)"
    using mv_ok [OF mv ok] mv_target [OF mv] by auto
  have keep: "wide_contents m (w1\<lparr>columns_f := columns_f other\<rparr>) = wide_contents m other"
  proof -
    have "view_bytes m (buf_f v) x = view_bytes m (buf_f (value_f other)) x" if "view_ok (value_f other) x" for x
      using view_bytes_value [OF ok that] view_bytes_value [OF v(1), of x] that v by (simp add: view_ok_def)
    then show ?thesis using assms(1) by (auto simp: wide_contents_def w1_def wide_ok_def)
  qed
  have plain: "wide_contents m (CreateIndexForPlainValue w1) = [([], ?b)]"
    using wide_contents_plain [of w1 m] v by (simp add: w1_def)
  have index: "fst (CreateIndexForWideColumns idx m w1) = s \<and>
      wide_contents m (snd (CreateIndexForWideColumns idx m w1)) = cut_out ?b ps"
    if "idx ?b = (s, ps)" "positions_ok ?b ps" for s ps
    using wide_contents_index [of w1 idx m s ps] that v by (simp add: w1_def)
  have is_plain: "wide_contents m other = [([], ?b)] \<longleftrightarrow> length (columns_f other) = 1 \<and>
      view_bytes m (buf_f (value_f other)) (wname_f (hd (columns_f other))) = [] \<and>
      view_bytes m (buf_f (value_f other)) (wvalue_f (hd (columns_f other))) = ?b"
    by (cases "columns_f other") (auto simp: wide_contents_def)
  have reset: "\<exists>calls x'. wide_Reset x = (calls, x') \<and> columns_f x' = []" for x
    by (simp add: wide_Reset_def split: prod.split)
  show ?thesis
  proof (cases "pdata_f (value_f other) = InBuf \<longrightarrow> stays (buf_f (value_f other))")
    case True
    then show ?thesis
      using False assms(2) mv v keep reset
      by (simp add: Move_def MoveValue_def Let_def w1_def split: prod.splits)
  next
    case moved: False
    show ?thesis
    proof (cases "wide_contents m other = [([], ?b)]")
      case True
      obtain calls x' where "wide_Reset (other\<lparr>value_f := left\<rparr>) = (calls, x')" "columns_f x' = []" using reset by blast
      moreover have "Move idx mv stays m other w =
          (case wide_Reset (other\<lparr>value_f := left\<rparr>) of (calls, o'') \<Rightarrow> Some (CreateIndexForPlainValue w1, calls, o''))"
        using moved False assms(2) mv v True [unfolded is_plain]
        by (simp add: Move_def MoveValue_def Let_def w1_def)
      ultimately show ?thesis using plain True by simp
    next
      case wide: False
      then obtain s ps where idx: "idx ?b = (s, ps)" "Status_ok s" "positions_ok ?b ps" "wide_contents m other = cut_out ?b ps"
        using assms(1) False by (auto simp: wide_ok_def)
      obtain w2 where w2: "CreateIndexForWideColumns idx m w1 = (s, w2)" "wide_contents m w2 = cut_out ?b ps"
        using index [OF idx(1,3)] by (cases "CreateIndexForWideColumns idx m w1") auto
      obtain calls x' where "wide_Reset (other\<lparr>value_f := left\<rparr>) = (calls, x')" "columns_f x' = []" using reset by blast
      moreover have "Move idx mv stays m other w =
          (case wide_Reset (other\<lparr>value_f := left\<rparr>) of (calls, o'') \<Rightarrow> Some (w2, calls, o''))"
        using moved False assms(2) mv v wide [unfolded is_plain] w2(1) idx(2)
        by (auto simp: Move_def MoveValue_def Let_def w1_def)
      ultimately show ?thesis using w2(2) idx(4) by simp
    qed
  qed
qed

end

text \<open>Taking the source over as a whole is an instance.\<close>

definition move_whole :: "PinnableSlice \<Rightarrow> PinnableSlice \<Rightarrow> PinnableSlice \<times> PinnableSlice" where
  "move_whole p q = (q, PinnableSlice_new [])"

interpretation whole_move: pinnable_move move_whole
  by unfold_locales (auto simp: move_whole_def)

text \<open>Setting a plain value by copying establishes the invariant.\<close>

lemma SetPlainValue_contents:
  assumes "SetPlainValue m value w = Some w'" and "length (slice_bytes m value) < 2 ^ 64"
  shows "wide_ok idx m w' \<and> wide_contents m w' = [([], slice_bytes m value)]"
proof -
  define v where "v = (value_f w)\<lparr>buf_f := slice_bytes m value, pdata_f := InBuf,
    psize_f := of_nat (length (slice_bytes m value))\<rparr>"
  have w': "w' = CreateIndexForPlainValue (w\<lparr>value_f := v\<rparr>)" "\<not> pinned_f v"
    using assms(1) by (auto simp: SetPlainValue_def CopyValue_def PinSelf_slice_def v_def split: if_splits)
  have "unat (of_nat (length (slice_bytes m value)) :: size_t) = length (slice_bytes m value)"
    by (rule unat_of_nat_small) (use assms(2) in simp)
  then have v: "pin_ok v" "pin_bytes m v = slice_bytes m value"
    using w'(2) assms(2) by (auto simp: pin_ok_def pin_bytes_def v_def)
  have "wide_contents m w' = [([], slice_bytes m value)]"
    using wide_contents_plain [of "w\<lparr>value_f := v\<rparr>" m] v by (simp add: w')
  with v show ?thesis
    by (auto simp: wide_ok_def w' CreateIndexForPlainValue_def WideColumn_new_def view_ok_def value_view_def
        kDefaultWideColumnName_def)
qed

section \<open>Properties\<close>

text \<open>
  Moving wide columns into an empty collection succeeds and keeps every name and value,
  whether or not the storage of the value moves with it; the source is left without columns.
\<close>

theorem Move_preserves_columns:
  assumes "pinnable_move mv" and "wide_ok idx m other" and "columns_f w = []"
  shows "\<exists>w' calls other'. Move idx mv stays m other w = Some (w', calls, other') \<and>
    wide_contents m w' = wide_contents m other \<and> columns_f other' = []"
  by (rule pinnable_move.Move_contents [OF assms])

definition two_columns :: PinnableWideColumns where
  "two_columns =
     \<lparr>value_f = (PinnableSlice_new [1, 2, 3, 4])\<lparr>pdata_f := InBuf, psize_f := 4\<rparr>,
      columns_f = [WideColumn_new \<lparr>vbase_f = InBuf, voff_f = 0, vlen_f = 1\<rparr> \<lparr>vbase_f = InBuf, voff_f = 1, vlen_f = 3\<rparr>]\<rparr>"

theorem Move_preserves_columns_witness:
  "\<exists>w' calls other'. Move (\<lambda>b. (Status_OK, [((0, 1), (1, 3))])) move_whole (\<lambda>_. False) (\<lambda>_. 0) two_columns PinnableWideColumns_new =
      Some (w', calls, other') \<and> wide_contents (\<lambda>_. 0) w' = wide_contents (\<lambda>_. 0) two_columns \<and> columns_f other' = []"
  by (rule Move_preserves_columns [OF whole_move.pinnable_move_axioms])
    (auto simp: wide_ok_def two_columns_def WideColumn_new_def view_ok_def pin_ok_def PinnableSlice_new_def
      PinnableWideColumns_new_def wide_contents_def view_bytes_def pin_bytes_def cut_out_def positions_ok_def
      Status_ok_def Status_OK_def Status_default_def code_def)

end
