(* ===== verification/Write_Buffers.thy ===== *)
theory Write_Buffers
  imports Prelude
begin

text \<open>
  \<open>libs/rocksdb/write_buffer_manager.h\<close>: the inline part of \<open>WriteBufferManager\<close>, which decides when
  memtables are flushed and writers stalled. \<open>MaybeEndWriteStall\<close> is declared only and is a parameter.
  The atomic fields are read and written one at a time by the calling thread.
\<close>

record WriteBufferManager =
  buffer_size_f :: size_t
  mutable_limit_f :: size_t
  memory_used_f :: size_t
  memory_active_f :: size_t
  cost_to_cache_f :: bool
  allow_stall_f :: bool
  stall_active_f :: bool

definition buffer_size :: "WriteBufferManager \<Rightarrow> size_t" where
  "buffer_size w = buffer_size_f w"

definition enabled :: "WriteBufferManager \<Rightarrow> bool" where
  "enabled w \<longleftrightarrow> 0 < buffer_size w"

abbreviation (input) cost_to_cache :: "WriteBufferManager \<Rightarrow> bool" where
  "cost_to_cache w \<equiv> cost_to_cache_f w"

definition memory_usage :: "WriteBufferManager \<Rightarrow> size_t" where
  "memory_usage w = memory_used_f w"

definition mutable_memtable_memory_usage :: "WriteBufferManager \<Rightarrow> size_t" where
  "mutable_memtable_memory_usage w = memory_active_f w"

text \<open>\<open>None\<close>: the assertion on the new size fails.\<close>

definition SetBufferSize ::
  "(WriteBufferManager \<Rightarrow> WriteBufferManager) \<Rightarrow> size_t \<Rightarrow> WriteBufferManager \<Rightarrow> WriteBufferManager option" where
  "SetBufferSize MaybeEndWriteStall new_size w =
     (if new_size > 0
      then Some (MaybeEndWriteStall (w\<lparr>buffer_size_f := new_size, mutable_limit_f := new_size * 7 div 8\<rparr>))
      else None)"

definition SetAllowStall :: "(WriteBufferManager \<Rightarrow> WriteBufferManager) \<Rightarrow> bool \<Rightarrow> WriteBufferManager \<Rightarrow> WriteBufferManager" where
  "SetAllowStall MaybeEndWriteStall new_allow_stall w = MaybeEndWriteStall (w\<lparr>allow_stall_f := new_allow_stall\<rparr>)"

definition ShouldFlush :: "WriteBufferManager \<Rightarrow> bool" where
  "ShouldFlush w =
     (if enabled w
      then if mutable_memtable_memory_usage w > mutable_limit_f w then True
           else let local_size = buffer_size w
                in if memory_usage w \<ge> local_size \<and> mutable_memtable_memory_usage w \<ge> local_size div 2
                   then True else False
      else False)"

definition IsStallActive :: "WriteBufferManager \<Rightarrow> bool" where
  "IsStallActive w \<longleftrightarrow> stall_active_f w"

definition IsStallThresholdExceeded :: "WriteBufferManager \<Rightarrow> bool" where
  "IsStallThresholdExceeded w \<longleftrightarrow> memory_usage w \<ge> buffer_size_f w"

definition ShouldStall :: "WriteBufferManager \<Rightarrow> bool" where
  "ShouldStall w =
     (if \<not> allow_stall_f w \<or> \<not> enabled w then False
      else IsStallActive w \<or> IsStallThresholdExceeded w)"

lemmas wbm_defs = buffer_size_def enabled_def memory_usage_def mutable_memtable_memory_usage_def
  IsStallActive_def IsStallThresholdExceeded_def

text \<open>The limit on mutable memory is seven eighths of the size, unless the product wraps around.\<close>

lemma mutable_limit_exact:
  assumes "unat n * 7 < 2 ^ 64"
  shows "unat (n * 7 div 8 :: size_t) = unat n * 7 div 8"
proof -
  have "unat (n * 7) = unat n * 7" using assms by (simp add: unat_word_ariths)
  then show ?thesis by (simp add: unat_div)
qed



text \<open>
  A size of 0 disables the manager: it never asks for a flush, although the description of the
  constructor says it always does. The product in \<open>SetBufferSize\<close> wraps for sizes from \<open>2 ^ 64 / 7\<close> on.
\<close>

lemma disabled_never_flushes: "buffer_size_f w = 0 \<Longrightarrow> \<not> ShouldFlush w"
  by (simp add: ShouldFlush_def wbm_defs)

lemma mutable_limit_wraps:
  "map_option mutable_limit_f (SetBufferSize (\<lambda>x. x) (2 ^ 63) w) = Some (2 ^ 60)"
  by (simp add: SetBufferSize_def)

end
