(* ===== verification/Transactions.thy ===== *)
theory Transactions
  imports Prelude
begin

text \<open>
  \<open>transaction/transaction.go\<close>: a transaction, the text that is signed, the verification of the
  signature and the two hashes. Base58, ed25519, the zero-knowledge verifier, SHA-256 and JSON are
  libraries and are parameters. Go strings are character lists, byte slices too.
\<close>

section \<open>Decimal numbers\<close>

definition digit :: "nat \<Rightarrow> char" where
  "digit n = char_of (48 + n mod 10)"

fun dec :: "nat \<Rightarrow> string" where
  "dec n = (if n < 10 then [digit n] else dec (n div 10) @ [digit n])"

declare dec.simps [simp del]

definition dec_int :: "int \<Rightarrow> string" where
  "dec_int i = (if i < 0 then CHR ''-'' # dec (nat (- i)) else dec (nat i))"

lemma of_char_digit: "(of_char (digit n) :: nat) = 48 + n mod 10"
proof -
  have "(48 + n mod 10) mod 256 = 48 + n mod 10" by (rule mod_less) (use mod_less_divisor [of 10 n] in linarith)
  then show ?thesis by (simp add: digit_def)
qed

lemma digit_inj: "digit a = digit b \<longleftrightarrow> a mod 10 = b mod 10"
proof
  assume "digit a = digit b"
  then have "48 + a mod 10 = 48 + b mod 10" using of_char_digit [of a] of_char_digit [of b] by simp
  then show "a mod 10 = b mod 10" by simp
qed (simp add: digit_def)

lemma digit_not [simp]: "CHR ''|'' \<noteq> digit n" "CHR ''-'' \<noteq> digit n"
proof -
  have "48 + n mod 10 < 58" using mod_less_divisor [of 10 n] by linarith
  then have d: "(of_char (digit n) :: nat) < 58" "48 \<le> (of_char (digit n) :: nat)" by (simp_all add: of_char_digit)
  show "CHR ''|'' \<noteq> digit n" using d(1) by (auto dest!: arg_cong [where f = "of_char :: char \<Rightarrow> nat"])
  show "CHR ''-'' \<noteq> digit n" using d(2) by (auto dest!: arg_cong [where f = "of_char :: char \<Rightarrow> nat"])
qed

lemma dec_chars: "CHR ''|'' \<notin> set (dec n) \<and> CHR ''-'' \<notin> set (dec n)"
proof (induction n rule: dec.induct)
  case (1 n)
  then show ?case by (cases "n < 10") (simp_all add: dec.simps [of n])
qed

lemma dec_nonempty: "dec n \<noteq> []"
  by (subst dec.simps) simp

lemma nonempty_dec: "[] \<noteq> dec n"
  using dec_nonempty [of n] by auto

lemma dec_inj: "dec a = dec b \<longleftrightarrow> a = b"
proof (induction a arbitrary: b rule: dec.induct)
  case (1 a)
  show ?case
  proof (cases "a < 10"; cases "b < 10")
    assume "a < 10" "b < 10"
    then show ?thesis by (simp add: dec.simps [of a] dec.simps [of b] digit_inj)
  next
    assume "a < 10" "\<not> b < 10"
    then show ?thesis using dec_nonempty nonempty_dec by (auto simp: dec.simps [of a] dec.simps [of b])
  next
    assume "\<not> a < 10" "b < 10"
    then show ?thesis using dec_nonempty nonempty_dec by (auto simp: dec.simps [of a] dec.simps [of b])
  next
    assume a: "\<not> a < 10" "\<not> b < 10"
    then have "dec a = dec b \<longleftrightarrow> a div 10 = b div 10 \<and> a mod 10 = b mod 10"
      using 1 [of "b div 10"] by (simp add: dec.simps [of a] dec.simps [of b] digit_inj)
    then show ?thesis by (metis div_mult_mod_eq)
  qed
qed

lemma minus_dec: "CHR ''-'' # x \<noteq> dec n" "dec n \<noteq> CHR ''-'' # x"
  using dec_chars [of n] by (metis list.set_intros(1))+

lemma dec_int_inj: "dec_int a = dec_int b \<longleftrightarrow> a = b"
  by (cases "a < 0"; cases "b < 0") (auto simp: dec_int_def dec_inj minus_dec)

lemma dec_int_chars: "CHR ''|'' \<notin> set (dec_int i)"
  by (simp add: dec_int_def dec_chars)

section \<open>Transactions\<close>

abbreviation (input) "TxTypeTransferByZk \<equiv> 0 :: int"
abbreviation (input) "TxTypeTransferByKey \<equiv> 1 :: int"
abbreviation (input) "TxTypeUserContent \<equiv> 2 :: int"

record Transaction =
  tx_Type :: int
  tx_Sender :: string
  tx_Recipient :: string
  tx_Amount :: "u256 option"
  tx_Timestamp :: u64
  tx_TextData :: string
  tx_Nonce :: u64
  tx_Signature :: string
  tx_ExtraInfo :: string
  tx_ZkProof :: string
  tx_ZkPub :: string

record UserSig =
  PubKey :: string
  Sig :: string

abbreviation (input) "maxSignatureBase58Len \<equiv> 2048 :: nat"
abbreviation (input) "maxSignatureDecodedLen \<equiv> 4096 :: nat"
abbreviation (input) "maxZkProofLen \<equiv> 1024 :: nat"
abbreviation (input) "maxZkPubLen \<equiv> 1024 :: nat"
definition ed25519_PublicKeySize :: nat where "ed25519_PublicKeySize = 32"

definition uint256ToString :: "u256 option \<Rightarrow> string" where
  "uint256ToString value = (case value of None \<Rightarrow> ''0'' | Some v \<Rightarrow> dec (unat v))"

definition Serialize :: "Transaction \<Rightarrow> string" where
  "Serialize tx =
     dec_int (tx_Type tx) @ ''|'' @ tx_Sender tx @ ''|'' @ tx_Recipient tx @ ''|'' @
     uint256ToString (tx_Amount tx) @ ''|'' @ tx_TextData tx @ ''|'' @ dec (unat (tx_Nonce tx)) @ ''|'' @
     tx_ExtraInfo tx"

definition base58ToEd25519 :: "(string \<Rightarrow> string option) \<Rightarrow> string \<Rightarrow> string option" where
  "base58ToEd25519 DecodeBase58 addr =
     (case DecodeBase58 addr of
        None \<Rightarrow> None
      | Some b \<Rightarrow> if length b \<noteq> ed25519_PublicKeySize then None else Some b)"

text \<open>
  \<open>zkVerify\<close> is \<open>None\<close> for a nil verifier. A panic of \<open>ed25519.Verify\<close> on a key of the wrong length
  cannot happen here: the length is checked before.
\<close>

definition Verify ::
  "(string \<Rightarrow> string option) \<Rightarrow> (string \<Rightarrow> string) \<Rightarrow> (string \<Rightarrow> string \<Rightarrow> string \<Rightarrow> bool) \<Rightarrow> (string \<Rightarrow> UserSig option)
    \<Rightarrow> (string \<Rightarrow> string \<Rightarrow> string \<Rightarrow> string \<Rightarrow> bool) option \<Rightarrow> Transaction \<Rightarrow> bool" where
  "Verify DecodeBase58 EncodeBase58 ed25519_Verify Unmarshal zkVerify tx =
     (if tx_Signature tx = [] then False
      else if length (tx_Signature tx) > maxSignatureBase58Len then False
      else case DecodeBase58 (tx_Signature tx) of
        None \<Rightarrow> False
      | Some signature \<Rightarrow>
          if length signature > maxSignatureDecodedLen then False
          else
            let serialized = Serialize tx in
            if tx_Type tx = TxTypeTransferByKey then
              (case base58ToEd25519 DecodeBase58 (tx_Sender tx) of
                 None \<Rightarrow> False
               | Some pub \<Rightarrow> ed25519_Verify pub serialized signature)
            else
              (case zkVerify of
                 None \<Rightarrow> False
               | Some zk \<Rightarrow>
                   if tx_ZkProof tx = [] \<or> tx_ZkPub tx = [] then False
                   else if length (tx_ZkProof tx) > maxZkProofLen \<or> length (tx_ZkPub tx) > maxZkPubLen then False
                   else case Unmarshal signature of
                     None \<Rightarrow> False
                   | Some userSig \<Rightarrow>
                       if PubKey userSig = [] \<or> Sig userSig = [] then False
                       else if length (PubKey userSig) \<noteq> ed25519_PublicKeySize then False
                       else if \<not> ed25519_Verify (PubKey userSig) serialized (Sig userSig) then False
                       else zk (tx_Sender tx) (EncodeBase58 (PubKey userSig)) (tx_ZkProof tx) (tx_ZkPub tx)))"

text \<open>\<open>Bytes\<close> is the JSON of the pointer, which may be nil; \<open>Marshal\<close> gives no bytes when the encoding fails.\<close>

definition Bytes :: "(Transaction option \<Rightarrow> string) \<Rightarrow> Transaction option \<Rightarrow> string" where
  "Bytes Marshal tx = Marshal tx"

definition Hash :: "(Transaction option \<Rightarrow> string) \<Rightarrow> (string \<Rightarrow> string) \<Rightarrow> (string \<Rightarrow> string) \<Rightarrow> Transaction option \<Rightarrow> string" where
  "Hash Marshal sha256 hex tx = hex (sha256 (Bytes Marshal tx))"

definition DedupHash :: "(string \<Rightarrow> string) \<Rightarrow> (string \<Rightarrow> string) \<Rightarrow> Transaction \<Rightarrow> string" where
  "DedupHash sha256 base58 tx = base58 (sha256 (Serialize tx))"

section \<open>The signed text\<close>

text \<open>Fields without the separator can be read back from the front of a joined text.\<close>

lemma split_field:
  assumes "d \<notin> set a" "d \<notin> set b"
  shows "a @ d # x = b @ d # y \<longleftrightarrow> a = b \<and> x = y"
  using assms
proof (induction a arbitrary: b)
  case Nil
  then show ?case by (cases b) auto
next
  case (Cons c a)
  then show ?case by (cases b) auto
qed

lemma uint256ToString_chars: "CHR ''|'' \<notin> set (uint256ToString a)"
  by (simp add: uint256ToString_def dec_chars split: option.split)

lemma dec_0: "dec 0 = ''0''"
  by (simp add: dec.simps [of 0] digit_def) code_simp

lemma uint256ToString_inj:
  "uint256ToString a = uint256ToString b \<longleftrightarrow> case_option 0 id a = case_option 0 id b"
  by (simp add: uint256ToString_def dec_inj dec_0 [symmetric] word_unat_eq_iff split: option.split)

lemma Serialize_unique:
  assumes "CHR ''|'' \<notin> set (tx_Sender a) \<union> set (tx_Recipient a) \<union> set (tx_TextData a)"
    and "CHR ''|'' \<notin> set (tx_Sender b) \<union> set (tx_Recipient b) \<union> set (tx_TextData b)"
  shows "Serialize a = Serialize b \<longleftrightarrow>
    tx_Type a = tx_Type b \<and> tx_Sender a = tx_Sender b \<and> tx_Recipient a = tx_Recipient b \<and>
    case_option 0 id (tx_Amount a) = case_option 0 id (tx_Amount b) \<and> tx_TextData a = tx_TextData b \<and>
    tx_Nonce a = tx_Nonce b \<and> tx_ExtraInfo a = tx_ExtraInfo b"
  using assms
  by (simp add: Serialize_def split_field dec_int_chars dec_chars uint256ToString_chars dec_int_inj dec_inj
      uint256ToString_inj word_unat_eq_iff)

section \<open>Properties\<close>

text \<open>
  C29: the signed text determines type, sender, recipient, amount (a missing one counts as 0), text,
  nonce and extra information, when neither the addresses nor the text contain the separator.
\<close>

theorem Serialize_determines_fields:
  assumes "CHR ''|'' \<notin> set (tx_Sender a) \<union> set (tx_Recipient a) \<union> set (tx_TextData a)"
    and "CHR ''|'' \<notin> set (tx_Sender b) \<union> set (tx_Recipient b) \<union> set (tx_TextData b)"
    and "Serialize a = Serialize b"
  shows "tx_Type a = tx_Type b \<and> tx_Sender a = tx_Sender b \<and> tx_Recipient a = tx_Recipient b \<and>
    case_option 0 id (tx_Amount a) = case_option 0 id (tx_Amount b) \<and> tx_TextData a = tx_TextData b \<and>
    tx_Nonce a = tx_Nonce b \<and> tx_ExtraInfo a = tx_ExtraInfo b"
  using Serialize_unique [OF assms(1,2)] assms(3) by blast

definition sample_tx :: Transaction where
  "sample_tx = \<lparr>tx_Type = 1, tx_Sender = ''alice'', tx_Recipient = ''bob'', tx_Amount = Some 5, tx_Timestamp = 0,
     tx_TextData = ''rent'', tx_Nonce = 7, tx_Signature = ''sig'', tx_ExtraInfo = ''june'', tx_ZkProof = [], tx_ZkPub = []\<rparr>"

theorem Serialize_determines_fields_witness:
  "Serialize sample_tx = Serialize (sample_tx\<lparr>tx_Timestamp := 9\<rparr>) \<and>
   tx_Nonce sample_tx = tx_Nonce (sample_tx\<lparr>tx_Timestamp := 9\<rparr>)"
proof -
  have "Serialize sample_tx = Serialize (sample_tx\<lparr>tx_Timestamp := 9\<rparr>)" by (simp add: Serialize_def)
  with Serialize_determines_fields [of sample_tx "sample_tx\<lparr>tx_Timestamp := 9\<rparr>"] show ?thesis
    by (simp add: sample_tx_def)
qed

text \<open>
  The condition matters: a text with separators shifts the boundary between text, nonce and extra
  information, so that one signature covers two transactions with different nonces.
\<close>

lemma Serialize_ambiguous:
  "Serialize (sample_tx\<lparr>tx_TextData := ''rent|7|june'', tx_Nonce := 8, tx_ExtraInfo := ''july''\<rparr>) =
   Serialize (sample_tx\<lparr>tx_TextData := ''rent'', tx_Nonce := 7, tx_ExtraInfo := ''june|8|july''\<rparr>)"
proof -
  have "dec 7 = ''7''" "dec 8 = ''8''" by code_simp+
  then show ?thesis by (simp add: Serialize_def)
qed

lemma Verify_by_text:
  assumes "Serialize a = Serialize b" "tx_Sender a = tx_Sender b" "tx_Signature a = tx_Signature b"
    and "tx_Type a = TxTypeTransferByKey" "tx_Type b = TxTypeTransferByKey"
  shows "Verify D E ed U zk a = Verify D E ed U zk b"
  using assms by (simp add: Verify_def Let_def split: option.split)

text \<open>What acceptance means.\<close>

lemma Verify_key_sound:
  assumes "Verify D E ed U zk tx" "tx_Type tx = TxTypeTransferByKey"
  shows "\<exists>pub sig. D (tx_Sender tx) = Some pub \<and> length pub = ed25519_PublicKeySize \<and>
    D (tx_Signature tx) = Some sig \<and> ed pub (Serialize tx) sig"
  using assms
  by (auto simp: Verify_def base58ToEd25519_def Let_def split: option.splits if_splits)

lemma Verify_zk_sound:
  assumes "Verify D E ed U zk tx" "tx_Type tx \<noteq> TxTypeTransferByKey"
  shows "\<exists>z (us :: UserSig). zk = Some z \<and> length (PubKey us) = ed25519_PublicKeySize \<and> ed (PubKey us) (Serialize tx) (Sig us) \<and>
    z (tx_Sender tx) (E (PubKey us)) (tx_ZkProof tx) (tx_ZkPub tx)"
proof -
  obtain signature where d: "D (tx_Signature tx) = Some signature"
    using assms(1) by (cases "D (tx_Signature tx)") (auto simp: Verify_def split: if_splits)
  obtain z where z: "zk = Some z"
    using assms d by (cases zk) (auto simp: Verify_def Let_def split: if_splits)
  obtain us where u: "U signature = Some us"
    using assms d z by (cases "U signature") (auto simp: Verify_def Let_def split: if_splits)
  show ?thesis
    using assms d z u by (auto simp: Verify_def Let_def split: if_splits)
qed

end
