(* ===== verification/Databases.thy ===== *)
theory Databases
  imports Prelude "HOL-Library.AList" "HOL-Library.Char_ord" "HOL-Library.List_Lexorder" "HOL-Library.Sublist"
begin

text \<open>
  The database providers of \<open>db/\<close>: the interface \<open>DatabaseProvider\<close> with its batches as a record
  of operations over a database state, the contract the stores rely on (\<open>database_provider\<close>), and
  the LevelDB and RocksDB implementations on top of the two client libraries, which are parameters.
  Go byte slices and strings are character lists; an error is its message; a Go map is an
  association list with distinct keys, in the order a \<open>range\<close> loop visits it.
\<close>

section \<open>Results and batches\<close>

type_synonym 'a res = "string + 'a"

datatype BatchOp = BPut string string | BDelete string

type_synonym batch = "BatchOp list"

primrec apply_op :: "BatchOp \<Rightarrow> (string \<rightharpoonup> string) \<Rightarrow> string \<rightharpoonup> string" where
  "apply_op (BPut k v) m = m(k \<mapsto> v)"
| "apply_op (BDelete k) m = m(k := None)"

definition apply_batch :: "batch \<Rightarrow> (string \<rightharpoonup> string) \<Rightarrow> string \<rightharpoonup> string" where
  "apply_batch b m = fold apply_op b m"

lemma apply_batch_simps [simp]:
  "apply_batch [] m = m"
  "apply_batch (x # b) m = apply_batch b (apply_op x m)"
  "apply_batch (a @ b) m = apply_batch b (apply_batch a m)"
  by (simp_all add: apply_batch_def)

lemma apply_puts: "apply_batch (map (\<lambda>(k, v). BPut k v) kvs) m = m ++ map_of (rev kvs)"
  by (induction kvs arbitrary: m) (auto simp: map_add_assoc)

text \<open>Puts under distinct keys commute, so the order in which a loop issues them is irrelevant.\<close>

lemma apply_puts_distinct:
  assumes "distinct (map fst kvs)"
  shows "apply_batch (map (\<lambda>(k, v). BPut k v) kvs) m = m ++ map_of kvs"
proof -
  have "map_of (rev kvs) = map_of kvs"
    using assms by (subst map_of_inject_set) (simp_all add: rev_map [symmetric])
  then show ?thesis by (simp add: apply_puts)
qed

primrec op_key :: "BatchOp \<Rightarrow> string" where
  "op_key (BPut k v) = k"
| "op_key (BDelete k) = k"

lemma apply_batch_other: "k \<notin> op_key ` set b \<Longrightarrow> apply_batch b m k = m k"
proof (induction b arbitrary: m)
  case (Cons x b)
  then have "apply_op x m k = m k" by (cases x) auto
  with Cons show ?case by simp
qed simp

text \<open>Collecting the values of a list of keys one key at a time.\<close>

lemma restrict_insert_missing: "m k = None \<Longrightarrow> m |` insert k K = m |` K"
  by (auto simp: restrict_map_def)

lemma restrict_insert_found: "m k = Some v \<Longrightarrow> r(k \<mapsto> v) ++ (m |` K) = r ++ (m |` insert k K)"
  by (rule ext) (auto simp: restrict_map_def map_add_def split: option.splits)

section \<open>The provider interface\<close>

record 'db DatabaseProvider =
  p_Get :: "'db \<Rightarrow> string \<Rightarrow> string option res"
  p_GetBatch :: "'db \<Rightarrow> string list \<Rightarrow> (string \<times> string) list res"
  p_Put :: "string \<Rightarrow> string \<Rightarrow> 'db \<Rightarrow> string option \<times> 'db"
  p_Delete :: "string \<Rightarrow> 'db \<Rightarrow> string option \<times> 'db"
  p_Has :: "'db \<Rightarrow> string \<Rightarrow> bool res"
  p_Write :: "batch \<Rightarrow> 'db \<Rightarrow> string option \<times> 'db"

text \<open>
  What the interface documents: reads return the stored value, a single write or deletion that
  reports no error took effect, and a batch is atomic: it is applied as a whole, or an error is
  reported and nothing changed. Any operation may report an error.
\<close>

locale database_provider =
  fixes p :: "'db DatabaseProvider" and contents :: "'db \<Rightarrow> string \<rightharpoonup> string"
  assumes Get_sound: "p_Get p d k = Inr r \<Longrightarrow> r = contents d k"
    and GetBatch_sound: "p_GetBatch p d ks = Inr kvs \<Longrightarrow> distinct (map fst kvs) \<and> map_of kvs = contents d |` set ks"
    and Put_ok: "p_Put p k v d = (None, d') \<Longrightarrow> contents d' = (contents d)(k \<mapsto> v)"
    and Delete_ok: "p_Delete p k d = (None, d') \<Longrightarrow> contents d' = (contents d)(k := None)"
    and Has_sound: "p_Has p d k = Inr h \<Longrightarrow> h \<longleftrightarrow> contents d k \<noteq> None"
    and Write_ok: "p_Write p b d = (None, d') \<Longrightarrow> contents d' = apply_batch b (contents d)"
    and Write_atomic: "p_Write p b d = (Some e, d') \<Longrightarrow> contents d' = contents d"
begin

lemma Write_contents:
  "p_Write p b d = (e, d') \<Longrightarrow> contents d' = (if e = None then apply_batch b (contents d) else contents d)"
  using Write_ok Write_atomic by (cases e) auto

end

section \<open>LevelDB\<close>

datatype LevelErr = ErrNotFound | OtherErr string

record 'db LevelDB =
  l_Get :: "'db \<Rightarrow> string \<Rightarrow> LevelErr + string"
  l_Put :: "string \<Rightarrow> string \<Rightarrow> 'db \<Rightarrow> string option \<times> 'db"
  l_Delete :: "string \<Rightarrow> 'db \<Rightarrow> string option \<times> 'db"
  l_Has :: "'db \<Rightarrow> string \<Rightarrow> bool res"
  l_Write :: "batch \<Rightarrow> 'db \<Rightarrow> string option \<times> 'db"

definition LevelDB_Get :: "'db LevelDB \<Rightarrow> 'db \<Rightarrow> string \<Rightarrow> string option res" where
  "LevelDB_Get l d key =
     (case l_Get l d key of
        Inl ErrNotFound \<Rightarrow> Inr None
      | Inl (OtherErr e) \<Rightarrow> Inl e
      | Inr v \<Rightarrow> Inr (Some v))"

fun LevelDB_GetBatch_loop :: "'db LevelDB \<Rightarrow> 'db \<Rightarrow> string list \<Rightarrow> (string \<times> string) list \<Rightarrow> (string \<times> string) list res" where
  "LevelDB_GetBatch_loop l d [] result = Inr result"
| "LevelDB_GetBatch_loop l d (key # keys) result =
     (case l_Get l d key of
        Inl (OtherErr e) \<Rightarrow> Inl e
      | Inl ErrNotFound \<Rightarrow> LevelDB_GetBatch_loop l d keys result
      | Inr v \<Rightarrow> LevelDB_GetBatch_loop l d keys (AList.update key v result))"

definition LevelDB_GetBatch :: "'db LevelDB \<Rightarrow> 'db \<Rightarrow> string list \<Rightarrow> (string \<times> string) list res" where
  "LevelDB_GetBatch l d keys = (if keys = [] then Inr [] else LevelDB_GetBatch_loop l d keys [])"

definition LevelDBProvider :: "'db LevelDB \<Rightarrow> 'db DatabaseProvider" where
  "LevelDBProvider l = \<lparr>p_Get = LevelDB_Get l, p_GetBatch = LevelDB_GetBatch l, p_Put = l_Put l,
     p_Delete = l_Delete l, p_Has = l_Has l, p_Write = l_Write l\<rparr>"

text \<open>What the client library documents of its database.\<close>

locale leveldb =
  fixes l :: "'db LevelDB" and contents :: "'db \<Rightarrow> string \<rightharpoonup> string"
  assumes l_Get_found: "l_Get l d k = Inr v \<Longrightarrow> contents d k = Some v"
    and l_Get_missing: "l_Get l d k = Inl ErrNotFound \<Longrightarrow> contents d k = None"
    and l_Put_ok: "l_Put l k v d = (None, d') \<Longrightarrow> contents d' = (contents d)(k \<mapsto> v)"
    and l_Delete_ok: "l_Delete l k d = (None, d') \<Longrightarrow> contents d' = (contents d)(k := None)"
    and l_Has_sound: "l_Has l d k = Inr h \<Longrightarrow> h \<longleftrightarrow> contents d k \<noteq> None"
    and l_Write_ok: "l_Write l b d = (None, d') \<Longrightarrow> contents d' = apply_batch b (contents d)"
    and l_Write_atomic: "l_Write l b d = (Some e, d') \<Longrightarrow> contents d' = contents d"
begin

lemma LevelDB_Get_sound: "LevelDB_Get l d k = Inr v \<Longrightarrow> v = contents d k"
  using l_Get_found [of d k] l_Get_missing [of d k]
  by (auto simp: LevelDB_Get_def split: sum.splits LevelErr.splits)

lemma LevelDB_GetBatch_loop_sound:
  assumes "LevelDB_GetBatch_loop l d ks result = Inr kvs" "distinct (map fst result)"
  shows "distinct (map fst kvs) \<and> map_of kvs = map_of result ++ (contents d |` set ks)"
  using assms
proof (induction ks arbitrary: result)
  case (Cons k ks)
  show ?case
  proof (cases "l_Get l d k")
    case (Inl e)
    then have "e = ErrNotFound" using Cons.prems(1) by (cases e) auto
    then have n: "contents d k = None" using Inl l_Get_missing by simp
    then show ?thesis
      using Cons.IH [of result] Cons.prems Inl \<open>e = ErrNotFound\<close> by (simp add: restrict_insert_missing)
  next
    case (Inr v)
    then have v: "contents d k = Some v" using l_Get_found by simp
    show ?thesis
      using Cons.IH [of "AList.update k v result"] Cons.prems Inr restrict_insert_found [of "contents d" k v "map_of result" "set ks"] v
      by (simp add: distinct_update update_conv' fun_upd_def)
  qed
qed simp

end

sublocale leveldb \<subseteq> database_provider "LevelDBProvider l" contents
proof (unfold_locales, goal_cases)
  case (2 d ks kvs)
  then show ?case
    using LevelDB_GetBatch_loop_sound [of d ks "[]" kvs]
    by (auto simp: LevelDBProvider_def LevelDB_GetBatch_def split: if_splits)
qed (use LevelDB_Get_sound l_Put_ok l_Delete_ok l_Has_sound l_Write_ok l_Write_atomic
     in \<open>simp_all add: LevelDBProvider_def\<close>)

section \<open>RocksDB\<close>

text \<open>A value handle of the client library is \<open>None\<close> when it does not exist.\<close>

record 'db GRocksDB =
  g_Get :: "'db \<Rightarrow> string \<Rightarrow> string option res"
  g_MultiGet :: "'db \<Rightarrow> string list \<Rightarrow> string option list res"
  g_Put :: "string \<Rightarrow> string \<Rightarrow> 'db \<Rightarrow> string option \<times> 'db"
  g_Delete :: "string \<Rightarrow> 'db \<Rightarrow> string option \<times> 'db"
  g_Write :: "batch \<Rightarrow> 'db \<Rightarrow> string option \<times> 'db"

definition RocksDB_Get :: "'db GRocksDB \<Rightarrow> 'db \<Rightarrow> string \<Rightarrow> string option res" where
  "RocksDB_Get g d key = (case g_Get g d key of Inl e \<Rightarrow> Inl e | Inr None \<Rightarrow> Inr None | Inr (Some data) \<Rightarrow> Inr (Some data))"

fun RocksDB_collect :: "string list \<Rightarrow> string option list \<Rightarrow> (string \<times> string) list \<Rightarrow> (string \<times> string) list" where
  "RocksDB_collect (key # keys) (Some data # values) result = RocksDB_collect keys values (AList.update key data result)"
| "RocksDB_collect (key # keys) (None # values) result = RocksDB_collect keys values result"
| "RocksDB_collect _ _ result = result"

definition RocksDB_GetBatch :: "'db GRocksDB \<Rightarrow> 'db \<Rightarrow> string list \<Rightarrow> (string \<times> string) list res" where
  "RocksDB_GetBatch g d keys =
     (if keys = [] then Inr []
      else case g_MultiGet g d keys of Inl e \<Rightarrow> Inl e | Inr values \<Rightarrow> Inr (RocksDB_collect keys values []))"

definition RocksDB_Has :: "'db GRocksDB \<Rightarrow> 'db \<Rightarrow> string \<Rightarrow> bool res" where
  "RocksDB_Has g d key = (case g_Get g d key of Inl e \<Rightarrow> Inl e | Inr v \<Rightarrow> Inr (v \<noteq> None))"

definition RocksDBProvider :: "'db GRocksDB \<Rightarrow> 'db DatabaseProvider" where
  "RocksDBProvider g = \<lparr>p_Get = RocksDB_Get g, p_GetBatch = RocksDB_GetBatch g, p_Put = g_Put g,
     p_Delete = g_Delete g, p_Has = RocksDB_Has g, p_Write = g_Write g\<rparr>"

locale grocksdb =
  fixes g :: "'db GRocksDB" and contents :: "'db \<Rightarrow> string \<rightharpoonup> string"
  assumes g_Get_sound: "g_Get g d k = Inr r \<Longrightarrow> r = contents d k"
    and g_MultiGet_sound: "g_MultiGet g d ks = Inr vs \<Longrightarrow> vs = map (contents d) ks"
    and g_Put_ok: "g_Put g k v d = (None, d') \<Longrightarrow> contents d' = (contents d)(k \<mapsto> v)"
    and g_Delete_ok: "g_Delete g k d = (None, d') \<Longrightarrow> contents d' = (contents d)(k := None)"
    and g_Write_ok: "g_Write g b d = (None, d') \<Longrightarrow> contents d' = apply_batch b (contents d)"
    and g_Write_atomic: "g_Write g b d = (Some e, d') \<Longrightarrow> contents d' = contents d"

lemma RocksDB_collect_sound:
  assumes "distinct (map fst result)"
  shows "distinct (map fst (RocksDB_collect ks (map m ks) result)) \<and>
    map_of (RocksDB_collect ks (map m ks) result) = map_of result ++ (m |` set ks)"
  using assms
proof (induction ks arbitrary: result)
  case (Cons k ks)
  show ?case
  proof (cases "m k")
    case None
    then show ?thesis using Cons.IH [of result] Cons.prems by (simp add: restrict_insert_missing)
  next
    case (Some v)
    then show ?thesis
      using Cons.IH [of "AList.update k v result"] Cons.prems restrict_insert_found [of m k v "map_of result" "set ks"]
      by (simp add: distinct_update update_conv' fun_upd_def)
  qed
qed simp

sublocale grocksdb \<subseteq> database_provider "RocksDBProvider g" contents
proof (unfold_locales, goal_cases)
  case (1 d k v)
  then show ?case using g_Get_sound [of d k]
    by (auto simp: RocksDBProvider_def RocksDB_Get_def split: sum.splits option.splits)
next
  case (2 d ks kvs)
  then show ?case
    using RocksDB_collect_sound [of "[]" ks "contents d"]
    by (auto simp: RocksDBProvider_def RocksDB_GetBatch_def split: if_splits sum.splits dest!: g_MultiGet_sound)
next
  case (5 d k b)
  then show ?case using g_Get_sound [of d k] by (auto simp: RocksDBProvider_def RocksDB_Has_def split: sum.splits)
qed (use g_Put_ok g_Delete_ok g_Write_ok g_Write_atomic in \<open>simp_all add: RocksDBProvider_def\<close>)

section \<open>A database in memory\<close>

text \<open>
  A database that satisfies what both client libraries document: a list of entries and a flag that
  says whether it can be written. A refused write reports an error and changes nothing.
\<close>

record MemDB =
  writable :: bool
  entries :: "(string \<times> string) list"

definition mem_contents :: "MemDB \<Rightarrow> string \<rightharpoonup> string" where
  "mem_contents d = map_of (entries d)"

definition mem_update :: "((string \<times> string) list \<Rightarrow> (string \<times> string) list) \<Rightarrow> MemDB \<Rightarrow> string option \<times> MemDB" where
  "mem_update f d = (if writable d then (None, d\<lparr>entries := f (entries d)\<rparr>) else (Some ''read-only'', d))"

primrec mem_op :: "BatchOp \<Rightarrow> (string \<times> string) list \<Rightarrow> (string \<times> string) list" where
  "mem_op (BPut k v) es = AList.update k v es"
| "mem_op (BDelete k) es = AList.delete k es"

definition mem_level :: "MemDB LevelDB" where
  "mem_level = \<lparr>
     l_Get = (\<lambda>d k. case mem_contents d k of None \<Rightarrow> Inl ErrNotFound | Some v \<Rightarrow> Inr v),
     l_Put = (\<lambda>k v. mem_update (mem_op (BPut k v))),
     l_Delete = (\<lambda>k. mem_update (mem_op (BDelete k))),
     l_Has = (\<lambda>d k. Inr (mem_contents d k \<noteq> None)),
     l_Write = (\<lambda>b. mem_update (fold mem_op b))\<rparr>"

definition mem_rocks :: "MemDB GRocksDB" where
  "mem_rocks = \<lparr>
     g_Get = (\<lambda>d k. Inr (mem_contents d k)),
     g_MultiGet = (\<lambda>d ks. Inr (map (mem_contents d) ks)),
     g_Put = (\<lambda>k v. mem_update (mem_op (BPut k v))),
     g_Delete = (\<lambda>k. mem_update (mem_op (BDelete k))),
     g_Write = (\<lambda>b. mem_update (fold mem_op b))\<rparr>"

lemma mem_op_apply: "map_of (mem_op x es) = apply_op x (map_of es)"
  by (cases x) (simp_all add: update_conv' delete_conv')

lemma mem_batch_apply: "map_of (fold mem_op b es) = apply_batch b (map_of es)"
  by (induction b arbitrary: es) (simp_all add: mem_op_apply)

lemma mem_update_result:
  assumes "mem_update f d = (e, d')"
  shows "mem_contents d' = (if e = None then map_of (f (entries d)) else mem_contents d)"
  using assms by (auto simp: mem_update_def mem_contents_def split: if_splits)

interpretation mem_level: leveldb mem_level mem_contents
  by unfold_locales
    (auto simp: mem_level_def update_conv' delete_conv' mem_op_apply mem_batch_apply mem_contents_def dest!: mem_update_result split: option.splits)

interpretation mem_rocks: grocksdb mem_rocks mem_contents
  by unfold_locales
    (auto simp: mem_rocks_def update_conv' delete_conv' mem_op_apply mem_batch_apply mem_contents_def dest!: mem_update_result)

section \<open>Iteration over a prefix\<close>

text \<open>
  The loop of \<open>IteratePrefix\<close>, the same in both providers: the library's iterator runs through the
  entries from the sought key on, in key order. The callback answers whether to go on.
\<close>

fun IteratePrefix_loop :: "string \<Rightarrow> (string \<Rightarrow> string \<Rightarrow> 's \<Rightarrow> bool \<times> 's) \<Rightarrow> (string \<times> string) list \<Rightarrow> 's \<Rightarrow> 's" where
  "IteratePrefix_loop pre cb [] s = s"
| "IteratePrefix_loop pre cb ((key, val) # rest) s =
     (if length key < length pre \<or> \<not> prefix pre key then s
      else (case cb key val s of (continue, s') \<Rightarrow> if continue then IteratePrefix_loop pre cb rest s' else s'))"

definition IteratePrefix :: "(string \<Rightarrow> 'db \<Rightarrow> (string \<times> string) list) \<Rightarrow> 'db \<Rightarrow> string \<Rightarrow> (string \<Rightarrow> string \<Rightarrow> 's \<Rightarrow> bool \<times> 's) \<Rightarrow> 's \<Rightarrow> 's" where
  "IteratePrefix seek d pre cb s = IteratePrefix_loop pre cb (seek pre d) s"

text \<open>Between a prefix and a string that has it, in the order of strings, everything has it.\<close>

lemma prefix_convex:
  fixes a b pre :: string
  assumes "pre \<le> a" "a \<le> b" "prefix pre b"
  shows "prefix pre a"
  using assms
proof (induction pre arbitrary: a b)
  case (Cons c pre)
  then obtain b' where b: "b = c # b'" "prefix pre b'" by (cases b) auto
  obtain x a' where a: "a = x # a'" using Cons.prems(1) by (cases a) auto
  have "x = c" using Cons.prems(1,2) a b by (auto simp: Cons_le_Cons)
  then show ?case using Cons.IH [of a' b'] Cons.prems(1,2) a b by (auto simp: Cons_le_Cons)
qed simp

lemma IteratePrefix_loop_takeWhile:
  assumes "\<And>k v s. fst (cb k v s)"
  shows "IteratePrefix_loop pre cb es s = fold (\<lambda>(k, v) s. snd (cb k v s)) (takeWhile (prefix pre \<circ> fst) es) s"
proof (induction es arbitrary: s)
  case (Cons e es)
  obtain k v where e: "e = (k, v)" by force
  have "prefix pre k \<Longrightarrow> length pre \<le> length k" by (rule prefix_length_le)
  then show ?case using Cons.IH assms [of k v s] e by (cases "cb k v s") auto
qed simp

lemma takeWhile_prefix_filter:
  fixes es :: "(string \<times> 'v) list"
  assumes "sorted_wrt (<) (map fst es)" "\<forall>e \<in> set es. pre \<le> fst e"
  shows "takeWhile (prefix pre \<circ> fst) es = filter (prefix pre \<circ> fst) es"
  using assms
proof (induction es)
  case (Cons e es)
  have "\<not> prefix pre (fst x)" if "\<not> prefix pre (fst e)" "x \<in> set es" for x
    using prefix_convex [of pre "fst e" "fst x"] that Cons.prems by (force simp: less_le)
  then show ?case using Cons by (auto simp: filter_empty_conv)
qed simp

text \<open>
  Iterating over a prefix hands the callback, in key order and each once, exactly the stored
  entries whose key has the prefix, as long as the callback does not stop, when the library's
  iterator runs through the entries from the prefix on in key order.
\<close>

theorem IteratePrefix_visits:
  assumes "sorted_wrt (<) (map fst (seek pre d))"
    and "\<And>k v. (k, v) \<in> set (seek pre d) \<longleftrightarrow> contents d k = Some v \<and> pre \<le> k"
    and "\<And>k v s. fst (cb k v s)"
  shows "\<exists>es. IteratePrefix seek d pre cb s = fold (\<lambda>(k, v) s. snd (cb k v s)) es s \<and>
    sorted_wrt (<) (map fst es) \<and> set es = {(k, v). contents d k = Some v \<and> prefix pre k}"
proof (intro exI conjI)
  let ?es = "filter (prefix pre \<circ> fst) (seek pre d)"
  show "IteratePrefix seek d pre cb s = fold (\<lambda>(k, v) s. snd (cb k v s)) ?es s"
    unfolding IteratePrefix_def IteratePrefix_loop_takeWhile [of cb, OF assms(3)]
    using takeWhile_prefix_filter [OF assms(1), of pre] assms(2) by (metis prod.collapse)
  show "sorted_wrt (<) (map fst ?es)"
    using assms(1) by (induction "seek pre d") (auto simp: sorted_wrt_map intro: sorted_wrt_filter)
  have "pre \<le> k" if "prefix pre k" for k
    using that by (induction pre k rule: list_induct2') auto
  then show "set ?es = {(k, v). contents d k = Some v \<and> prefix pre k}"
    using assms(2) by auto
qed

definition mem_seek :: "string \<Rightarrow> MemDB \<Rightarrow> (string \<times> string) list" where
  "mem_seek pre d = map (\<lambda>k. (k, the (mem_contents d k))) (sort (filter (\<lambda>k. pre \<le> k) (remdups (map fst (entries d)))))"

definition sample_db :: MemDB where
  "sample_db = \<lparr>writable = True, entries = [(''tx:b'', ''2''), (''tx_meta:b'', ''3''), (''tx:a'', ''1'')]\<rparr>"

theorem IteratePrefix_visits_witness:
  "\<exists>es. IteratePrefix mem_seek sample_db ''tx:'' (\<lambda>k v s. (True, s @ [v])) [] = fold (\<lambda>(k, v) s. s @ [v]) es [] \<and>
    sorted_wrt (<) (map fst es) \<and> set es = {(k, v). mem_contents sample_db k = Some v \<and> prefix ''tx:'' k}"
proof -
  have s: "mem_seek ''tx:'' sample_db = [(''tx:a'', ''1''), (''tx:b'', ''2''), (''tx_meta:b'', ''3'')]"
    by code_simp
  have le: "''tx:'' \<le> ''tx:a''" "''tx:'' \<le> ''tx:b''" "''tx:'' \<le> ''tx_meta:b''"
    by code_simp+
  have o: "sorted_wrt (<) (map fst (mem_seek ''tx:'' sample_db))"
    by code_simp
  have m: "(k, v) \<in> set (mem_seek ''tx:'' sample_db) \<longleftrightarrow> mem_contents sample_db k = Some v \<and> ''tx:'' \<le> k" for k v
  proof -
    have c: "mem_contents sample_db = map_of [(''tx:b'', ''2''), (''tx_meta:b'', ''3''), (''tx:a'', ''1'')]"
      by (simp add: mem_contents_def sample_db_def)
    show ?thesis unfolding s c using le by auto
  qed
  show ?thesis
    using IteratePrefix_visits [of mem_seek "''tx:''" sample_db mem_contents "\<lambda>k v s. (True, s @ [v])" "[]", OF o m]
    by simp
qed

end
