(* ===== verification/Poh_Entries.thy ===== *)
theory Poh_Entries
  imports Transactions "HOL-Library.Code_Target_Nat"
begin

text \<open>
  The entries of the proof-of-history chain and their verification: \<open>poh/entry.go\<close>,
  \<open>poh/constants.go\<close>, \<open>poh/verify.go\<close>, \<open>poh/utils.go\<close> and the two helpers of \<open>poh/poh_recorder.go\<close> they
  use. SHA-256 and the JSON encoding of a transaction are the parameters \<open>sha\<close> and \<open>Marshal\<close>. A
  transaction pointer is \<open>None\<close> when it is nil. Hashes are byte strings.
\<close>

section \<open>Entries\<close>

record Entry =
  e_NumHashes :: u64
  e_Hash :: string
  e_Transactions :: "Transaction option list"
  e_Tick :: bool

record PersistentEntry =
  pe_NumHashes :: u64
  pe_Hash :: string
  pe_TxHashes :: "string list"
  pe_Tick :: bool

definition NewTickEntry :: "u64 \<Rightarrow> string \<Rightarrow> Entry" where
  "NewTickEntry numHashes hash = \<lparr>e_NumHashes = numHashes, e_Hash = hash, e_Transactions = [], e_Tick = True\<rparr>"

definition NewTxEntry :: "u64 \<Rightarrow> string \<Rightarrow> Transaction option list \<Rightarrow> Entry" where
  "NewTxEntry numHashes hash txs = \<lparr>e_NumHashes = numHashes, e_Hash = hash, e_Transactions = txs, e_Tick = False\<rparr>"

abbreviation (input) "MaxNumHashes \<equiv> 100 :: u64"
abbreviation (input) "MaxEntriesPerSlot \<equiv> 100 :: nat"
abbreviation (input) "MaxTransactionsPerEntry \<equiv> 6000 :: nat"
abbreviation (input) "MaxEntrySize \<equiv> (1024 * 1024) :: nat"
abbreviation (input) "MaxSlotHashQueueSize \<equiv> 10000 :: nat"

definition HashTransactions :: "(string \<Rightarrow> string) \<Rightarrow> (Transaction option \<Rightarrow> string) \<Rightarrow> Transaction option list \<Rightarrow> string" where
  "HashTransactions sha Marshal txs = sha (concat (map (Bytes Marshal) txs))"

definition estimateEntrySize :: "Entry \<Rightarrow> nat" where
  "estimateEntrySize entry = 8 + 32 + 1 + length (e_Transactions entry) * 32"

section \<open>Validation and verification\<close>

datatype entry_error =
    NumHashesTooLarge u64
  | TooManyTransactions nat
  | NilTransaction nat
  | EmptySender nat
  | EmptyRecipient nat
  | TransactionTooLarge nat nat
  | EntryTooLarge nat

fun ValidateEntry_txs :: "(Transaction option \<Rightarrow> string) \<Rightarrow> nat \<Rightarrow> Transaction option list \<Rightarrow> entry_error option" where
  "ValidateEntry_txs Marshal i [] = None"
| "ValidateEntry_txs Marshal i (None # txs) = Some (NilTransaction i)"
| "ValidateEntry_txs Marshal i (Some tx # txs) =
     (if tx_Sender tx = '''' then Some (EmptySender i)
      else if tx_Recipient tx = '''' then Some (EmptyRecipient i)
      else let txSize = length (Bytes Marshal (Some tx)) in
        if txSize > MaxEntrySize div MaxTransactionsPerEntry then Some (TransactionTooLarge i txSize)
        else ValidateEntry_txs Marshal (i + 1) txs)"

definition ValidateEntry :: "(Transaction option \<Rightarrow> string) \<Rightarrow> Entry \<Rightarrow> entry_error option" where
  "ValidateEntry Marshal e =
     (if e_NumHashes e > MaxNumHashes then Some (NumHashesTooLarge (e_NumHashes e))
      else if length (e_Transactions e) > MaxTransactionsPerEntry then Some (TooManyTransactions (length (e_Transactions e)))
      else case ValidateEntry_txs Marshal 0 (e_Transactions e) of
        Some err \<Rightarrow> Some err
      | None \<Rightarrow> (if estimateEntrySize e > MaxEntrySize then Some (EntryTooLarge (estimateEntrySize e)) else None))"

datatype poh_error =
    TooManyEntries nat
  | InvalidEntry nat entry_error
  | PoHMismatch nat string string

text \<open>
  The inner loop of \<open>VerifyEntries\<close> hashes \<open>NumHashes - 1\<close> times, the difference taken in 64 bits.
\<close>

fun VerifyEntries_loop :: "(string \<Rightarrow> string) \<Rightarrow> (Transaction option \<Rightarrow> string) \<Rightarrow> string \<Rightarrow> nat \<Rightarrow> Entry list \<Rightarrow> poh_error option" where
  "VerifyEntries_loop sha Marshal cur i [] = None"
| "VerifyEntries_loop sha Marshal cur i (e # es) =
     (case ValidateEntry Marshal e of
        Some err \<Rightarrow> Some (InvalidEntry i err)
      | None \<Rightarrow>
          (let cur1 = (sha ^^ unat (e_NumHashes e - 1)) cur;
               cur2 = (if e_Transactions e = [] then sha cur1
                       else let mixin = HashTransactions sha Marshal (e_Transactions e) in sha (cur1 @ mixin)) in
           if cur2 \<noteq> e_Hash e then Some (PoHMismatch i (e_Hash e) cur2)
           else VerifyEntries_loop sha Marshal cur2 (i + 1) es))"

text \<open>\<open>None\<close>: the slot verifies.\<close>

definition VerifyEntries :: "(string \<Rightarrow> string) \<Rightarrow> (Transaction option \<Rightarrow> string) \<Rightarrow> string \<Rightarrow> Entry list \<Rightarrow> poh_error option" where
  "VerifyEntries sha Marshal prev entries =
     (if length entries > MaxEntriesPerSlot then Some (TooManyEntries (length entries))
      else VerifyEntries_loop sha Marshal prev 0 entries)"

definition GenerateTickOnlyEntries_step :: "(string \<Rightarrow> string) \<Rightarrow> u64 \<Rightarrow> string \<times> Entry list \<Rightarrow> string \<times> Entry list" where
  "GenerateTickOnlyEntries_step sha hashesPerTick = (\<lambda>(cur, entries).
     let cur1 = (sha ^^ (unat hashesPerTick - 1)) cur; cur2 = sha cur1 in
     (cur2, entries @ [NewTickEntry hashesPerTick cur2]))"

definition GenerateTickOnlyEntries :: "(string \<Rightarrow> string) \<Rightarrow> string \<Rightarrow> int \<Rightarrow> u64 \<Rightarrow> Entry list" where
  "GenerateTickOnlyEntries sha seed numEntries hashesPerTick =
     (if numEntries \<le> 0 \<or> hashesPerTick = 0 then []
      else snd ((GenerateTickOnlyEntries_step sha hashesPerTick ^^ nat numEntries) (seed, [])))"

section \<open>What verification decides\<close>

text \<open>The hash an entry must carry after a given one, and the transactions an entry may hold.\<close>

definition next_hash :: "(string \<Rightarrow> string) \<Rightarrow> (Transaction option \<Rightarrow> string) \<Rightarrow> string \<Rightarrow> Entry \<Rightarrow> string" where
  "next_hash sha Marshal prev e =
     (let cur = (sha ^^ unat (e_NumHashes e - 1)) prev in
      if e_Transactions e = [] then sha cur
      else sha (cur @ HashTransactions sha Marshal (e_Transactions e)))"

definition tx_fits :: "(Transaction option \<Rightarrow> string) \<Rightarrow> Transaction option \<Rightarrow> bool" where
  "tx_fits Marshal tx = (case tx of None \<Rightarrow> False | Some t \<Rightarrow>
     tx_Sender t \<noteq> '''' \<and> tx_Recipient t \<noteq> '''' \<and> length (Bytes Marshal (Some t)) \<le> 174)"

definition entry_fits :: "(Transaction option \<Rightarrow> string) \<Rightarrow> Entry \<Rightarrow> bool" where
  "entry_fits Marshal e \<longleftrightarrow> unat (e_NumHashes e) \<le> 100 \<and> length (e_Transactions e) \<le> 6000 \<and>
     list_all (tx_fits Marshal) (e_Transactions e)"

lemma size_per_transaction: "MaxEntrySize div MaxTransactionsPerEntry = 174"
  by simp

lemma ValidateEntry_txs_None: "ValidateEntry_txs Marshal i txs = None \<longleftrightarrow> list_all (tx_fits Marshal) txs"
  by (induction Marshal i txs rule: ValidateEntry_txs.induct)
    (auto simp: tx_fits_def size_per_transaction Let_def)

text \<open>The bound on the size of a whole entry is implied by the one on the number of transactions.\<close>

lemma ValidateEntry_None: "ValidateEntry Marshal e = None \<longleftrightarrow> entry_fits Marshal e"
proof -
  have "length (e_Transactions e) \<le> 6000 \<Longrightarrow> \<not> MaxEntrySize < estimateEntrySize e"
    by (simp add: estimateEntrySize_def)
  moreover have "e_NumHashes e > MaxNumHashes \<longleftrightarrow> \<not> unat (e_NumHashes e) \<le> 100"
    by (simp add: word_less_nat_alt not_le)
  ultimately show ?thesis
    using ValidateEntry_txs_None [of Marshal 0 "e_Transactions e"]
    by (auto simp: ValidateEntry_def entry_fits_def split: option.splits)
qed

fun chain :: "(string \<Rightarrow> string) \<Rightarrow> (Transaction option \<Rightarrow> string) \<Rightarrow> string \<Rightarrow> Entry list \<Rightarrow> bool" where
  "chain sha Marshal prev [] = True"
| "chain sha Marshal prev (e # es) \<longleftrightarrow> e_Hash e = next_hash sha Marshal prev e \<and> chain sha Marshal (e_Hash e) es"

lemma chain_append:
  "chain sha Marshal prev (xs @ ys) \<longleftrightarrow> chain sha Marshal prev xs \<and> chain sha Marshal (last (prev # map e_Hash xs)) ys"
  by (induction xs arbitrary: prev) auto

lemma VerifyEntries_loop_step:
  assumes "entry_fits Marshal e"
  shows "VerifyEntries_loop sha Marshal cur i (e # es) =
    (if next_hash sha Marshal cur e = e_Hash e then VerifyEntries_loop sha Marshal (e_Hash e) (i + 1) es
     else Some (PoHMismatch i (e_Hash e) (next_hash sha Marshal cur e)))"
proof -
  have "ValidateEntry Marshal e = None" using assms by (simp add: ValidateEntry_None)
  then show ?thesis by (simp add: next_hash_def Let_def)
qed

lemma VerifyEntries_loop_reject:
  assumes "\<not> entry_fits Marshal e"
  shows "\<exists>err. VerifyEntries_loop sha Marshal cur i (e # es) = Some (InvalidEntry i err)"
proof -
  have "ValidateEntry Marshal e \<noteq> None" using assms by (simp add: ValidateEntry_None)
  then show ?thesis by auto
qed

lemma VerifyEntries_loop_accepts:
  "VerifyEntries_loop sha Marshal cur i es = None \<longleftrightarrow>
     list_all (entry_fits Marshal) es \<and> chain sha Marshal cur es"
proof (induction es arbitrary: cur i)
  case (Cons e es)
  show ?case
    using VerifyEntries_loop_step [of Marshal e sha cur i es] VerifyEntries_loop_reject [of Marshal e sha cur i es] Cons.IH
    by (cases "entry_fits Marshal e") (auto simp del: VerifyEntries_loop.simps)
qed simp

lemma chain_nth:
  "chain sha Marshal prev es \<longleftrightarrow>
     (\<forall>i < length es. e_Hash (es ! i) = next_hash sha Marshal ((prev # map e_Hash es) ! i) (es ! i))"
proof (induction es arbitrary: prev)
  case (Cons e es)
  show ?case unfolding chain.simps Cons.IH by (auto simp: All_less_Suc2)
qed simp

text \<open>
  C22: verification accepts a slot exactly when it has at most 100 entries, each with at most 100
  hashes and at most 6000 transactions that are not nil, have a sender and a recipient and take at
  most 174 bytes, and every entry carries the hash that follows from the entry before it (the first:
  from the given hash).
\<close>

theorem VerifyEntries_accepts:
  "VerifyEntries sha Marshal prev es = None \<longleftrightarrow>
     length es \<le> 100 \<and> list_all (entry_fits Marshal) es \<and>
     list_all (\<lambda>i. e_Hash (es ! i) = next_hash sha Marshal ((prev # map e_Hash es) ! i) (es ! i)) [0..<length es]"
  by (auto simp: VerifyEntries_def VerifyEntries_loop_accepts chain_nth list_all_iff)

text \<open>
  A transaction whose JSON takes more than 174 bytes makes every entry that holds it invalid, however
  few transactions the entry has.
\<close>

lemma long_transaction_rejected:
  assumes "174 < length (Bytes Marshal (Some tx))" "Some tx \<in> set (e_Transactions e)"
  shows "ValidateEntry Marshal e \<noteq> None"
proof -
  have "\<not> tx_fits Marshal (Some tx)" using assms(1) by (simp add: tx_fits_def)
  then have "\<not> entry_fits Marshal e" using assms(2) unfolding entry_fits_def list_all_iff by blast
  then show ?thesis by (simp add: ValidateEntry_None)
qed

text \<open>
  An entry that claims no hash passes validation, and the loop that checks it then runs \<open>2 ^ 64 - 1\<close>
  times.
\<close>

lemma zero_hashes_loop:
  assumes "e_NumHashes e = 0" "e_Transactions e = []"
  shows "ValidateEntry Marshal e = None" and "unat (e_NumHashes e - 1) = 2 ^ 64 - 1"
proof -
  show "ValidateEntry Marshal e = None" using assms by (simp add: ValidateEntry_None entry_fits_def)
  have "unat (0 - 1 :: u64) = 2 ^ 64 - 1" by (simp add: unsigned_minus_1_eq_mask mask_eq_exp_minus_1)
  then show "unat (e_NumHashes e - 1) = 2 ^ 64 - 1" using assms(1) by simp
qed

section \<open>Generated ticks\<close>

lemma GenerateTickOnlyEntries_chain:
  assumes "0 < h"
  shows "case (GenerateTickOnlyEntries_step sha h ^^ n) (seed, []) of (cur, es) \<Rightarrow>
    length es = n \<and> chain sha Marshal seed es \<and> cur = last (seed # map e_Hash es) \<and>
    (\<forall>e \<in> set es. e_NumHashes e = h \<and> e_Transactions e = [])"
proof (induction n)
  case (Suc n)
  obtain cur es where r: "(GenerateTickOnlyEntries_step sha h ^^ n) (seed, []) = (cur, es)" by force
  have "unat (h - 1) = unat h - 1" using assms by (simp add: unat_minus_one word_neq_0_conv)
  then show ?case
    using Suc r
    by (auto simp: GenerateTickOnlyEntries_step_def Let_def chain_append NewTickEntry_def next_hash_def)
qed simp

text \<open>
  C23: the tick-only entries generated for a seed verify from that seed, and there are as many as
  asked for, when the number of entries and the hashes per tick are positive and within the limits.
\<close>

theorem GenerateTickOnlyEntries_verifies:
  assumes "0 < n" "n \<le> 100" "0 < h" "h \<le> 100"
  shows "length (GenerateTickOnlyEntries sha seed n h) = nat n \<and>
    VerifyEntries sha Marshal seed (GenerateTickOnlyEntries sha seed n h) = None"
proof -
  obtain cur es where r: "(GenerateTickOnlyEntries_step sha h ^^ nat n) (seed, []) = (cur, es)" by force
  have "unat h \<le> 100" using assms(4) by (simp add: word_le_nat_alt)
  then show ?thesis
    using GenerateTickOnlyEntries_chain [OF assms(3), where n = "nat n" and sha = sha and seed = seed and Marshal = Marshal] assms r
    by (auto simp: GenerateTickOnlyEntries_def VerifyEntries_def
        VerifyEntries_loop_accepts list_all_iff entry_fits_def)
qed

theorem GenerateTickOnlyEntries_verifies_witness:
  "length (GenerateTickOnlyEntries rev ''ab'' 3 2) = nat 3 \<and>
    VerifyEntries rev (\<lambda>_. '''') ''ab'' (GenerateTickOnlyEntries rev ''ab'' 3 2) = None"
  by (rule GenerateTickOnlyEntries_verifies) simp_all

end
