(* ===== verification/Poh_Clock.thy ===== *)
theory Poh_Clock
  imports Poh_Entries "HOL-Library.AList"
begin

text \<open>
  The proof-of-history clock \<open>poh/poh.go\<close>, the queue of slot hashes \<open>poh/slot_hash_queue.go\<close>, the
  recorder \<open>poh/poh_recorder.go\<close> and the service loop \<open>poh/poh_service.go\<close> that emits entries. The
  goroutines that use them are the events of \<open>clock_step\<close>: each event is one critical section under
  the recorder's or the clock's mutex. Wall-clock times and the unused fields \<open>leaderSchedule\<close> and
  \<open>myPubkey\<close> of the recorder are left out.
\<close>

section \<open>The clock\<close>

record PohEntry =
  ph_NumHashes :: u64
  ph_Hash :: string
  ph_Tick :: bool

record Poh =
  poh_Hash :: string
  poh_NumHashes :: u64
  poh_HashesPerTick :: u64
  poh_RemainingHashes :: u64

abbreviation (input) LowPowerMode :: u64 where "LowPowerMode \<equiv> - 1"

definition NewPoh :: "(string \<Rightarrow> string) \<Rightarrow> string \<Rightarrow> u64 option \<Rightarrow> (unit, Poh) outcome" where
  "NewPoh sha seed hashesPerTickOpt =
     (let hashesPerTick = (case hashesPerTickOpt of None \<Rightarrow> LowPowerMode | Some h \<Rightarrow> h) in
      if hashesPerTick \<le> 1 then Panics
      else Returns \<lparr>poh_Hash = sha seed, poh_NumHashes = 0, poh_HashesPerTick = hashesPerTick, poh_RemainingHashes = hashesPerTick\<rparr>)"

definition Poh_Reset :: "string \<Rightarrow> Poh \<Rightarrow> Poh" where
  "Poh_Reset seed p = p\<lparr>poh_Hash := seed, poh_RemainingHashes := poh_HashesPerTick p, poh_NumHashes := 0\<rparr>"

definition hashOnce :: "(string \<Rightarrow> string) \<Rightarrow> string \<Rightarrow> Poh \<Rightarrow> Poh" where
  "hashOnce sha h p = p\<lparr>poh_Hash := sha h, poh_NumHashes := poh_NumHashes p + 1, poh_RemainingHashes := poh_RemainingHashes p - 1\<rparr>"

definition Poh_Record :: "(string \<Rightarrow> string) \<Rightarrow> string \<Rightarrow> Poh \<Rightarrow> PohEntry option \<times> Poh" where
  "Poh_Record sha mixin p =
     (if poh_RemainingHashes p \<le> 1 then (None, p)
      else let q = hashOnce sha (poh_Hash p @ mixin) p in
        (Some \<lparr>ph_NumHashes = poh_NumHashes q, ph_Hash = poh_Hash q, ph_Tick = False\<rparr>, q\<lparr>poh_NumHashes := 0\<rparr>))"

definition Poh_Tick :: "(string \<Rightarrow> string) \<Rightarrow> Poh \<Rightarrow> PohEntry option \<times> Poh" where
  "Poh_Tick sha p =
     (if poh_RemainingHashes p \<noteq> 1 then (None, p)
      else let q = hashOnce sha (poh_Hash p) p in
        (Some \<lparr>ph_NumHashes = poh_NumHashes q, ph_Hash = poh_Hash q, ph_Tick = True\<rparr>,
         q\<lparr>poh_RemainingHashes := poh_HashesPerTick q, poh_NumHashes := 0\<rparr>))"

definition TickFastForward :: "(string \<Rightarrow> string) \<Rightarrow> string \<Rightarrow> u64 \<Rightarrow> u64 \<Rightarrow> Poh \<Rightarrow> string \<times> Poh" where
  "TickFastForward sha seenHash fromTick toTick p =
     (let numHashes = (toTick - fromTick) * poh_HashesPerTick p;
          h = (sha ^^ unat numHashes) seenHash in
      (h, p\<lparr>poh_Hash := h, poh_NumHashes := 0, poh_RemainingHashes := poh_HashesPerTick p\<rparr>))"

text \<open>One round of the loop of \<open>AutoHash\<close>, when its ticker fires.\<close>

definition AutoHash :: "(string \<Rightarrow> string) \<Rightarrow> Poh \<Rightarrow> Poh" where
  "AutoHash sha p = (if poh_RemainingHashes p > 1 then hashOnce sha (poh_Hash p) p else p)"

section \<open>Slot hashes\<close>

record SlotHashQueue =
  slotMap :: "(u64 \<times> string) list"
  maxSize :: nat

definition zero_hash :: string where "zero_hash = replicate 32 (CHR 0x00)"

definition NewSlotHashQueue :: SlotHashQueue where
  "NewSlotHashQueue = \<lparr>slotMap = [(0, zero_hash)], maxSize = MaxSlotHashQueueSize\<rparr>"

definition Queue_Put :: "u64 \<Rightarrow> string \<Rightarrow> SlotHashQueue \<Rightarrow> SlotHashQueue" where
  "Queue_Put slot hash q =
     (if map_of (slotMap q) slot \<noteq> None then q\<lparr>slotMap := AList.update slot hash (slotMap q)\<rparr>
      else let m = AList.update slot hash (slotMap q) in
        if length m > maxSize q then q\<lparr>slotMap := AList.delete (slot - of_nat (maxSize q)) m\<rparr>
        else q\<lparr>slotMap := m\<rparr>)"

definition Queue_Get :: "u64 \<Rightarrow> SlotHashQueue \<Rightarrow> string option" where
  "Queue_Get slot q = map_of (slotMap q) slot"

section \<open>The recorder\<close>

record PohRecorder =
  r_poh :: Poh
  r_ticksPerSlot :: u64
  r_tickHeight :: u64
  r_entries :: "Entry list"
  r_slotHashQueue :: SlotHashQueue

definition NewPohRecorder :: "Poh \<Rightarrow> u64 \<Rightarrow> u64 \<Rightarrow> PohRecorder" where
  "NewPohRecorder poh ticksPerSlot latestSlot = \<lparr>r_poh = poh, r_ticksPerSlot = ticksPerSlot,
     r_tickHeight = latestSlot * ticksPerSlot, r_entries = [], r_slotHashQueue = NewSlotHashQueue\<rparr>"

definition Recorder_Reset :: "string \<Rightarrow> u64 \<Rightarrow> PohRecorder \<Rightarrow> PohRecorder" where
  "Recorder_Reset lastHash slot r = r\<lparr>r_tickHeight := slot * r_ticksPerSlot r, r_poh := Poh_Reset lastHash (r_poh r),
     r_entries := [], r_slotHashQueue := Queue_Put slot lastHash (r_slotHashQueue r)\<rparr>"

definition FastForward :: "(string \<Rightarrow> string) \<Rightarrow> string \<Rightarrow> u64 \<Rightarrow> u64 \<Rightarrow> PohRecorder \<Rightarrow> string \<times> PohRecorder" where
  "FastForward sha seenHash fromSlot toSlot r =
     (let fromTick = fromSlot * r_ticksPerSlot r; toTick = toSlot * r_ticksPerSlot r;
          p = snd (TickFastForward sha seenHash fromTick toTick (r_poh r)) in
      (poh_Hash p, r\<lparr>r_poh := p\<rparr>))"

datatype record_error =
    RecordTooManyTransactions nat
  | SlotFull nat
  | TickRequired
  | RecordNumHashesTooLarge u64
  | RecordEntryTooLarge nat

definition RecordTxs :: "(string \<Rightarrow> string) \<Rightarrow> (Transaction option \<Rightarrow> string) \<Rightarrow> Transaction option list \<Rightarrow> PohRecorder \<Rightarrow> (record_error + Entry) \<times> PohRecorder" where
  "RecordTxs sha Marshal txs r =
     (if length txs > MaxTransactionsPerEntry then (Inl (RecordTooManyTransactions (length txs)), r)
      else let mixin = HashTransactions sha Marshal txs in
        if length (r_entries r) \<ge> MaxEntriesPerSlot then (Inl (SlotFull (length (r_entries r))), r)
        else case Poh_Record sha mixin (r_poh r) of
          (None, p) \<Rightarrow> (Inl TickRequired, r\<lparr>r_poh := p\<rparr>)
        | (Some pohEntry, p) \<Rightarrow>
            (if ph_NumHashes pohEntry > MaxNumHashes
             then (Inl (RecordNumHashesTooLarge (ph_NumHashes pohEntry)), r\<lparr>r_poh := p\<rparr>)
             else let entry = NewTxEntry (ph_NumHashes pohEntry) (ph_Hash pohEntry) txs in
               if estimateEntrySize entry > MaxEntrySize
               then (Inl (RecordEntryTooLarge (estimateEntrySize entry)), r\<lparr>r_poh := p\<rparr>)
               else (Inr entry, r\<lparr>r_poh := p, r_entries := r_entries r @ [entry]\<rparr>)))"

text \<open>\<open>None\<close>: division by zero ticks per slot.\<close>

definition IsLastTickOfSlot :: "PohRecorder \<Rightarrow> bool option" where
  "IsLastTickOfSlot r = (if r_ticksPerSlot r = 0 then None else Some (r_tickHeight r mod r_ticksPerSlot r = 0))"

definition Recorder_Tick :: "(string \<Rightarrow> string) \<Rightarrow> PohRecorder \<Rightarrow> (unit, Entry option) outcome \<times> PohRecorder" where
  "Recorder_Tick sha r =
     (case Poh_Tick sha (r_poh r) of
        (None, p) \<Rightarrow> (Returns None, r\<lparr>r_poh := p\<rparr>)
      | (Some pohEntry, p) \<Rightarrow>
          (if ph_NumHashes pohEntry > MaxNumHashes then (Returns None, r\<lparr>r_poh := p\<rparr>)
           else let entry = NewTickEntry (ph_NumHashes pohEntry) (ph_Hash pohEntry);
                    r1 = r\<lparr>r_poh := p, r_tickHeight := r_tickHeight r + 1\<rparr> in
             case IsLastTickOfSlot r1 of
               None \<Rightarrow> (Panics, r1)
             | Some lastTick \<Rightarrow>
                 (Returns (Some entry),
                  if lastTick
                  then r1\<lparr>r_slotHashQueue := Queue_Put (r_tickHeight r1 div r_ticksPerSlot r1) (e_Hash entry) (r_slotHashQueue r1)\<rparr>
                  else r1)))"

definition DrainEntries :: "PohRecorder \<Rightarrow> Entry list \<times> PohRecorder" where
  "DrainEntries r = (r_entries r, r\<lparr>r_entries := []\<rparr>)"

definition CurrentPassedSlot :: "PohRecorder \<Rightarrow> u64 option" where
  "CurrentPassedSlot r = (if r_ticksPerSlot r = 0 then None else Some (r_tickHeight r div r_ticksPerSlot r))"

definition CurrentSlot :: "PohRecorder \<Rightarrow> u64 option" where
  "CurrentSlot r = (if r_ticksPerSlot r = 0 then None else Some (r_tickHeight r div r_ticksPerSlot r + 1))"

definition GetSlotHash :: "u64 \<Rightarrow> PohRecorder \<Rightarrow> string" where
  "GetSlotHash slot r = (case Queue_Get slot (r_slotHashQueue r) of None \<Rightarrow> zero_hash | Some h \<Rightarrow> h)"

abbreviation (input) GetSlotHashFromQueue :: "u64 \<Rightarrow> PohRecorder \<Rightarrow> string option" where
  "GetSlotHashFromQueue slot r \<equiv> Queue_Get slot (r_slotHashQueue r)"

section \<open>The goroutines around the recorder\<close>

text \<open>
  The state of the goroutines: the recorder, the local variable \<open>entries\<close> of \<open>tickAndFlush\<close> between its
  two calls (\<open>None\<close> outside), and the entries handed to \<open>OnEntry\<close> so far.
\<close>

record PohSystem =
  sys_recorder :: PohRecorder
  sys_drained :: "Entry list option"
  sys_emitted :: "Entry list"

datatype clock_event = EvAutoHash | EvRecord "Transaction option list" | EvDrain | EvTick

fun clock_next :: "(string \<Rightarrow> string) \<Rightarrow> (Transaction option \<Rightarrow> string) \<Rightarrow> clock_event \<Rightarrow> PohSystem \<Rightarrow> PohSystem option" where
  "clock_next sha Marshal EvAutoHash s =
     Some (s\<lparr>sys_recorder := (sys_recorder s)\<lparr>r_poh := AutoHash sha (r_poh (sys_recorder s))\<rparr>\<rparr>)"
| "clock_next sha Marshal (EvRecord txs) s =
     Some (s\<lparr>sys_recorder := snd (RecordTxs sha Marshal txs (sys_recorder s))\<rparr>)"
| "clock_next sha Marshal EvDrain s =
     (case sys_drained s of
        Some _ \<Rightarrow> None
      | None \<Rightarrow> (case DrainEntries (sys_recorder s) of (entries, r) \<Rightarrow>
          Some (s\<lparr>sys_recorder := r, sys_drained := Some entries\<rparr>)))"
| "clock_next sha Marshal EvTick s =
     (case sys_drained s of
        None \<Rightarrow> None
      | Some entries \<Rightarrow> (case Recorder_Tick sha (sys_recorder s) of
          (Returns tickEntry, r) \<Rightarrow> Some (s\<lparr>sys_recorder := r, sys_drained := None,
             sys_emitted := sys_emitted s @ entries @ (case tickEntry of None \<Rightarrow> [] | Some e \<Rightarrow> [e])\<rparr>)
        | (_, r) \<Rightarrow> None))"

text \<open>
  Runs in which transactions are recorded only outside of a flush, and only lists that are not empty
  and hold transactions an entry may hold.
\<close>

fun quiet :: "(Transaction option \<Rightarrow> string) \<Rightarrow> clock_event \<Rightarrow> PohSystem \<Rightarrow> bool" where
  "quiet Marshal (EvRecord txs) s \<longleftrightarrow> sys_drained s = None \<and> txs \<noteq> [] \<and> list_all (tx_fits Marshal) txs"
| "quiet Marshal _ s \<longleftrightarrow> True"

inductive quiet_run :: "(string \<Rightarrow> string) \<Rightarrow> (Transaction option \<Rightarrow> string) \<Rightarrow> PohSystem \<Rightarrow> PohSystem \<Rightarrow> bool" for sha Marshal s0 where
  quiet_start: "quiet_run sha Marshal s0 s0"
| quiet_step: "quiet_run sha Marshal s0 s \<Longrightarrow> quiet Marshal ev s \<Longrightarrow> clock_next sha Marshal ev s = Some s' \<Longrightarrow> quiet_run sha Marshal s0 s'"

section \<open>Invariant of the clock\<close>

definition poh_ok :: "Poh \<Rightarrow> bool" where
  "poh_ok p \<longleftrightarrow> 2 \<le> unat (poh_HashesPerTick p) \<and> unat (poh_HashesPerTick p) \<le> 100 \<and>
     1 \<le> unat (poh_RemainingHashes p) \<and>
     unat (poh_NumHashes p) + unat (poh_RemainingHashes p) \<le> unat (poh_HashesPerTick p)"

text \<open>The clock has hashed \<open>NumHashes\<close> times since the hash \<open>h\<close> of the last entry.\<close>

definition linked :: "(string \<Rightarrow> string) \<Rightarrow> string \<Rightarrow> Poh \<Rightarrow> bool" where
  "linked sha h p \<longleftrightarrow> poh_Hash p = (sha ^^ unat (poh_NumHashes p)) h"

lemma word_le_1: "(w :: u64) \<le> 1 \<longleftrightarrow> unat w \<le> 1" "(w :: u64) > 1 \<longleftrightarrow> unat w > 1" "(w :: u64) \<noteq> 1 \<longleftrightarrow> unat w \<noteq> 1"
  by (simp_all add: word_le_nat_alt word_less_nat_alt word_unat_eq_iff)

lemma unat_succ_small: "unat (w :: u64) < 1000 \<Longrightarrow> unat (w + 1) = unat w + 1"
  using unat_add_bounded [of w 1] by simp

lemma unat_pred_pos: "1 \<le> unat (w :: u64) \<Longrightarrow> unat (w - 1) = unat w - 1"
  using unat_sub_le [of 1 w] by (simp add: word_le_nat_alt)

lemma hashOnce_fields:
  assumes "poh_ok p"
  shows "unat (poh_NumHashes (hashOnce sha h p)) = unat (poh_NumHashes p) + 1"
    and "unat (poh_RemainingHashes (hashOnce sha h p)) = unat (poh_RemainingHashes p) - 1"
    and "poh_HashesPerTick (hashOnce sha h p) = poh_HashesPerTick p"
    and "poh_Hash (hashOnce sha h p) = sha h"
  using assms by (simp_all add: hashOnce_def poh_ok_def unat_succ_small unat_pred_pos)

lemma AutoHash_ok:
  assumes "poh_ok p"
  shows "poh_ok (AutoHash sha p)" and "linked sha h p \<Longrightarrow> linked sha h (AutoHash sha p)"
  using assms hashOnce_fields [OF assms]
  by (auto simp: AutoHash_def poh_ok_def linked_def word_le_1)

text \<open>What the clock returns for an entry that follows \<open>h\<close>.\<close>

lemma Poh_Record_ok:
  assumes "poh_ok p" "linked sha h p" "Poh_Record sha mixin p = (pe, q)"
  shows "poh_ok q" and "pe = None \<Longrightarrow> q = p"
    and "pe = Some e \<Longrightarrow> linked sha (ph_Hash e) q \<and> unat (ph_NumHashes e) \<le> 100 \<and>
      ph_Hash e = sha ((sha ^^ unat (ph_NumHashes e - 1)) h @ mixin)"
proof -
  note f = hashOnce_fields [OF assms(1), of sha "poh_Hash p @ mixin"]
  have one: "poh_NumHashes (hashOnce sha (poh_Hash p @ mixin) p) - 1 = poh_NumHashes p"
    by (simp add: hashOnce_def)
  show "poh_ok q" using assms f by (auto simp: Poh_Record_def poh_ok_def word_le_1 Let_def split: if_splits)
  show "pe = None \<Longrightarrow> q = p" using assms(3) by (auto simp: Poh_Record_def Let_def split: if_splits)
  show "pe = Some e \<Longrightarrow> linked sha (ph_Hash e) q \<and> unat (ph_NumHashes e) \<le> 100 \<and>
      ph_Hash e = sha ((sha ^^ unat (ph_NumHashes e - 1)) h @ mixin)"
    using assms f one by (auto simp: Poh_Record_def linked_def poh_ok_def Let_def split: if_splits)
qed

lemma Poh_Tick_ok:
  assumes "poh_ok p" "linked sha h p" "Poh_Tick sha p = (pe, q)"
  shows "poh_ok q" and "pe = None \<Longrightarrow> q = p"
    and "pe = Some e \<Longrightarrow> linked sha (ph_Hash e) q \<and> unat (ph_NumHashes e) \<le> 100 \<and>
      ph_Hash e = sha ((sha ^^ unat (ph_NumHashes e - 1)) h)"
proof -
  note f = hashOnce_fields [OF assms(1), of sha "poh_Hash p"]
  have one: "poh_NumHashes (hashOnce sha (poh_Hash p) p) - 1 = poh_NumHashes p"
    by (simp add: hashOnce_def)
  show "poh_ok q" using assms f by (auto simp: Poh_Tick_def poh_ok_def Let_def split: if_splits)
  show "pe = None \<Longrightarrow> q = p" using assms(3) by (auto simp: Poh_Tick_def Let_def split: if_splits)
  show "pe = Some e \<Longrightarrow> linked sha (ph_Hash e) q \<and> unat (ph_NumHashes e) \<le> 100 \<and>
      ph_Hash e = sha ((sha ^^ unat (ph_NumHashes e - 1)) h)"
    using assms f one by (auto simp: Poh_Tick_def linked_def poh_ok_def Let_def split: if_splits)
qed

section \<open>Emitted entries verify\<close>

text \<open>The entries recorded since the start, those not yet handed on included, in recording order.\<close>

definition all_entries :: "PohSystem \<Rightarrow> Entry list" where
  "all_entries s = sys_emitted s @ (case sys_drained s of None \<Rightarrow> [] | Some es \<Rightarrow> es) @ r_entries (sys_recorder s)"

definition last_hash :: "string \<Rightarrow> Entry list \<Rightarrow> string" where
  "last_hash h es = last (h # map e_Hash es)"

definition clock_ok :: "(string \<Rightarrow> string) \<Rightarrow> (Transaction option \<Rightarrow> string) \<Rightarrow> string \<Rightarrow> PohSystem \<Rightarrow> bool" where
  "clock_ok sha Marshal h s \<longleftrightarrow>
     poh_ok (r_poh (sys_recorder s)) \<and> r_ticksPerSlot (sys_recorder s) \<noteq> 0 \<and>
     (sys_drained s \<noteq> None \<longrightarrow> r_entries (sys_recorder s) = []) \<and>
     linked sha (last_hash h (all_entries s)) (r_poh (sys_recorder s)) \<and>
     chain sha Marshal h (all_entries s) \<and> list_all (entry_fits Marshal) (all_entries s)"

lemma last_hash_snoc [simp]: "last_hash h (es @ [e]) = e_Hash e"
  by (simp add: last_hash_def)

lemma chain_snoc: "chain sha Marshal h (es @ [e]) \<longleftrightarrow> chain sha Marshal h es \<and> e_Hash e = next_hash sha Marshal (last_hash h es) e"
  by (simp add: chain_append last_hash_def)

lemma RecordTxs_ok:
  assumes "poh_ok (r_poh r)" "linked sha h (r_poh r)" "txs \<noteq> []" "list_all (tx_fits Marshal) txs"
    and "RecordTxs sha Marshal txs r = (out, r')"
  shows "poh_ok (r_poh r') \<and> r_ticksPerSlot r' = r_ticksPerSlot r"
    and "case out of Inr e \<Rightarrow> r_entries r' = r_entries r @ [e] \<and> linked sha (e_Hash e) (r_poh r') \<and>
        entry_fits Marshal e \<and> e_Hash e = next_hash sha Marshal h e
      | Inl _ \<Rightarrow> r_entries r' = r_entries r \<and> linked sha h (r_poh r')"
proof -
  obtain pe q where q: "Poh_Record sha (HashTransactions sha Marshal txs) (r_poh r) = (pe, q)" by force
  note k = Poh_Record_ok [OF assms(1,2) q]
  have big: "length txs \<le> 6000 \<Longrightarrow> \<not> MaxEntrySize < estimateEntrySize (NewTxEntry n x txs)" for n x
    by (simp add: estimateEntrySize_def NewTxEntry_def)
  have small: "pe = Some e \<Longrightarrow> \<not> MaxNumHashes < ph_NumHashes e" for e
    using k(3) [of e] by (simp add: word_less_nat_alt)
  show "poh_ok (r_poh r') \<and> r_ticksPerSlot r' = r_ticksPerSlot r"
    using assms(1,5) q k(1) by (auto simp: RecordTxs_def Let_def split: if_splits option.splits)
  show "case out of Inr e \<Rightarrow> r_entries r' = r_entries r @ [e] \<and> linked sha (e_Hash e) (r_poh r') \<and>
        entry_fits Marshal e \<and> e_Hash e = next_hash sha Marshal h e
      | Inl _ \<Rightarrow> r_entries r' = r_entries r \<and> linked sha h (r_poh r')"
  proof (cases pe)
    case None
    then show ?thesis using assms(2,5) q k(2) by (auto simp: RecordTxs_def split: if_splits)
  next
    case (Some e)
    then show ?thesis
      using assms q k(3) [OF Some] small [OF Some] big
      by (auto simp: RecordTxs_def Let_def NewTxEntry_def entry_fits_def next_hash_def split: if_splits)
  qed
qed

lemma Recorder_Tick_ok:
  assumes "poh_ok (r_poh r)" "linked sha h (r_poh r)" "r_ticksPerSlot r \<noteq> 0"
  shows "\<exists>te r'. Recorder_Tick sha r = (Returns te, r') \<and> poh_ok (r_poh r') \<and>
    r_ticksPerSlot r' = r_ticksPerSlot r \<and> r_entries r' = r_entries r \<and>
    (case te of None \<Rightarrow> linked sha h (r_poh r')
     | Some e \<Rightarrow> linked sha (e_Hash e) (r_poh r') \<and> entry_fits Marshal e \<and> e_Hash e = next_hash sha Marshal h e)"
proof -
  obtain pe q where q: "Poh_Tick sha (r_poh r) = (pe, q)" by force
  note k = Poh_Tick_ok [OF assms(1,2) q]
  show ?thesis
  proof (cases pe)
    case None
    then show ?thesis using assms q k(2) by (auto simp: Recorder_Tick_def)
  next
    case (Some e)
    then have "\<not> MaxNumHashes < ph_NumHashes e" using k(3) [of e] by (simp add: word_less_nat_alt)
    then show ?thesis
      using assms q k(1) k(3) [OF Some] Some
      by (auto simp: Recorder_Tick_def IsLastTickOfSlot_def NewTickEntry_def entry_fits_def next_hash_def Let_def)
  qed
qed

lemma clock_next_ok:
  assumes ok: "clock_ok sha Marshal h s" and "quiet Marshal ev s" and "clock_next sha Marshal ev s = Some s'"
  shows "clock_ok sha Marshal h s'"
proof (cases ev)
  case EvAutoHash
  then show ?thesis
    using assms AutoHash_ok [of "r_poh (sys_recorder s)" sha]
    by (auto simp: clock_ok_def all_entries_def)
next
  case (EvRecord txs)
  obtain out r' where r: "RecordTxs sha Marshal txs (sys_recorder s) = (out, r')" by force
  have q: "sys_drained s = None" "txs \<noteq> []" "list_all (tx_fits Marshal) txs" using assms(2) EvRecord by simp_all
  have l: "poh_ok (r_poh (sys_recorder s))" "linked sha (last_hash h (all_entries s)) (r_poh (sys_recorder s))"
    using ok by (simp_all add: clock_ok_def)
  note k = RecordTxs_ok [OF l q(2,3) r]
  have s': "s' = s\<lparr>sys_recorder := r'\<rparr>" using assms(3) EvRecord r by simp
  show ?thesis
  proof (cases out)
    case (Inr e)
    then have "all_entries s' = all_entries s @ [e]" using k(2) s' q(1) by (simp add: all_entries_def)
    then show ?thesis using ok k Inr s' q(1) by (auto simp: clock_ok_def chain_snoc)
  next
    case (Inl err)
    then have "all_entries s' = all_entries s" using k(2) s' by (simp add: all_entries_def)
    then show ?thesis using ok k Inl s' by (simp add: clock_ok_def)
  qed
next
  case EvDrain
  then show ?thesis
    using assms by (auto simp: clock_ok_def all_entries_def DrainEntries_def split: option.splits)
next
  case EvTick
  then obtain es where d: "sys_drained s = Some es" using assms(3) by (cases "sys_drained s") auto
  have l: "poh_ok (r_poh (sys_recorder s))" "linked sha (last_hash h (all_entries s)) (r_poh (sys_recorder s))"
      "r_ticksPerSlot (sys_recorder s) \<noteq> 0" and empty: "r_entries (sys_recorder s) = []"
    using ok d by (simp_all add: clock_ok_def)
  obtain te r' where t: "Recorder_Tick sha (sys_recorder s) = (Returns te, r')" "poh_ok (r_poh r')"
      "r_ticksPerSlot r' = r_ticksPerSlot (sys_recorder s)" "r_entries r' = r_entries (sys_recorder s)"
      "case te of None \<Rightarrow> linked sha (last_hash h (all_entries s)) (r_poh r')
       | Some e \<Rightarrow> linked sha (e_Hash e) (r_poh r') \<and> entry_fits Marshal e \<and> e_Hash e = next_hash sha Marshal (last_hash h (all_entries s)) e"
    using Recorder_Tick_ok [OF l, of Marshal] by auto
  have s': "s' = s\<lparr>sys_recorder := r', sys_drained := None, sys_emitted := sys_emitted s @ es @ (case te of None \<Rightarrow> [] | Some e \<Rightarrow> [e])\<rparr>"
    using assms(3) EvTick d t(1) by simp
  have "all_entries s' = all_entries s @ (case te of None \<Rightarrow> [] | Some e \<Rightarrow> [e])"
    using s' d empty t(4) by (simp add: all_entries_def)
  then show ?thesis
    using ok t s' by (cases te) (auto simp: clock_ok_def chain_snoc)
qed

lemma quiet_run_ok: "quiet_run sha Marshal s0 s \<Longrightarrow> clock_ok sha Marshal h s0 \<Longrightarrow> clock_ok sha Marshal h s"
  by (induction rule: quiet_run.induct) (auto intro: clock_next_ok)

text \<open>The state in which a recorder that was just reset starts.\<close>

definition start_system :: "string \<Rightarrow> u64 \<Rightarrow> PohRecorder \<Rightarrow> PohSystem" where
  "start_system h slot r = \<lparr>sys_recorder = Recorder_Reset h slot r, sys_drained = None, sys_emitted = []\<rparr>"

lemma start_system_ok:
  assumes "NewPoh sha seed hopt = Returns p" "unat (poh_HashesPerTick p) \<le> 100" "ticks \<noteq> 0"
  shows "clock_ok sha Marshal h (start_system h slot (NewPohRecorder p ticks latest))"
proof -
  have "2 \<le> unat (poh_HashesPerTick p)"
    using assms(1) by (auto simp: NewPoh_def Let_def word_le_1 split: if_splits)
  then show ?thesis
    using assms(2,3)
    by (simp add: clock_ok_def start_system_def Recorder_Reset_def Poh_Reset_def poh_ok_def NewPohRecorder_def linked_def
        last_hash_def all_entries_def)
qed

text \<open>
  C19: whatever the interleaving of automatic hashing, recording, draining and ticking, the entries
  handed on since the last reset verify: every stretch of at most 100 of them is accepted by
  \<open>VerifyEntries\<close> from the hash of the entry before it. This is for a clock with at most 100 hashes per
  tick and for runs in which nothing is recorded between the two halves of a flush and every recorded
  list is not empty and holds transactions that fit.
\<close>

theorem emitted_entries_verify:
  assumes "NewPoh sha seed hopt = Returns p" "unat (poh_HashesPerTick p) \<le> 100" "ticks \<noteq> 0"
    and "quiet_run sha Marshal (start_system h slot (NewPohRecorder p ticks latest)) s"
    and "sys_emitted s = xs @ ys @ zs" "length ys \<le> 100"
  shows "VerifyEntries sha Marshal (last (h # map e_Hash xs)) ys = None"
proof -
  have "clock_ok sha Marshal h s"
    using quiet_run_ok [OF assms(4)] start_system_ok [OF assms(1-3)] by blast
  then have "chain sha Marshal h (xs @ ys @ zs @ rest)" "list_all (entry_fits Marshal) ys"
    if "rest = (case sys_drained s of None \<Rightarrow> [] | Some es \<Rightarrow> es) @ r_entries (sys_recorder s)" for rest
    using assms(5) that by (simp_all add: clock_ok_def all_entries_def)
  then show ?thesis
    using assms(6) by (simp add: chain_append VerifyEntries_def VerifyEntries_loop_accepts)
qed

fun clock_exec :: "(clock_event \<Rightarrow> PohSystem \<Rightarrow> bool) \<Rightarrow> (string \<Rightarrow> string) \<Rightarrow> (Transaction option \<Rightarrow> string) \<Rightarrow> clock_event list \<Rightarrow> PohSystem \<Rightarrow> PohSystem option" where
  "clock_exec P sha Marshal [] s = Some s"
| "clock_exec P sha Marshal (ev # evs) s =
     (if P ev s then Option.bind (clock_next sha Marshal ev s) (clock_exec P sha Marshal evs) else None)"

lemma clock_exec_quiet_run:
  "clock_exec (quiet Marshal) sha Marshal evs s = Some s' \<Longrightarrow> quiet_run sha Marshal s0 s \<Longrightarrow> quiet_run sha Marshal s0 s'"
proof (induction evs arbitrary: s)
  case (Cons ev evs)
  then show ?case
    by (auto simp: Option.bind_eq_Some_conv split: if_splits intro: quiet_step)
qed simp

definition marshal_demo :: "Transaction option \<Rightarrow> string" where
  "marshal_demo tx = (case tx of None \<Rightarrow> ''null'' | Some t \<Rightarrow> tx_Sender t)"

definition hash_demo :: "string \<Rightarrow> string" where
  "hash_demo x = CHR ''#'' # x"

definition clock_demo :: PohSystem where
  "clock_demo = start_system ''s'' 0 (NewPohRecorder \<lparr>poh_Hash = ''#'', poh_NumHashes = 0, poh_HashesPerTick = 2, poh_RemainingHashes = 2\<rparr> 1 0)"

definition flush_demo :: PohSystem where
  "flush_demo = the (clock_exec (quiet marshal_demo) hash_demo marshal_demo [EvRecord [Some sample_tx], EvDrain, EvTick] clock_demo)"

theorem emitted_entries_verify_witness:
  "length (sys_emitted flush_demo) = 2 \<and>
    VerifyEntries hash_demo marshal_demo (last (''s'' # map e_Hash ([] :: Entry list))) (sys_emitted flush_demo) = None"
proof
  have e: "clock_exec (quiet marshal_demo) hash_demo marshal_demo [EvRecord [Some sample_tx], EvDrain, EvTick] clock_demo = Some flush_demo"
    by code_simp
  show len: "length (sys_emitted flush_demo) = 2" by code_simp
  have p: "NewPoh hash_demo [] (Some 2) = Returns \<lparr>poh_Hash = ''#'', poh_NumHashes = 0, poh_HashesPerTick = 2, poh_RemainingHashes = 2\<rparr>"
    by (simp add: NewPoh_def hash_demo_def word_le_nat_alt)
  have "quiet_run hash_demo marshal_demo clock_demo flush_demo"
    using clock_exec_quiet_run [OF e quiet_start] .
  then have run: "quiet_run hash_demo marshal_demo (start_system ''s'' 0 (NewPohRecorder
      \<lparr>poh_Hash = ''#'', poh_NumHashes = 0, poh_HashesPerTick = 2, poh_RemainingHashes = 2\<rparr> 1 0)) flush_demo"
    by (simp only: clock_demo_def)
  show "VerifyEntries hash_demo marshal_demo (last (''s'' # map e_Hash ([] :: Entry list))) (sys_emitted flush_demo) = None"
    by (rule emitted_entries_verify [OF p _ _ run, where zs = "[]"]) (simp_all add: len)
qed

section \<open>What the conditions exclude\<close>

text \<open>
  \<open>tickAndFlush\<close> drains and ticks in two critical sections. Transactions recorded between them come
  before the tick in the chain of hashes but are handed on after it, and the slot does not verify.
\<close>

definition race_demo :: "PohSystem option" where
  "race_demo = clock_exec (\<lambda>_ _. True) hash_demo marshal_demo [EvDrain, EvRecord [Some sample_tx], EvTick, EvDrain, EvTick] clock_demo"

lemma flush_race:
  "case race_demo of None \<Rightarrow> False | Some s \<Rightarrow> length (sys_emitted s) = 2 \<and>
    VerifyEntries hash_demo marshal_demo ''s'' (sys_emitted s) \<noteq> None"
  by code_simp

text \<open>An empty list of transactions can be recorded; the entry does not verify.\<close>

lemma empty_record_mismatch:
  "case RecordTxs hash_demo marshal_demo [] (sys_recorder clock_demo) of
     (Inr e, r) \<Rightarrow> VerifyEntries hash_demo marshal_demo ''s'' [e] \<noteq> None | _ \<Rightarrow> False"
  by code_simp

text \<open>
  When the clock has more than 100 hashes per tick, recording can be refused after the clock has
  already mixed the transactions into its hash: no entry accounts for that step.
\<close>

lemma refused_record_advances_clock:
  assumes "length txs \<le> 6000" "length (r_entries r) < 100"
    and "1 < poh_RemainingHashes (r_poh r)" "100 < poh_NumHashes (r_poh r) + 1"
  shows "\<exists>n r'. RecordTxs sha Marshal txs r = (Inl (RecordNumHashesTooLarge n), r') \<and> r_entries r' = r_entries r \<and>
    poh_NumHashes (r_poh r') = 0 \<and>
    poh_Hash (r_poh r') = sha (poh_Hash (r_poh r) @ HashTransactions sha Marshal txs)"
  using assms
  by (simp add: RecordTxs_def Poh_Record_def hashOnce_def
      Let_def not_le [symmetric])

section \<open>Ticking and fast-forwarding\<close>

lemma unat_of_nat_below: "k < unat (w :: u64) \<Longrightarrow> unat (of_nat k :: u64) = k"
  using unat_bound [of w] by (intro unat_of_nat_small) simp

lemma AutoHash_iter:
  assumes "k < unat (poh_RemainingHashes p)"
  shows "(AutoHash sha ^^ k) p = p\<lparr>poh_Hash := (sha ^^ k) (poh_Hash p), poh_NumHashes := poh_NumHashes p + of_nat k,
    poh_RemainingHashes := poh_RemainingHashes p - of_nat k\<rparr>"
  using assms
proof (induction k)
  case (Suc k)
  have "unat (of_nat k :: u64) = k"
    using Suc.prems unat_of_nat_below [of k "poh_RemainingHashes p"] by simp
  moreover from this have "unat (poh_RemainingHashes p - of_nat k) = unat (poh_RemainingHashes p) - k"
    using Suc.prems unat_sub_le [of "of_nat k" "poh_RemainingHashes p"] by (simp add: word_le_nat_alt)
  ultimately show ?case
    using Suc by (simp add: AutoHash_def hashOnce_def word_le_1 algebra_simps)
qed simp

lemma Remaining_last:
  assumes "1 \<le> unat (w :: u64)"
  shows "w - of_nat (unat w - 1) = 1"
proof -
  have "(of_nat (unat w - 1) :: u64) = w - 1"
    using assms by (simp add: of_nat_diff)
  then show ?thesis by simp
qed

text \<open>
  C20: a clock with \<open>n\<close> remaining hashes refuses to tick until it has hashed automatically \<open>n - 1\<close>
  times; then it ticks, with a hash that is \<open>n\<close> hashes ahead, and starts the next tick with the full
  number of hashes.
\<close>

theorem clock_ticks:
  assumes "unat (poh_RemainingHashes p) = Suc n"
  shows "(k < n \<longrightarrow> fst (Poh_Tick sha ((AutoHash sha ^^ k) p)) = None) \<and>
    Poh_Tick sha ((AutoHash sha ^^ n) p) =
      (Some \<lparr>ph_NumHashes = poh_NumHashes p + of_nat (Suc n), ph_Hash = (sha ^^ Suc n) (poh_Hash p), ph_Tick = True\<rparr>,
       p\<lparr>poh_Hash := (sha ^^ Suc n) (poh_Hash p), poh_NumHashes := 0, poh_RemainingHashes := poh_HashesPerTick p\<rparr>)"
proof
  show "k < n \<longrightarrow> fst (Poh_Tick sha ((AutoHash sha ^^ k) p)) = None"
  proof
    assume k: "k < n"
    have "unat (of_nat k :: u64) = k"
      using k assms unat_of_nat_below [of k "poh_RemainingHashes p"] by simp
    then have "unat (poh_RemainingHashes p - of_nat k) = Suc n - k"
      using k assms unat_sub_le [of "of_nat k" "poh_RemainingHashes p"] by (simp add: word_le_nat_alt)
    then have "poh_RemainingHashes p - of_nat k \<noteq> 1" using k by (auto simp: word_le_1)
    then show "fst (Poh_Tick sha ((AutoHash sha ^^ k) p)) = None"
      using k assms by (simp add: AutoHash_iter Poh_Tick_def)
  qed
  have "poh_RemainingHashes p - of_nat n = 1"
    using Remaining_last [of "poh_RemainingHashes p"] assms by simp
  then show "Poh_Tick sha ((AutoHash sha ^^ n) p) =
      (Some \<lparr>ph_NumHashes = poh_NumHashes p + of_nat (Suc n), ph_Hash = (sha ^^ Suc n) (poh_Hash p), ph_Tick = True\<rparr>,
       p\<lparr>poh_Hash := (sha ^^ Suc n) (poh_Hash p), poh_NumHashes := 0, poh_RemainingHashes := poh_HashesPerTick p\<rparr>)"
    using assms by (simp add: AutoHash_iter Poh_Tick_def hashOnce_def Let_def algebra_simps)
qed

theorem clock_ticks_witness:
  "let p = r_poh (sys_recorder clock_demo) in
    (0 < (1 :: nat) \<longrightarrow> fst (Poh_Tick hash_demo ((AutoHash hash_demo ^^ 0) p)) = None) \<and>
    Poh_Tick hash_demo ((AutoHash hash_demo ^^ 1) p) =
      (Some \<lparr>ph_NumHashes = poh_NumHashes p + of_nat (Suc 1), ph_Hash = (hash_demo ^^ Suc 1) (poh_Hash p), ph_Tick = True\<rparr>,
       p\<lparr>poh_Hash := (hash_demo ^^ Suc 1) (poh_Hash p), poh_NumHashes := 0, poh_RemainingHashes := poh_HashesPerTick p\<rparr>)"
  unfolding Let_def
  by (rule clock_ticks) (simp add: clock_demo_def start_system_def Recorder_Reset_def Poh_Reset_def NewPohRecorder_def)

text \<open>A whole tick without transactions.\<close>

definition idle_tick :: "(string \<Rightarrow> string) \<Rightarrow> Poh \<Rightarrow> Poh" where
  "idle_tick sha p = snd (Poh_Tick sha ((AutoHash sha ^^ (unat (poh_RemainingHashes p) - 1)) p))"

lemma idle_tick_eq:
  assumes "poh_RemainingHashes p = poh_HashesPerTick p" "1 \<le> unat (poh_HashesPerTick p)"
  shows "idle_tick sha p = p\<lparr>poh_Hash := (sha ^^ unat (poh_HashesPerTick p)) (poh_Hash p), poh_NumHashes := 0\<rparr>"
proof -
  let ?n = "unat (poh_HashesPerTick p) - 1"
  have n: "unat (poh_RemainingHashes p) = Suc ?n" using assms by simp
  have "poh_RemainingHashes p - of_nat ?n = 1" using Remaining_last [of "poh_RemainingHashes p"] assms by simp
  moreover have "sha ((sha ^^ ?n) x) = (sha ^^ unat (poh_HashesPerTick p)) x" for x
    using assms(2) by (metis Suc_diff_le diff_Suc_1 One_nat_def funpow.simps(2) comp_apply)
  ultimately show ?thesis
    using assms n by (simp add: idle_tick_def AutoHash_iter Poh_Tick_def hashOnce_def Let_def)
qed

lemma idle_ticks:
  assumes "poh_RemainingHashes p = poh_HashesPerTick p" "1 \<le> unat (poh_HashesPerTick p)" "poh_NumHashes p = 0"
  shows "(idle_tick sha ^^ n) p = p\<lparr>poh_Hash := (sha ^^ (n * unat (poh_HashesPerTick p))) (poh_Hash p)\<rparr>"
proof (induction n)
  case (Suc n)
  then show ?case
    using assms by (cases p) (simp add: idle_tick_eq funpow_add)
qed simp

text \<open>
  C21: fast-forwarding from one slot to a later one gives the hash and the state of a clock that was
  reset to the given hash and ticked through all the ticks of those slots without transactions, as
  long as the tick heights and the number of hashes fit 64 bits.
\<close>

theorem FastForward_simulates:
  assumes "a \<le> b" "1 \<le> poh_HashesPerTick (r_poh r)"
    and "unat b * unat (r_ticksPerSlot r) * unat (poh_HashesPerTick (r_poh r)) < 2 ^ 64"
  shows "FastForward sha h a b r =
    (let p = (idle_tick sha ^^ ((unat b - unat a) * unat (r_ticksPerSlot r))) (Poh_Reset h (r_poh r)) in
     (poh_Hash p, r\<lparr>r_poh := p\<rparr>))"
proof -
  let ?t = "r_ticksPerSlot r" and ?h = "poh_HashesPerTick (r_poh r)"
  have h: "1 \<le> unat ?h" using assms(2) by (simp add: word_le_nat_alt)
  have le: "unat a \<le> unat b" using assms(1) by (simp add: word_le_nat_alt)
  have bound: "unat b * unat ?t < 2 ^ 64" using assms(3) h by (metis le_less_trans mult.right_neutral mult_le_mono2)
  have d: "b * ?t - a * ?t = (b - a) * ?t" by (simp add: algebra_simps)
  have "(unat b - unat a) * unat ?t \<le> unat b * unat ?t" by simp
  then have "(unat b - unat a) * unat ?t < 2 ^ 64" using bound by (rule le_less_trans)
  then have t: "unat ((b - a) * ?t) = (unat b - unat a) * unat ?t"
    using assms(1) by (simp add: unat_word_ariths(2) unat_sub_le)
  have "(unat b - unat a) * unat ?t * unat ?h \<le> unat b * unat ?t * unat ?h" by simp
  then have "(unat b - unat a) * unat ?t * unat ?h < 2 ^ 64" using assms(3) by (rule le_less_trans)
  then have n: "unat ((b * ?t - a * ?t) * ?h) = (unat b - unat a) * unat ?t * unat ?h"
    unfolding d by (simp add: unat_word_ariths(2) [of "(b - a) * ?t"] t)
  show ?thesis
    using idle_ticks [of "Poh_Reset h (r_poh r)" _ sha] h n
    by (simp add: FastForward_def TickFastForward_def Let_def Poh_Reset_def)
qed

theorem FastForward_simulates_witness:
  "FastForward hash_demo ''x'' 1 3 (sys_recorder clock_demo) =
    (let p = (idle_tick hash_demo ^^ ((unat (3 :: u64) - unat (1 :: u64)) * unat (r_ticksPerSlot (sys_recorder clock_demo))))
       (Poh_Reset ''x'' (r_poh (sys_recorder clock_demo))) in
     (poh_Hash p, (sys_recorder clock_demo)\<lparr>r_poh := p\<rparr>))"
  by (rule FastForward_simulates)
    (simp_all add: clock_demo_def start_system_def Recorder_Reset_def Poh_Reset_def NewPohRecorder_def word_le_nat_alt)

section \<open>The queue of slot hashes\<close>

text \<open>What was just put is found, whatever was cleaned up.\<close>

lemma Queue_Get_Put:
  assumes "0 < maxSize q" "maxSize q < 2 ^ 64"
  shows "Queue_Get slot (Queue_Put slot hash q) = Some hash"
proof -
  have "(of_nat (maxSize q) :: u64) \<noteq> 0"
    using assms unat_of_nat_small [of "maxSize q", where 'a = 64] by (auto simp: word_unat_eq_iff)
  then show ?thesis
    by (auto simp: Queue_Get_def Queue_Put_def Let_def update_conv' delete_conv')
qed

text \<open>
  The clean-up removes the slot \<open>maxSize\<close> before the new one. When that slot was skipped, nothing is
  removed and the queue grows beyond its maximum.
\<close>

lemma Queue_Put_grows:
  assumes "map_of (slotMap q) slot = None" "map_of (slotMap q) (slot - of_nat (maxSize q)) = None"
    and "(of_nat (maxSize q) :: u64) \<noteq> 0" "maxSize q \<le> length (slotMap q)"
  shows "length (slotMap (Queue_Put slot hash q)) = length (slotMap q) + 1"
proof -
  have new: "AList.update slot hash m = m @ [(slot, hash)]" if "map_of m slot = None" for m
    using that by (induction m) (auto split: if_splits)
  have "AList.delete k m = m" if "map_of m k = None" for k and m :: "(u64 \<times> string) list"
    using that by (induction m) (auto simp: AList.delete_eq split: if_splits)
  then show ?thesis using assms new [OF assms(1)] by (simp add: Queue_Put_def Let_def)
qed

end
