(* ===== verification/Leader_Schedules.thy ===== *)
theory Leader_Schedules
  imports Prelude
begin

text \<open>
  The leader schedule of \<open>poh/lead_schedule.go\<close>: ranges of slots with their leader, sorted and free
  of overlaps, repeated periodically. \<open>sort.Slice\<close> is the sort by \<open>StartSlot\<close> (the order it leaves
  between equal keys is open in Go, the model keeps the given one); \<open>sort.Search\<close> is the binary
  search of the Go library.
\<close>

record LeaderScheduleEntry =
  StartSlot :: u64
  EndSlot :: u64
  Leader :: string

record LeaderSchedule =
  ls_entries :: "LeaderScheduleEntry list"
  ls_maxSlot :: u64

text \<open>\<open>sort.Search\<close>: the smallest index from \<open>i\<close> to \<open>j\<close> at which a monotone predicate holds.\<close>

function search_between :: "nat \<Rightarrow> nat \<Rightarrow> (nat \<Rightarrow> bool) \<Rightarrow> nat" where
  "search_between i j f =
     (if i < j then let h = (i + j) div 2 in if \<not> f h then search_between (h + 1) j f else search_between i h f
      else i)"
  by pat_completeness auto
termination by (relation "measure (\<lambda>(i, j, f). j - i)") auto

declare search_between.simps [simp del]

definition sort_Search :: "nat \<Rightarrow> (nat \<Rightarrow> bool) \<Rightarrow> nat" where
  "sort_Search n f = search_between 0 n f"

definition sort_by_start :: "LeaderScheduleEntry list \<Rightarrow> LeaderScheduleEntry list" where
  "sort_by_start es = sort_key StartSlot es"

fun overlap_free :: "LeaderScheduleEntry list \<Rightarrow> bool" where
  "overlap_free (prev # cur # es) \<longleftrightarrow> \<not> StartSlot cur \<le> EndSlot prev \<and> overlap_free (cur # es)"
| "overlap_free _ \<longleftrightarrow> True"

text \<open>\<open>Validate\<close> sorts the entries in place and reports an overlap.\<close>

definition Validate :: "LeaderSchedule \<Rightarrow> string option \<times> LeaderSchedule" where
  "Validate ls =
     (if ls_entries ls = [] then (None, ls)
      else let ls' = ls\<lparr>ls_entries := sort_by_start (ls_entries ls)\<rparr> in
        (if overlap_free (ls_entries ls') then None else Some ''overlapping schedule entries detected'', ls'))"

definition NewLeaderSchedule :: "LeaderScheduleEntry list \<Rightarrow> (string, LeaderSchedule) outcome" where
  "NewLeaderSchedule entries =
     (case Validate \<lparr>ls_entries = entries, ls_maxSlot = 0\<rparr> of
        (Some err, _) \<Rightarrow> Fails err
      | (None, ls) \<Rightarrow> (if ls_entries ls = [] then Panics else Returns (ls\<lparr>ls_maxSlot := EndSlot (last (ls_entries ls))\<rparr>)))"

definition LeaderAt :: "u64 \<Rightarrow> LeaderSchedule \<Rightarrow> (unit, string option) outcome" where
  "LeaderAt slot ls =
     (if ls_maxSlot ls = 0 then Panics
      else let s1 = slot mod ls_maxSlot ls; s = (if s1 = 0 then ls_maxSlot ls else s1);
               i = sort_Search (length (ls_entries ls)) (\<lambda>i. StartSlot (ls_entries ls ! i) > s) in
        Returns (if i > 0 then let e = ls_entries ls ! (i - 1) in
                   if s \<ge> StartSlot e \<and> s \<le> EndSlot e then Some (Leader e) else None
                 else None))"

definition LeadersInRange :: "u64 \<Rightarrow> u64 \<Rightarrow> LeaderSchedule \<Rightarrow> LeaderScheduleEntry list" where
  "LeadersInRange startSlot endSlot ls =
     filter (\<lambda>e. \<not> (EndSlot e < startSlot \<or> StartSlot e > endSlot)) (ls_entries ls)"

definition AddEntry :: "LeaderScheduleEntry \<Rightarrow> LeaderSchedule \<Rightarrow> LeaderSchedule" where
  "AddEntry entry ls = ls\<lparr>ls_entries := sort_by_start (ls_entries ls @ [entry])\<rparr>"

abbreviation (input) Len :: "LeaderSchedule \<Rightarrow> nat" where
  "Len ls \<equiv> length (ls_entries ls)"

definition IsLeaderAt :: "u64 \<Rightarrow> string \<Rightarrow> LeaderSchedule \<Rightarrow> (unit, bool) outcome" where
  "IsLeaderAt slot leaderID ls =
     (case LeaderAt slot ls of Returns l \<Rightarrow> Returns (l = Some leaderID) | _ \<Rightarrow> Panics)"

section \<open>Binary search\<close>

lemma search_between_least:
  assumes "\<And>a b. a \<le> b \<Longrightarrow> b < n \<Longrightarrow> f a \<Longrightarrow> f b"
    and "i \<le> j" "j \<le> n" "\<And>k. k < i \<Longrightarrow> \<not> f k" "\<And>k. j \<le> k \<Longrightarrow> k < n \<Longrightarrow> f k"
  shows "search_between i j f \<le> n \<and> (\<forall>k < search_between i j f. \<not> f k) \<and> (\<forall>k. search_between i j f \<le> k \<longrightarrow> k < n \<longrightarrow> f k)"
  using assms
proof (induction i j f rule: search_between.induct)
  case (1 i j f)
  let ?h = "(i + j) div 2"
  show ?case
  proof (cases "i < j")
    case True
    then have h: "i \<le> ?h" "?h < j" by simp_all
    show ?thesis
    proof (cases "f ?h")
      case False
      have low: "\<not> f k" if "k < ?h + 1" for k
      proof
        assume "f k"
        moreover have "k \<le> ?h" "?h < n" using that h(2) "1.prems"(3) by linarith+
        ultimately have "f ?h" using "1.prems"(1) by blast
        then show False using False by blast
      qed
      have s: "search_between i j f = search_between (?h + 1) j f"
        using False True by (subst search_between.simps) (simp add: Let_def)
      show ?thesis
        unfolding s using "1.IH"(1) [OF True refl False "1.prems"(1) _ "1.prems"(3) low "1.prems"(5)] h by simp
    next
      case f: True
      have high: "f k" if "?h \<le> k" "k < n" for k using "1.prems"(1) that f by blast
      have s: "search_between i j f = search_between i ?h f"
        using f True by (subst search_between.simps) (simp add: Let_def)
      have n: "\<not> \<not> f ?h" "?h \<le> n" using f h "1.prems"(3) by simp_all
      show ?thesis
        unfolding s using "1.IH"(2) [OF True refl n(1) "1.prems"(1) h(1) n(2) "1.prems"(4) high] by simp
    qed
  next
    case False
    then have "search_between i j f = i" by (subst search_between.simps) simp
    moreover have "i = j" using False "1.prems"(2) by simp
    ultimately show ?thesis using "1.prems"(3,4,5) by simp
  qed
qed

lemma sort_Search_least:
  assumes "\<And>a b. a \<le> b \<Longrightarrow> b < n \<Longrightarrow> f a \<Longrightarrow> f b"
  shows "sort_Search n f \<le> n" and "k < sort_Search n f \<Longrightarrow> \<not> f k" and "sort_Search n f \<le> k \<Longrightarrow> k < n \<Longrightarrow> f k"
  using search_between_least [of n f 0 n] assms by (auto simp: sort_Search_def)

lemma search_length: "i \<le> j \<Longrightarrow> search_between i j f \<le> j"
proof (induction i j f rule: search_between.induct)
  case (1 i j f)
  have "(i + j) div 2 \<le> j" using 1(3) by simp
  then show ?case
    using 1 by (cases "f ((i + j) div 2)") (force simp: search_between.simps [of i j] Let_def)+
qed

section \<open>The leader of a slot\<close>

definition covers :: "LeaderScheduleEntry \<Rightarrow> u64 \<Rightarrow> bool" where
  "covers e s \<longleftrightarrow> StartSlot e \<le> s \<and> s \<le> EndSlot e"

text \<open>The slot of the first period a slot repeats: slots are counted from 1.\<close>

definition base_slot :: "u64 \<Rightarrow> u64 \<Rightarrow> u64" where
  "base_slot m slot = (if slot mod m = 0 then m else slot mod m)"

text \<open>A schedule that was validated, whose ranges are not empty.\<close>

definition schedule_ok :: "LeaderSchedule \<Rightarrow> bool" where
  "schedule_ok ls \<longleftrightarrow> overlap_free (ls_entries ls) \<and> (\<forall>e \<in> set (ls_entries ls). StartSlot e \<le> EndSlot e)"

lemma overlap_free_sorted:
  assumes "overlap_free es" "\<forall>e \<in> set es. StartSlot e \<le> EndSlot e" "i < j" "j < length es"
  shows "EndSlot (es ! i) < StartSlot (es ! j)"
  using assms
proof (induction es arbitrary: i j rule: overlap_free.induct)
  case (1 prev cur es)
  show ?case
  proof (cases i)
    case 0
    show ?thesis
    proof (cases "j = 1")
      case True
      then show ?thesis using 1(2) 0 by (simp add: not_le)
    next
      case False
      then have "EndSlot cur < StartSlot ((cur # es) ! (j - 1))"
        using 1(1) [of 0 "j - 1"] 1(2-) by simp
      moreover have "EndSlot prev < StartSlot cur" "StartSlot cur \<le> EndSlot cur" using 1(2,3) by (simp_all add: not_le)
      moreover have "(prev # cur # es) ! j = (cur # es) ! (j - 1)" using False 1(4) 0 by (cases j) auto
      ultimately show ?thesis using 0 by simp
    qed
  next
    case (Suc k)
    then show ?thesis using 1(1) [of k "j - 1"] 1(2-) by (cases j) auto
  qed
qed simp_all

lemma schedule_order:
  assumes "schedule_ok ls" "i < j" "j < length (ls_entries ls)"
  shows "EndSlot (ls_entries ls ! i) < StartSlot (ls_entries ls ! j)"
    and "StartSlot (ls_entries ls ! i) < StartSlot (ls_entries ls ! j)"
proof -
  show e: "EndSlot (ls_entries ls ! i) < StartSlot (ls_entries ls ! j)"
    using assms overlap_free_sorted [of "ls_entries ls" i j] by (simp add: schedule_ok_def)
  have "StartSlot (ls_entries ls ! i) \<le> EndSlot (ls_entries ls ! i)"
    using assms by (auto simp: schedule_ok_def)
  then show "StartSlot (ls_entries ls ! i) < StartSlot (ls_entries ls ! j)" using e by (rule le_less_trans)
qed

lemma LeaderAt_index:
  assumes ok: "schedule_ok ls" and k: "k < length (ls_entries ls)" and c: "covers (ls_entries ls ! k) s"
  shows "sort_Search (length (ls_entries ls)) (\<lambda>i. StartSlot (ls_entries ls ! i) > s) = Suc k"
proof -
  let ?f = "\<lambda>i. StartSlot (ls_entries ls ! i) > s" and ?n = "length (ls_entries ls)"
  have mono: "?f b" if "a \<le> b" "b < ?n" "?f a" for a b
    using that schedule_order(2) [OF ok, of a b] by (cases "a = b") auto
  have nk: "\<not> ?f k" using c by (auto simp: covers_def)
  have later: "?f (Suc k)" if "Suc k < ?n"
    using schedule_order(1) [OF ok _ that, of k] c by (auto simp: covers_def)
  have "\<not> Suc k < sort_Search ?n ?f"
  proof
    assume a: "Suc k < sort_Search ?n ?f"
    have "sort_Search ?n ?f \<le> ?n" by (rule sort_Search_least(1)) (rule mono)
    with a have "Suc k < ?n" by simp
    moreover have "\<not> ?f (Suc k)" by (rule sort_Search_least(2) [OF _ a]) (rule mono)
    ultimately show False using later by blast
  qed
  moreover have "k < sort_Search ?n ?f"
  proof (rule ccontr)
    assume "\<not> k < sort_Search ?n ?f"
    then have a: "sort_Search ?n ?f \<le> k" by simp
    have "?f k" by (rule sort_Search_least(3) [OF _ a k]) (rule mono)
    then show False using nk by blast
  qed
  ultimately show ?thesis by simp
qed

text \<open>
  C26: in a validated schedule of non-empty ranges, the leader of a slot is that of the one range that
  covers the slot's place in the period, found by binary search, and there is no leader exactly when no
  range covers it.
\<close>

theorem LeaderAt_covers:
  assumes "schedule_ok ls" "ls_maxSlot ls \<noteq> 0"
  shows "\<exists>r. LeaderAt slot ls = Returns r \<and>
    (\<forall>l. r = Some l \<longleftrightarrow> (\<exists>e \<in> set (ls_entries ls). covers e (base_slot (ls_maxSlot ls) slot) \<and> Leader e = l)) \<and>
    (\<forall>d \<in> set (ls_entries ls). \<forall>e \<in> set (ls_entries ls).
       covers d (base_slot (ls_maxSlot ls) slot) \<longrightarrow> covers e (base_slot (ls_maxSlot ls) slot) \<longrightarrow> d = e)"
proof -
  let ?s = "base_slot (ls_maxSlot ls) slot" and ?es = "ls_entries ls"
  let ?i = "sort_Search (length ?es) (\<lambda>i. StartSlot (?es ! i) > ?s)"
  have at: "LeaderAt slot ls = Returns (if ?i > 0 \<and> covers (?es ! (?i - 1)) ?s then Some (Leader (?es ! (?i - 1))) else None)"
    using assms(2) by (auto simp: LeaderAt_def base_slot_def covers_def Let_def)
  have unique: "e = ?es ! (?i - 1) \<and> 0 < ?i" if e: "e \<in> set ?es" "covers e ?s" for e
  proof -
    obtain k where "k < length ?es" "e = ?es ! k" using e(1) by (auto simp: in_set_conv_nth)
    then show ?thesis using LeaderAt_index [OF assms(1), of k ?s] e(2) by simp
  qed
  have mem: "?es ! (?i - 1) \<in> set ?es" if "0 < ?i"
  proof -
    have "?i \<le> length ?es" unfolding sort_Search_def by (rule search_length) simp
    then show ?thesis using that by (intro nth_mem) simp
  qed
  show ?thesis
  proof (intro exI conjI allI ballI impI)
    show "LeaderAt slot ls = Returns (if ?i > 0 \<and> covers (?es ! (?i - 1)) ?s then Some (Leader (?es ! (?i - 1))) else None)"
      by (rule at)
    show "((if ?i > 0 \<and> covers (?es ! (?i - 1)) ?s then Some (Leader (?es ! (?i - 1))) else None) = Some l) \<longleftrightarrow>
        (\<exists>e \<in> set ?es. covers e ?s \<and> Leader e = l)" for l
      using unique mem by auto
    show "d = e" if "d \<in> set ?es" "e \<in> set ?es" "covers d ?s" "covers e ?s" for d e
      using unique [of d] unique [of e] that by simp
  qed
qed

definition two_leaders :: "LeaderScheduleEntry list" where
  "two_leaders = [\<lparr>StartSlot = 4, EndSlot = 6, Leader = ''b''\<rparr>, \<lparr>StartSlot = 1, EndSlot = 3, Leader = ''a''\<rparr>]"

definition demo_schedule :: LeaderSchedule where
  "demo_schedule = \<lparr>ls_entries = rev two_leaders, ls_maxSlot = 6\<rparr>"

theorem LeaderAt_covers_witness:
  "\<exists>r. LeaderAt 11 demo_schedule = Returns r \<and>
    (\<forall>l. r = Some l \<longleftrightarrow> (\<exists>e \<in> set (ls_entries demo_schedule). covers e (base_slot (ls_maxSlot demo_schedule) 11) \<and> Leader e = l)) \<and>
    (\<forall>d \<in> set (ls_entries demo_schedule). \<forall>e \<in> set (ls_entries demo_schedule).
       covers d (base_slot (ls_maxSlot demo_schedule) 11) \<longrightarrow> covers e (base_slot (ls_maxSlot demo_schedule) 11) \<longrightarrow> d = e)"
proof (rule LeaderAt_covers)
  show "schedule_ok demo_schedule" by code_simp
  show "ls_maxSlot demo_schedule \<noteq> 0" by code_simp
qed

lemma demo_schedule_built: "NewLeaderSchedule two_leaders = Returns demo_schedule" "LeaderAt 11 demo_schedule = Returns (Some ''b'')"
  by code_simp+

section \<open>Construction\<close>

text \<open>
  A schedule that was built is sorted and free of overlaps, and holds the given entries; building one
  from no entries panics.
\<close>

lemma NewLeaderSchedule_ok:
  assumes "NewLeaderSchedule es = Returns ls" "\<forall>e \<in> set es. StartSlot e \<le> EndSlot e"
  shows "schedule_ok ls \<and> set (ls_entries ls) = set es \<and> ls_maxSlot ls = EndSlot (last (ls_entries ls))"
  using assms
  by (auto simp: NewLeaderSchedule_def Validate_def Let_def schedule_ok_def sort_by_start_def split: if_splits)

lemma NewLeaderSchedule_empty: "NewLeaderSchedule [] = Panics"
  by (simp add: NewLeaderSchedule_def Validate_def)

text \<open>Adding an entry does not move the end of the period: the new range is not reached.\<close>

lemma AddEntry_keeps_period: "ls_maxSlot (AddEntry e ls) = ls_maxSlot ls"
  by (simp add: AddEntry_def)

lemma AddEntry_unreachable:
  assumes "schedule_ok (AddEntry e ls)" "ls_maxSlot ls \<noteq> 0" "ls_maxSlot ls < StartSlot e"
  shows "\<not> covers e (base_slot (ls_maxSlot (AddEntry e ls)) slot)"
proof -
  have "slot mod ls_maxSlot ls < ls_maxSlot ls"
    using assms(2) by (simp add: word_mod_less_divisor word_neq_0_conv)
  then have "base_slot (ls_maxSlot ls) slot \<le> ls_maxSlot ls" by (simp add: base_slot_def less_imp_le)
  then have "base_slot (ls_maxSlot ls) slot < StartSlot e" using assms(3) by (rule le_less_trans)
  then show ?thesis by (simp add: AddEntry_keeps_period covers_def not_le)
qed

end
