(* ===== verification/Collectors.thy ===== *)
theory Collectors
  imports Prelude "HOL-Library.AList"
begin

text \<open>
  Votes and the vote collector of \<open>consensus/vote.go\<close> and \<open>consensus/collector.go\<close>. JSON, Base58 and
  Ed25519 are parameters. The map of votes per slot is an association list of association lists.
  The mutex makes \<open>AddVote\<close> atomic; an error is a value of \<open>vote_error\<close>.
\<close>

section \<open>Votes\<close>

record Vote =
  v_Slot :: u64
  v_BlockHash :: string
  v_VoterID :: string
  v_Signature :: string

definition PublicKeySize :: nat where "PublicKeySize = 32"
definition SignatureSize :: nat where "SignatureSize = 64"

datatype vote_error =
    EmptyVoterID
  | UndecodableVoterID
  | VoterIDLength nat
  | MissingSignature
  | SignatureLength nat
  | InvalidSignature
  | DuplicateVote string u64

text \<open>The signed text is the JSON of slot, block hash and voter.\<close>

definition serializeVote :: "(u64 \<times> string \<times> string \<Rightarrow> string) \<Rightarrow> Vote \<Rightarrow> string" where
  "serializeVote Marshal v = Marshal (v_Slot v, v_BlockHash v, v_VoterID v)"

definition Vote_Sign :: "(u64 \<times> string \<times> string \<Rightarrow> string) \<Rightarrow> (string \<Rightarrow> string \<Rightarrow> string) \<Rightarrow> string \<Rightarrow> Vote \<Rightarrow> Vote" where
  "Vote_Sign Marshal ed_sign priv v = v\<lparr>v_Signature := ed_sign priv (serializeVote Marshal v)\<rparr>"

definition getPublicKeyFromVoterID :: "(string \<Rightarrow> string option) \<Rightarrow> string \<Rightarrow> vote_error + string" where
  "getPublicKeyFromVoterID decode voterID =
     (if voterID = '''' then Inl EmptyVoterID
      else case decode voterID of
        None \<Rightarrow> Inl UndecodableVoterID
      | Some pubKeyBytes \<Rightarrow>
          (if length pubKeyBytes \<noteq> PublicKeySize then Inl (VoterIDLength (length pubKeyBytes)) else Inr pubKeyBytes))"

definition Vote_Validate :: "(u64 \<times> string \<times> string \<Rightarrow> string) \<Rightarrow> (string \<Rightarrow> string option) \<Rightarrow> (string \<Rightarrow> string \<Rightarrow> string \<Rightarrow> bool) \<Rightarrow> Vote \<Rightarrow> vote_error option" where
  "Vote_Validate Marshal decode ed_verify v =
     (case getPublicKeyFromVoterID decode (v_VoterID v) of
        Inl e \<Rightarrow> Some e
      | Inr pubKey \<Rightarrow>
          (if length (v_Signature v) = 0 then Some MissingSignature
           else if length (v_Signature v) \<noteq> SignatureSize then Some (SignatureLength (length (v_Signature v)))
           else if \<not> ed_verify pubKey (serializeVote Marshal v) (v_Signature v) then Some InvalidSignature
           else None))"

section \<open>The collector\<close>

record Collector =
  c_votes :: "(u64 \<times> (string \<times> Vote) list) list"
  c_total :: int
  c_threshold :: int
  c_maxSlot :: u64

definition NewCollector :: "int \<Rightarrow> Collector" where
  "NewCollector n = (let f = n div 3; q = max (2 * f) 1 in
     \<lparr>c_votes = [], c_total = n, c_threshold = q, c_maxSlot = 0\<rparr>)"

text \<open>The votes of a slot; a slot without an entry has none.\<close>

definition slot_votes :: "u64 \<Rightarrow> Collector \<Rightarrow> (string \<times> Vote) list" where
  "slot_votes slot c = (case map_of (c_votes c) slot of None \<Rightarrow> [] | Some m \<Rightarrow> m)"

text \<open>
  \<open>AddVote\<close> with the validity check as the parameter \<open>validate\<close>. The result is the pair of the two
  flags, or the error.
\<close>

definition AddVote :: "(Vote \<Rightarrow> vote_error option) \<Rightarrow> Vote \<Rightarrow> Collector \<Rightarrow> (vote_error + bool \<times> bool) \<times> Collector" where
  "AddVote validate v c =
     (case validate v of
        Some err \<Rightarrow> (Inl err, c)
      | None \<Rightarrow>
          (let slotVotes = slot_votes (v_Slot v) c;
               c1 = (if map_of (c_votes c) (v_Slot v) = None then c\<lparr>c_votes := AList.update (v_Slot v) [] (c_votes c)\<rparr> else c) in
           if map_of slotVotes (v_VoterID v) \<noteq> None then (Inl (DuplicateVote (v_VoterID v) (v_Slot v)), c1)
           else let slotVotes1 = AList.update (v_VoterID v) v slotVotes;
                    c2 = c1\<lparr>c_votes := AList.update (v_Slot v) slotVotes1 (c_votes c1)\<rparr>;
                    c3 = (if v_Slot v > c_maxSlot c2 then c2\<lparr>c_maxSlot := v_Slot v\<rparr> else c2) in
             if int (length slotVotes1) \<ge> c_threshold c3 then (Inr (True, True), c3) else (Inr (False, False), c3)))"

definition VotesForSlot :: "u64 \<Rightarrow> Collector \<Rightarrow> (string \<times> Vote) list" where
  "VotesForSlot slot c = fold (\<lambda>(ID, v) res. AList.update ID v res) (slot_votes slot c) []"

definition CleanupOldVotes :: "u64 \<Rightarrow> u64 \<Rightarrow> Collector \<Rightarrow> Collector" where
  "CleanupOldVotes currentSlot keepRecentSlots c =
     (if currentSlot < keepRecentSlots then c
      else let cleanupThreshold = currentSlot - keepRecentSlots;
               slotsToDelete = filter (\<lambda>slot. slot < cleanupThreshold) (map fst (c_votes c)) in
        c\<lparr>c_votes := fold AList.delete slotsToDelete (c_votes c)\<rparr>)"

section \<open>What the collector knows\<close>

text \<open>The voters recorded for a slot.\<close>

definition voters :: "u64 \<Rightarrow> Collector \<Rightarrow> string set" where
  "voters slot c = fst ` set (slot_votes slot c)"

definition collector_ok :: "(Vote \<Rightarrow> vote_error option) \<Rightarrow> Collector \<Rightarrow> bool" where
  "collector_ok validate c \<longleftrightarrow> distinct (map fst (c_votes c)) \<and>
     (\<forall>slot. distinct (map fst (slot_votes slot c)) \<and>
       (\<forall>(ID, v) \<in> set (slot_votes slot c). v_Slot v = slot \<and> v_VoterID v = ID \<and> validate v = None \<and> slot \<le> c_maxSlot c))"

lemma slot_votes_update: "slot_votes s (c\<lparr>c_votes := AList.update t m (c_votes c)\<rparr>) = (if s = t then m else slot_votes s c)"
  by (auto simp: slot_votes_def update_conv')

lemma NewCollector_ok: "collector_ok validate (NewCollector n)"
  by (simp add: collector_ok_def NewCollector_def slot_votes_def Let_def)

text \<open>Everything \<open>AddVote\<close> does, branch by branch.\<close>

lemma AddVote_invalid: "validate v = Some e \<Longrightarrow> AddVote validate v c = (Inl e, c)"
  by (simp add: AddVote_def)

lemma AddVote_duplicate:
  assumes "validate v = None" "v_VoterID v \<in> voters (v_Slot v) c"
  shows "AddVote validate v c = (Inl (DuplicateVote (v_VoterID v) (v_Slot v)), c)"
proof -
  have "map_of (slot_votes (v_Slot v) c) (v_VoterID v) \<noteq> None"
    using assms(2) by (simp add: voters_def map_of_eq_None_iff)
  moreover have "map_of (c_votes c) (v_Slot v) \<noteq> None"
    using assms(2) by (cases "map_of (c_votes c) (v_Slot v)") (auto simp: voters_def slot_votes_def)
  ultimately show ?thesis using assms(1) by (auto simp: AddVote_def Let_def)
qed

lemma AddVote_new:
  assumes "validate v = None" "v_VoterID v \<notin> voters (v_Slot v) c"
  shows "\<exists>c'. AddVote validate v c = (Inr (let b = c_threshold c \<le> int (length (slot_votes (v_Slot v) c) + 1) in (b, b)), c') \<and>
    c_threshold c' = c_threshold c \<and> c_total c' = c_total c \<and> c_maxSlot c' = max (c_maxSlot c) (v_Slot v) \<and>
    (\<forall>s. slot_votes s c' = (if s = v_Slot v then slot_votes s c @ [(v_VoterID v, v)] else slot_votes s c)) \<and>
    (distinct (map fst (c_votes c)) \<longrightarrow> distinct (map fst (c_votes c')))"
proof -
  have n: "map_of (slot_votes (v_Slot v) c) (v_VoterID v) = None"
    using assms(2) by (simp add: voters_def map_of_eq_None_iff)
  have u: "AList.update k x m = m @ [(k, x)]" if "map_of m k = None" for k x and m :: "(string \<times> Vote) list"
    using that by (induction m) (auto split: if_splits)
  show ?thesis
    using assms(1) n
    by (auto simp: AddVote_def Let_def u slot_votes_update distinct_update max_def slot_votes_def update_conv' split: option.splits)
qed

lemma AddVote_voters:
  assumes "validate v = None"
  shows "voters s (snd (AddVote validate v c)) = (if s = v_Slot v then insert (v_VoterID v) (voters s c) else voters s c)"
proof (cases "v_VoterID v \<in> voters (v_Slot v) c")
  case True
  then show ?thesis using AddVote_duplicate [of validate v c] assms by auto
next
  case False
  then obtain c' where "snd (AddVote validate v c) = c'"
      "\<forall>s. slot_votes s c' = (if s = v_Slot v then slot_votes s c @ [(v_VoterID v, v)] else slot_votes s c)"
    using AddVote_new [of validate v c] assms by fastforce
  then show ?thesis by (auto simp: voters_def)
qed

lemma AddVote_keeps_threshold: "c_threshold (snd (AddVote validate v c)) = c_threshold c"
proof (cases "validate v")
  case None
  then show ?thesis
    using AddVote_duplicate [of validate v c] AddVote_new [of validate v c]
    by (cases "v_VoterID v \<in> voters (v_Slot v) c") auto
qed (simp add: AddVote_invalid)

lemma AddVote_ok:
  assumes "collector_ok validate c"
  shows "collector_ok validate (snd (AddVote validate v c))"
proof (cases "validate v")
  case None
  show ?thesis
  proof (cases "v_VoterID v \<in> voters (v_Slot v) c")
    case True
    then show ?thesis using assms AddVote_duplicate [of validate v c] None True by simp
  next
    case False
    then obtain c' where c': "snd (AddVote validate v c) = c'" "c_maxSlot c' = max (c_maxSlot c) (v_Slot v)"
        "\<forall>s. slot_votes s c' = (if s = v_Slot v then slot_votes s c @ [(v_VoterID v, v)] else slot_votes s c)"
        "distinct (map fst (c_votes c)) \<longrightarrow> distinct (map fst (c_votes c'))"
      using AddVote_new [of validate v c] None by fastforce
    then show ?thesis
      using assms None False unfolding collector_ok_def voters_def
      by (auto simp: le_max_iff_disj)
  qed
qed (simp add: AddVote_invalid assms)

text \<open>The number of recorded votes is the number of voters.\<close>

lemma collector_ok_card: "collector_ok validate c \<Longrightarrow> length (slot_votes s c) = card (voters s c)"
  unfolding collector_ok_def voters_def set_map [symmetric] by (metis distinct_card length_map)

definition collect :: "(Vote \<Rightarrow> vote_error option) \<Rightarrow> Vote list \<Rightarrow> Collector \<Rightarrow> Collector" where
  "collect validate vs c = fold (\<lambda>v c. snd (AddVote validate v c)) vs c"

text \<open>The voters of the valid votes for a slot in a list.\<close>

definition valid_voters :: "(Vote \<Rightarrow> vote_error option) \<Rightarrow> u64 \<Rightarrow> Vote list \<Rightarrow> string set" where
  "valid_voters validate s vs = v_VoterID ` {v \<in> set vs. validate v = None \<and> v_Slot v = s}"

lemma collect_result:
  assumes "collector_ok validate c"
  shows "collector_ok validate (collect validate vs c)"
    and "c_threshold (collect validate vs c) = c_threshold c"
    and "voters s (collect validate vs c) = voters s c \<union> valid_voters validate s vs"
proof -
  have "collector_ok validate (collect validate vs c) \<and> c_threshold (collect validate vs c) = c_threshold c \<and>
      voters s (collect validate vs c) = voters s c \<union> valid_voters validate s vs"
    using assms
  proof (induction vs arbitrary: c)
    case Nil
    then show ?case by (simp add: collect_def valid_voters_def)
  next
    case (Cons v vs)
    have "voters s (snd (AddVote validate v c)) \<union> valid_voters validate s vs = voters s c \<union> valid_voters validate s (v # vs)"
      by (cases "validate v") (auto simp: AddVote_invalid AddVote_voters valid_voters_def)
    then show ?case
      using Cons.IH [OF AddVote_ok [OF Cons.prems, of v]] by (simp add: collect_def AddVote_keeps_threshold)
  qed
  then show "collector_ok validate (collect validate vs c)" "c_threshold (collect validate vs c) = c_threshold c"
      "voters s (collect validate vs c) = voters s c \<union> valid_voters validate s vs" by blast+
qed

lemma AddVote_answer:
  "fst (AddVote validate v (collect validate vs (NewCollector n))) =
    (let S = valid_voters validate (v_Slot v) vs in
     case validate v of
       Some e \<Rightarrow> Inl e
     | None \<Rightarrow>
         if v_VoterID v \<in> S then Inl (DuplicateVote (v_VoterID v) (v_Slot v))
         else let b = (max (2 * (n div 3)) 1 \<le> int (card (insert (v_VoterID v) S))) in Inr (b, b))"
proof -
  let ?c = "collect validate vs (NewCollector n)"
  have r: "collector_ok validate ?c" "c_threshold ?c = c_threshold (NewCollector n)"
      "voters (v_Slot v) ?c = voters (v_Slot v) (NewCollector n) \<union> valid_voters validate (v_Slot v) vs"
    using collect_result [OF NewCollector_ok [of validate n]] by simp_all
  have e: "voters (v_Slot v) (NewCollector n) = {}"
    by (simp add: voters_def slot_votes_def NewCollector_def Let_def)
  then have S: "voters (v_Slot v) ?c = valid_voters validate (v_Slot v) vs" using r(3) by simp
  have t: "c_threshold ?c = max (2 * (n div 3)) 1" using r(2) by (simp add: NewCollector_def Let_def)
  have l: "length (slot_votes (v_Slot v) ?c) = card (valid_voters validate (v_Slot v) vs)"
    using collector_ok_card [OF r(1)] S by simp
  have fin: "finite (valid_voters validate (v_Slot v) vs)" by (simp add: valid_voters_def)
  show ?thesis
  proof (cases "validate v")
    case None
    then show ?thesis
      using AddVote_duplicate [of validate v ?c] AddVote_new [of validate v ?c] None S t l fin
      by (cases "v_VoterID v \<in> valid_voters validate (v_Slot v) vs") (auto simp: Let_def)
  qed (simp add: AddVote_invalid)
qed


section \<open>Quorums\<close>

text \<open>
  Two sets of voters that can each commit a slot should have a voter in common. The contract of a
  threshold \<open>q\<close> for \<open>n\<close> validators, and what it gives for sets of voters.
\<close>

locale quorum =
  fixes n q :: nat
  assumes majority: "n < 2 * q"
begin

lemma quorums_intersect:
  assumes "finite V" "card V \<le> n" "A \<subseteq> V" "B \<subseteq> V" "q \<le> card A" "q \<le> card B"
  shows "A \<inter> B \<noteq> {}"
proof
  assume "A \<inter> B = {}"
  moreover have f: "finite A" "finite B" using assms finite_subset by blast+
  ultimately have "card A + card B = card (A \<union> B)" by (simp add: card_Un_disjoint)
  also have "\<dots> \<le> card V" using assms by (intro card_mono) auto
  finally show False using assms majority by linarith
qed

end

definition commit_threshold :: "nat \<Rightarrow> nat" where
  "commit_threshold n = nat (c_threshold (NewCollector (int n)))"

lemma commit_threshold_eq: "commit_threshold n = max (2 * (n div 3)) 1"
proof -
  have "int n div 3 = int (n div 3)" by (simp add: zdiv_int)
  then show ?thesis by (auto simp: commit_threshold_def NewCollector_def Let_def max_def)
qed

lemma commit_threshold_majority:
  assumes "0 < n"
  shows "n < 2 * commit_threshold n \<longleftrightarrow> n \<in> {1, 3, 6, 7} \<or> 9 \<le> n"
proof -
  have n: "n = 3 * (n div 3) + n mod 3" "n mod 3 < 3" by simp_all
  show ?thesis
  proof (cases "n div 3 = 0 \<or> n div 3 = 1 \<or> n div 3 = 2")
    case True
    then have "n < 9" using n by linarith
    then have "n \<in> {1, 2, 3, 4, 5, 6, 7, 8}" using assms by auto
    then show ?thesis by (auto simp: commit_threshold_eq)
  next
    case False
    then have "3 \<le> n div 3" by linarith
    then show ?thesis using n by (auto simp: commit_threshold_eq max_def)
  qed
qed

interpretation nine_validators: quorum 9 "commit_threshold 9"
  by unfold_locales (simp add: commit_threshold_majority)

lemma AddVote_commit_voters:
  assumes "AddVote validate v (collect validate vs (NewCollector (int n))) = (Inr (True, b), c)"
  shows "commit_threshold n \<le> card (valid_voters validate (v_Slot v) (v # vs))"
proof -
  let ?S = "valid_voters validate (v_Slot v) vs"
  have "fst (AddVote validate v (collect validate vs (NewCollector (int n)))) = Inr (True, b)" using assms by simp
  then have "validate v = None" "max (2 * (int n div 3)) 1 \<le> int (card (insert (v_VoterID v) ?S))"
    unfolding AddVote_answer by (auto simp: Let_def split: option.splits if_splits)
  moreover from this have "valid_voters validate (v_Slot v) (v # vs) = insert (v_VoterID v) ?S"
    by (auto simp: valid_voters_def)
  ultimately show ?thesis by (simp add: commit_threshold_def NewCollector_def Let_def nat_le_iff)
qed

text \<open>
  C24: when two nodes commit the same slot, each on the valid votes of at most \<open>n\<close> validators that it
  collected, some validator voted at both, provided \<open>n\<close> is 1, 3, 6, 7 or at least 9.
\<close>

theorem commits_share_a_voter:
  assumes "n \<in> {1, 3, 6, 7} \<or> 9 \<le> n" "finite V" "card V \<le> n"
    and "v_VoterID ` set (v # vs) \<subseteq> V" "v_VoterID ` set (w # ws) \<subseteq> V" "v_Slot w = v_Slot v"
    and "fst (AddVote validate v (collect validate vs (NewCollector (int n)))) = Inr (True, True)"
    and "fst (AddVote validate w (collect validate ws (NewCollector (int n)))) = Inr (True, True)"
  shows "valid_voters validate (v_Slot v) (v # vs) \<inter> valid_voters validate (v_Slot v) (w # ws) \<noteq> {}"
proof -
  have "quorum n (commit_threshold n)"
    using assms(1) commit_threshold_majority [of n] by unfold_locales auto
  moreover have "commit_threshold n \<le> card (valid_voters validate (v_Slot v) (v # vs))"
    using AddVote_commit_voters [of validate v vs n True] assms(7) by (metis prod.collapse)
  moreover have "commit_threshold n \<le> card (valid_voters validate (v_Slot v) (w # ws))"
    using AddVote_commit_voters [of validate w ws n True] assms(6,8) by (metis prod.collapse)
  moreover have "valid_voters validate (v_Slot v) (v # vs) \<subseteq> V" "valid_voters validate (v_Slot v) (w # ws) \<subseteq> V"
    using assms(4,5) by (auto simp: valid_voters_def)
  ultimately show ?thesis using assms(2,3) by (intro quorum.quorums_intersect)
qed

definition vote_of :: "string \<Rightarrow> string \<Rightarrow> Vote" where
  "vote_of ID block = \<lparr>v_Slot = 5, v_BlockHash = block, v_VoterID = ID, v_Signature = ''s''\<rparr>"

theorem commits_share_a_voter_witness:
  "valid_voters (\<lambda>_. None) 5 (vote_of ''a'' ''x'' # [vote_of ''b'' ''x'']) \<inter>
   valid_voters (\<lambda>_. None) 5 (vote_of ''b'' ''x'' # [vote_of ''c'' ''x'']) \<noteq> {}"
proof -
  have "fst (AddVote (\<lambda>_. None) (vote_of ''a'' ''x'') (collect (\<lambda>_. None) [vote_of ''b'' ''x''] (NewCollector (int 3)))) = Inr (True, True)"
    "fst (AddVote (\<lambda>_. None) (vote_of ''b'' ''x'') (collect (\<lambda>_. None) [vote_of ''c'' ''x''] (NewCollector (int 3)))) = Inr (True, True)"
    by code_simp+
  then show ?thesis
    using commits_share_a_voter [of 3 "{''a'', ''b'', ''c''}" "vote_of ''a'' ''x''" "[vote_of ''b'' ''x'']"
        "vote_of ''b'' ''x''" "[vote_of ''c'' ''x'']" "\<lambda>_. None"]
    by (simp add: vote_of_def)
qed

text \<open>
  With four validators the threshold is 2, and two disjoint pairs of validators commit the same slot,
  one pair for each of two blocks. The documented threshold is \<open>2f + 1 = 3\<close>.
\<close>

lemma four_validators_split:
  "fst (AddVote (\<lambda>_. None) (vote_of ''a'' ''x'') (collect (\<lambda>_. None) [vote_of ''b'' ''x''] (NewCollector 4))) = Inr (True, True)"
  "fst (AddVote (\<lambda>_. None) (vote_of ''c'' ''y'') (collect (\<lambda>_. None) [vote_of ''d'' ''y''] (NewCollector 4))) = Inr (True, True)"
  by code_simp+

text \<open>Votes for different blocks of a slot are counted together.\<close>

lemma mixed_blocks_commit:
  "fst (AddVote (\<lambda>_. None) (vote_of ''a'' ''x'') (collect (\<lambda>_. None) [vote_of ''b'' ''y''] (NewCollector 3))) = Inr (True, True)"
  by code_simp

section \<open>Cleaning up\<close>

lemma CleanupOldVotes_slot_votes:
  "slot_votes s (CleanupOldVotes cur keep c) = (if keep \<le> cur \<and> s < cur - keep then [] else slot_votes s c)"
proof -
  have d: "map_of (fold AList.delete ks m) s = (if s \<in> set ks then None else map_of m s)" for ks and m :: "(u64 \<times> (string \<times> Vote) list) list"
    by (induction ks arbitrary: m) (auto simp: delete_conv')
  have "map_of (c_votes c) s = None" if "s \<notin> fst ` set (c_votes c)"
    using that by (simp add: map_of_eq_None_iff)
  then show ?thesis
    by (auto simp: CleanupOldVotes_def slot_votes_def Let_def d)
qed

text \<open>Once the votes of an old slot are gone, a voter can vote for it again.\<close>

lemma CleanupOldVotes_forgets:
  assumes "keep \<le> cur" "v_Slot v < cur - keep" "validate v = None"
  shows "\<exists>b. fst (AddVote validate v (CleanupOldVotes cur keep c)) = Inr (b, b)"
proof -
  have "v_VoterID v \<notin> voters (v_Slot v) (CleanupOldVotes cur keep c)"
    using assms by (simp add: voters_def CleanupOldVotes_slot_votes)
  then show ?thesis
    using AddVote_new [of validate v "CleanupOldVotes cur keep c"] assms(3) by (auto simp: Let_def)
qed

end
