(* ===== verification/Blocks.thy ===== *)
theory Blocks
  imports Poh_Entries
begin

text \<open>
  Blocks (\<open>block/block.go\<close>), the Base58 helpers of \<open>common/base58.go\<close> that decode keys, and the
  conversions between blocks, transactions and their protocol-buffer messages (\<open>utils/convert.go\<close>,
  messages as in \<open>proto/block.proto\<close> and \<open>proto/tx.proto\<close>). SHA-256, Ed25519, Base58, JSON and the
  decimal parser of the integer library are parameters; the current time is an argument.
  A hash \<open>[32]byte\<close> is a byte string, of length 32 in every block the code builds.
\<close>

section \<open>Blocks\<close>

datatype BlockStatus = BlockPending | BlockFinalized

record BlockCore =
  b_Slot :: u64
  b_PrevHash :: string
  b_LeaderID :: string
  b_Timestamp :: u64
  b_Hash :: string
  b_Signature :: string
  b_Status :: BlockStatus
  b_InvalidPoH :: bool

record Block = BlockCore +
  b_Entries :: "PersistentEntry list"

record BroadcastedBlock = BlockCore +
  bb_Entries :: "Entry list"

definition zero32 :: string where "zero32 = replicate 32 (CHR 0x00)"

definition Block_LastEntryHash :: "Block \<Rightarrow> string" where
  "Block_LastEntryHash b = (if b_Entries b = [] then zero32 else pe_Hash (last (b_Entries b)))"

definition Broadcasted_LastEntryHash :: "BroadcastedBlock \<Rightarrow> string" where
  "Broadcasted_LastEntryHash b = (if bb_Entries b = [] then zero32 else e_Hash (last (bb_Entries b)))"

definition HashString :: "(string \<Rightarrow> string) \<Rightarrow> 'a BlockCore_scheme \<Rightarrow> string" where
  "HashString hex b = hex (b_Hash b)"

abbreviation (input) PrevHashString :: "(string \<Rightarrow> string) \<Rightarrow> 'a BlockCore_scheme \<Rightarrow> string" where
  "PrevHashString hex b \<equiv> hex (b_PrevHash b)"

text \<open>What \<open>computeHash\<close> writes into the hash function, in order.\<close>

definition hash_input :: "BroadcastedBlock \<Rightarrow> string" where
  "hash_input b = be64 (b_Slot b) @ b_PrevHash b @ b_LeaderID b @ be64 (b_Timestamp b) @
     concat (map (\<lambda>e. be64 (e_NumHashes e) @ e_Hash e) (bb_Entries b))"

definition computeHash :: "(string \<Rightarrow> string) \<Rightarrow> BroadcastedBlock \<Rightarrow> string" where
  "computeHash sha b = sha (hash_input b)"

definition AssembleBlock :: "(string \<Rightarrow> string) \<Rightarrow> u64 \<Rightarrow> u64 \<Rightarrow> string \<Rightarrow> string \<Rightarrow> Entry list \<Rightarrow> BroadcastedBlock" where
  "AssembleBlock sha now slot prevHash leaderID entries =
     (let b = \<lparr>b_Slot = slot, b_PrevHash = prevHash, b_LeaderID = leaderID, b_Timestamp = now, b_Hash = zero32,
               b_Signature = '''', b_Status = BlockPending, b_InvalidPoH = False, bb_Entries = entries\<rparr> in
      b\<lparr>b_Hash := computeHash sha b\<rparr>)"

definition Block_Sign :: "(string \<Rightarrow> string \<Rightarrow> string) \<Rightarrow> string \<Rightarrow> BroadcastedBlock \<Rightarrow> BroadcastedBlock" where
  "Block_Sign ed_sign privKey b = b\<lparr>b_Signature := ed_sign privKey (b_Hash b)\<rparr>"

definition DecodeBase58ToBytes :: "(string \<Rightarrow> string option) \<Rightarrow> string \<Rightarrow> string option" where
  "DecodeBase58ToBytes base58 str = (case base58 str of None \<Rightarrow> None | Some bs \<Rightarrow> Some bs)"

abbreviation (input) IsValidBase58 :: "(string \<Rightarrow> string option) \<Rightarrow> string \<Rightarrow> bool" where
  "IsValidBase58 base58 str \<equiv> (case base58 str of None \<Rightarrow> False | Some decoded \<Rightarrow> length decoded > 0)"

definition getPublicKeyFromLeaderID :: "(string \<Rightarrow> string option) \<Rightarrow> string \<Rightarrow> string option" where
  "getPublicKeyFromLeaderID base58 leaderID =
     (if leaderID = '''' then None
      else case DecodeBase58ToBytes base58 leaderID of
        None \<Rightarrow> None
      | Some pubKeyBytes \<Rightarrow> (if length pubKeyBytes \<noteq> ed25519_PublicKeySize then None else Some pubKeyBytes))"

definition ed25519_SignatureSize :: nat where "ed25519_SignatureSize = 64"

definition VerifySignature :: "(string \<Rightarrow> string option) \<Rightarrow> (string \<Rightarrow> string \<Rightarrow> string \<Rightarrow> bool) \<Rightarrow> BroadcastedBlock \<Rightarrow> bool" where
  "VerifySignature base58 ed_verify b =
     (case getPublicKeyFromLeaderID base58 (b_LeaderID b) of
        None \<Rightarrow> False
      | Some pubKey \<Rightarrow> (if length (b_Signature b) \<noteq> ed25519_SignatureSize then False
                       else ed_verify pubKey (b_Hash b) (b_Signature b)))"

definition VerifyPoH :: "(string \<Rightarrow> string) \<Rightarrow> (Transaction option \<Rightarrow> string) \<Rightarrow> BroadcastedBlock \<Rightarrow> poh_error option" where
  "VerifyPoH sha Marshal b = VerifyEntries sha Marshal (b_PrevHash b) (bb_Entries b)"

section \<open>Conversions\<close>

definition persistent_entry :: "(Transaction option \<Rightarrow> string) \<Rightarrow> Entry \<Rightarrow> PersistentEntry" where
  "persistent_entry txHash entry =
     \<lparr>pe_NumHashes = e_NumHashes entry, pe_Hash = e_Hash entry, pe_TxHashes = map txHash (e_Transactions entry), pe_Tick = e_Tick entry\<rparr>"

definition BroadcastedBlockToBlock :: "(Transaction option \<Rightarrow> string) \<Rightarrow> BroadcastedBlock \<Rightarrow> Block" where
  "BroadcastedBlockToBlock txHash b =
     \<lparr>b_Slot = b_Slot b, b_PrevHash = b_PrevHash b, b_LeaderID = b_LeaderID b, b_Timestamp = b_Timestamp b,
      b_Hash = b_Hash b, b_Signature = b_Signature b, b_Status = BlockPending, b_InvalidPoH = b_InvalidPoH b,
      b_Entries = map (persistent_entry txHash) (bb_Entries b)\<rparr>"

record PbEntry =
  pbe_NumHashes :: u64
  pbe_Hash :: string
  pbe_Transactions :: "string list"

record PbBlock =
  pbb_Slot :: u64
  pbb_PrevHash :: string
  pbb_Entries :: "PbEntry list"
  pbb_LeaderId :: string
  pbb_Timestamp :: u64
  pbb_Hash :: string
  pbb_Signature :: string

text \<open>\<open>copy\<close> into an array of 32 zero bytes.\<close>

definition copy32 :: "string \<Rightarrow> string" where
  "copy32 s = take 32 (s @ replicate 32 (CHR 0x00))"

text \<open>
  Sequencing of fallible steps over a list: the first error ends the loop.
\<close>

fun mapE :: "('a \<Rightarrow> 'e + 'b) \<Rightarrow> 'a list \<Rightarrow> 'e + 'b list" where
  "mapE f [] = Inr []"
| "mapE f (x # xs) = (case f x of Inl e \<Rightarrow> Inl e | Inr y \<Rightarrow> (case mapE f xs of Inl e \<Rightarrow> Inl e | Inr ys \<Rightarrow> Inr (y # ys)))"

definition ParseTx :: "(string \<Rightarrow> string + Transaction) \<Rightarrow> string \<Rightarrow> string + Transaction" where
  "ParseTx Unmarshal bytes = Unmarshal bytes"

definition fromPBEntry :: "(string \<Rightarrow> string + Transaction) \<Rightarrow> PbEntry \<Rightarrow> string + Entry" where
  "fromPBEntry Unmarshal e =
     (case mapE (ParseTx Unmarshal) (pbe_Transactions e) of
        Inl err \<Rightarrow> Inl err
      | Inr txs \<Rightarrow> Inr \<lparr>e_NumHashes = pbe_NumHashes e, e_Hash = copy32 (pbe_Hash e), e_Transactions = map Some txs, e_Tick = False\<rparr>)"

definition FromProtoBlock :: "(string \<Rightarrow> string + Transaction) \<Rightarrow> PbBlock \<Rightarrow> string + BroadcastedBlock" where
  "FromProtoBlock Unmarshal pbBlk =
     (if length (pbb_PrevHash pbBlk) \<noteq> 32 then Inl ''invalid prev_hash length''
      else case mapE (fromPBEntry Unmarshal) (pbb_Entries pbBlk) of
        Inl err \<Rightarrow> Inl err
      | Inr entries \<Rightarrow>
          (if length (pbb_Hash pbBlk) \<noteq> 32 then Inl ''invalid block_hash length''
           else Inr \<lparr>b_Slot = pbb_Slot pbBlk, b_PrevHash = copy32 (pbb_PrevHash pbBlk), b_LeaderID = pbb_LeaderId pbBlk,
                     b_Timestamp = pbb_Timestamp pbBlk, b_Hash = copy32 (pbb_Hash pbBlk), b_Signature = pbb_Signature pbBlk,
                     b_Status = BlockPending, b_InvalidPoH = False, bb_Entries = entries\<rparr>))"

definition ToProtoEntry :: "(Transaction option \<Rightarrow> string + string) \<Rightarrow> Entry \<Rightarrow> string + PbEntry" where
  "ToProtoEntry Marshal e =
     (case mapE Marshal (e_Transactions e) of
        Inl err \<Rightarrow> Inl err
      | Inr txs \<Rightarrow> Inr \<lparr>pbe_NumHashes = e_NumHashes e, pbe_Hash = e_Hash e, pbe_Transactions = txs\<rparr>)"

definition ToProtoEntries :: "(Transaction option \<Rightarrow> string + string) \<Rightarrow> Entry list \<Rightarrow> string + PbEntry list" where
  "ToProtoEntries Marshal entries = mapE (ToProtoEntry Marshal) entries"

definition ToProtoBlock :: "(Transaction option \<Rightarrow> string + string) \<Rightarrow> BroadcastedBlock \<Rightarrow> string + PbBlock" where
  "ToProtoBlock Marshal blk =
     (case ToProtoEntries Marshal (bb_Entries blk) of
        Inl err \<Rightarrow> Inl err
      | Inr entries \<Rightarrow> Inr \<lparr>pbb_Slot = b_Slot blk, pbb_PrevHash = b_PrevHash blk, pbb_Entries = entries,
          pbb_LeaderId = b_LeaderID blk, pbb_Timestamp = b_Timestamp blk, pbb_Hash = b_Hash blk, pbb_Signature = b_Signature blk\<rparr>)"

record TxMsg =
  m_Type :: int
  m_Sender :: string
  m_Recipient :: string
  m_Amount :: string
  m_Timestamp :: u64
  m_TextData :: string
  m_Nonce :: u64
  m_ExtraInfo :: string
  m_ZkProof :: string
  m_ZkPub :: string

text \<open>A nested message that was not sent is nil.\<close>

record SignedTxMsg =
  s_TxMsg :: "TxMsg option"
  s_Signature :: string

definition FromProtoSignedTx :: "(string \<Rightarrow> string + u256) \<Rightarrow> SignedTxMsg \<Rightarrow> (string, Transaction) outcome" where
  "FromProtoSignedTx FromDecimal pbTx =
     (case s_TxMsg pbTx of None \<Rightarrow> Panics | Some m \<Rightarrow>
      case (if m_Amount m \<noteq> '''' then FromDecimal (m_Amount m) else Inr 0) of
        Inl err \<Rightarrow> Fails err
      | Inr amount \<Rightarrow> Returns \<lparr>tx_Type = m_Type m, tx_Sender = m_Sender m, tx_Recipient = m_Recipient m, tx_Amount = Some amount,
          tx_Timestamp = m_Timestamp m, tx_TextData = m_TextData m, tx_Nonce = m_Nonce m, tx_Signature = s_Signature pbTx,
          tx_ExtraInfo = m_ExtraInfo m, tx_ZkProof = m_ZkProof m, tx_ZkPub = m_ZkPub m\<rparr>)"

text \<open>\<open>ToProtoTx\<close> leaves the fields \<open>ExtraInfo\<close>, \<open>ZkProof\<close> and \<open>ZkPub\<close> empty.\<close>

definition ToProtoTx :: "Transaction \<Rightarrow> TxMsg" where
  "ToProtoTx tx = \<lparr>m_Type = tx_Type tx, m_Sender = tx_Sender tx, m_Recipient = tx_Recipient tx,
     m_Amount = uint256ToString (tx_Amount tx), m_Timestamp = tx_Timestamp tx, m_TextData = tx_TextData tx,
     m_Nonce = tx_Nonce tx, m_ExtraInfo = '''', m_ZkProof = '''', m_ZkPub = ''''\<rparr>"

definition ToProtoSignedTx :: "Transaction \<Rightarrow> SignedTxMsg" where
  "ToProtoSignedTx tx = \<lparr>s_TxMsg = Some (ToProtoTx tx), s_Signature = tx_Signature tx\<rparr>"

definition Uint256FromString :: "(string \<Rightarrow> string + u256) \<Rightarrow> string \<Rightarrow> u256 option" where
  "Uint256FromString FromDecimal value =
     (if value = '''' then Some 0 else case FromDecimal value of Inl _ \<Rightarrow> None | Inr amount \<Rightarrow> Some amount)"

abbreviation (input) "TxStatusFailed \<equiv> 0 :: int"
abbreviation (input) "TxStatusSuccess \<equiv> 1 :: int"
abbreviation (input) "TxStatusProcessed \<equiv> 2 :: int"

datatype TransactionStatus = PENDING | CONFIRMED | FINALIZED | FAILED

definition TxMetaStatusToProtoTxStatus :: "int \<Rightarrow> TransactionStatus" where
  "TxMetaStatusToProtoTxStatus status =
     (if status = TxStatusFailed then FAILED else if status = TxStatusSuccess then FINALIZED
      else if status = TxStatusProcessed then CONFIRMED else PENDING)"

section \<open>What a block hash determines\<close>

lemma append_same_length: "length a = length b \<Longrightarrow> a @ x = b @ y \<longleftrightarrow> a = b \<and> x = y"
  by simp

lemma entry_bytes_inject:
  assumes "\<forall>e \<in> set es. length (e_Hash e) = 32" "\<forall>e \<in> set fs. length (e_Hash e) = 32"
    and "concat (map (\<lambda>e. be64 (e_NumHashes e) @ e_Hash e) es) = concat (map (\<lambda>e. be64 (e_NumHashes e) @ e_Hash e) fs)"
  shows "map (\<lambda>e. (e_NumHashes e, e_Hash e)) es = map (\<lambda>e. (e_NumHashes e, e_Hash e)) fs"
  using assms
proof (induction es arbitrary: fs)
  case Nil
  then show ?case by (cases fs) auto
next
  case (Cons e es)
  then obtain f gs where f: "fs = f # gs" by (cases fs) auto
  then show ?case using Cons by (auto simp: append_same_length)
qed

lemma entry_bytes_length:
  assumes "\<forall>e \<in> set es. length (e_Hash e) = 32"
  shows "length (concat (map (\<lambda>e. be64 (e_NumHashes e) @ e_Hash e) es)) = 40 * length es"
  using assms by (induction es) auto

definition hashes_ok :: "BroadcastedBlock \<Rightarrow> bool" where
  "hashes_ok b \<longleftrightarrow> length (b_PrevHash b) = 32 \<and> length (b_Hash b) = 32 \<and> (\<forall>e \<in> set (bb_Entries b). length (e_Hash e) = 32)"

text \<open>
  C27: the text that is hashed for a block determines its slot, previous hash, leader, time stamp and
  the number and hashes of its entries, for leader names whose lengths differ by less than 40.
\<close>

theorem hash_input_determines:
  assumes "hashes_ok a" "hashes_ok b" "hash_input a = hash_input b"
    and "length (b_LeaderID a) < length (b_LeaderID b) + 40" "length (b_LeaderID b) < length (b_LeaderID a) + 40"
  shows "b_Slot a = b_Slot b \<and> b_PrevHash a = b_PrevHash b \<and> b_LeaderID a = b_LeaderID b \<and> b_Timestamp a = b_Timestamp b \<and>
    map (\<lambda>e. (e_NumHashes e, e_Hash e)) (bb_Entries a) = map (\<lambda>e. (e_NumHashes e, e_Hash e)) (bb_Entries b)"
proof -
  let ?body = "\<lambda>x. concat (map (\<lambda>e. be64 (e_NumHashes e) @ e_Hash e) (bb_Entries x))"
  have l: "length (?body a) = 40 * length (bb_Entries a)" "length (?body b) = 40 * length (bb_Entries b)"
    using assms(1,2) by (auto simp only: hashes_ok_def intro!: entry_bytes_length)
  have "length (hash_input a) = length (hash_input b)" using assms(3) by simp
  then have "length (b_LeaderID a) + 40 * length (bb_Entries a) = length (b_LeaderID b) + 40 * length (bb_Entries b)"
    using assms(1,2) l unfolding hash_input_def hashes_ok_def by simp
  then have leader: "length (b_LeaderID a) = length (b_LeaderID b)" using assms(4,5) by presburger
  have prev: "length (b_PrevHash a) = length (b_PrevHash b)" using assms(1,2) by (simp add: hashes_ok_def)
  have f: "b_Slot a = b_Slot b \<and> b_PrevHash a = b_PrevHash b \<and> b_LeaderID a = b_LeaderID b \<and> b_Timestamp a = b_Timestamp b"
    and body: "?body a = ?body b"
    using assms(3) prev leader unfolding hash_input_def by (simp_all add: append_same_length)
  have "map (\<lambda>e. (e_NumHashes e, e_Hash e)) (bb_Entries a) = map (\<lambda>e. (e_NumHashes e, e_Hash e)) (bb_Entries b)"
    by (rule entry_bytes_inject [OF _ _ body]) (use assms(1,2) in \<open>simp_all add: hashes_ok_def\<close>)
  then show ?thesis using f by blast
qed

definition sample_block :: BroadcastedBlock where
  "sample_block = AssembleBlock (take 32) 7 3 zero32 ''leader'' [NewTickEntry 2 zero32]"

theorem hash_input_determines_witness:
  "let b = sample_block\<lparr>b_Signature := ''sig''\<rparr> in
    b_Slot sample_block = b_Slot b \<and> b_PrevHash sample_block = b_PrevHash b \<and> b_LeaderID sample_block = b_LeaderID b \<and>
    b_Timestamp sample_block = b_Timestamp b \<and>
    map (\<lambda>e. (e_NumHashes e, e_Hash e)) (bb_Entries sample_block) = map (\<lambda>e. (e_NumHashes e, e_Hash e)) (bb_Entries b)"
proof -
  have s: "hashes_ok sample_block" "hashes_ok (sample_block\<lparr>b_Signature := ''sig''\<rparr>)"
    by (simp_all add: hashes_ok_def sample_block_def AssembleBlock_def computeHash_def hash_input_def zero32_def NewTickEntry_def Let_def)
  show ?thesis unfolding Let_def by (rule hash_input_determines [OF s]) (simp_all add: hash_input_def)
qed

text \<open>
  The hash of a received block is never compared with its contents: the signature check looks at the
  claimed hash, the leader and the signature only, and accepts the block with any other contents.
\<close>

lemma VerifySignature_ignores_contents:
  "VerifySignature base58 ed (b\<lparr>b_Slot := slot, b_PrevHash := prev, b_Timestamp := t, bb_Entries := es\<rparr>) = VerifySignature base58 ed b"
  by (simp add: VerifySignature_def split: option.split)

text \<open>A leader name that is 40 bytes longer can stand for an entry.\<close>

lemma hash_input_ambiguous:
  fixes b :: BroadcastedBlock
  assumes "bb_Entries b = []"
  shows "hash_input (b\<lparr>b_LeaderID := b_LeaderID b @ be64 (b_Timestamp b) @ be64 n @ replicate 24 (CHR 0x00), b_Timestamp := t\<rparr>) =
    hash_input (b\<lparr>bb_Entries := [NewTickEntry n (replicate 24 (CHR 0x00) @ be64 t)]\<rparr>)"
  using assms by (simp add: hash_input_def NewTickEntry_def)

section \<open>Round trips\<close>

lemma copy32_id: "length s = 32 \<Longrightarrow> copy32 s = s"
  by (simp add: copy32_def)

text \<open>Encoding a list and decoding it again, element by element.\<close>

lemma mapE_roundtrip:
  assumes "\<And>x. x \<in> set xs \<Longrightarrow> \<exists>y. enc x = Inr y \<and> decode y = Inr (g x)"
  shows "\<exists>ys. mapE enc xs = Inr ys \<and> mapE decode ys = Inr (map g xs)"
  using assms
proof (induction xs)
  case (Cons x xs)
  then obtain y ys where "enc x = Inr y" "decode y = Inr (g x)" "mapE enc xs = Inr ys" "mapE decode ys = Inr (map g xs)"
    by (metis list.set_intros)
  then have "mapE enc (x # xs) = Inr (y # ys) \<and> mapE decode (y # ys) = Inr (map g (x # xs))" by simp
  then show ?case by blast
qed simp

text \<open>Transactions that survive the JSON encoding.\<close>

definition tx_json :: "(Transaction option \<Rightarrow> string + string) \<Rightarrow> (string \<Rightarrow> string + Transaction) \<Rightarrow> Transaction option \<Rightarrow> bool" where
  "tx_json Marshal Unmarshal tx \<longleftrightarrow> (case tx of None \<Rightarrow> False | Some t \<Rightarrow>
     (case Marshal (Some t) of Inl _ \<Rightarrow> False | Inr s \<Rightarrow> Unmarshal s = Inr t))"

lemma entry_roundtrip:
  assumes "length (e_Hash e) = 32" "\<forall>tx \<in> set (e_Transactions e). tx_json Marshal Unmarshal tx"
  shows "\<exists>p. ToProtoEntry Marshal e = Inr p \<and> fromPBEntry Unmarshal p = Inr (e\<lparr>e_Tick := False\<rparr>)"
proof -
  have "\<exists>y. Marshal tx = Inr y \<and> ParseTx Unmarshal y = Inr (the tx)" if "tx \<in> set (e_Transactions e)" for tx
  proof -
    have "tx_json Marshal Unmarshal tx" using assms(2) that by blast
    then show ?thesis by (cases tx; cases "Marshal tx") (auto simp: tx_json_def ParseTx_def)
  qed
  then have "\<exists>ys. mapE Marshal (e_Transactions e) = Inr ys \<and> mapE (ParseTx Unmarshal) ys = Inr (map the (e_Transactions e))"
    by (rule mapE_roundtrip)
  then obtain ys where
    ys: "mapE Marshal (e_Transactions e) = Inr ys" "mapE (ParseTx Unmarshal) ys = Inr (map the (e_Transactions e))" by blast
  have "map Some (map the (e_Transactions e)) = e_Transactions e"
    using assms(2) by (auto simp: tx_json_def intro!: map_idI split: option.splits)
  then show ?thesis using ys assms(1) by (cases e) (simp add: ToProtoEntry_def fromPBEntry_def copy32_id)
qed

text \<open>
  C28: a block sent as a message and read back is the same block, with the tick flags of its entries
  cleared and the local fields (status, invalid-PoH mark) reset, when its hashes have 32 bytes and its
  transactions survive the JSON encoding.
\<close>

theorem block_message_roundtrip:
  assumes "hashes_ok b" "\<forall>e \<in> set (bb_Entries b). \<forall>tx \<in> set (e_Transactions e). tx_json Marshal Unmarshal tx"
  shows "\<exists>m. ToProtoBlock Marshal b = Inr m \<and>
    FromProtoBlock Unmarshal m = Inr (b\<lparr>b_Status := BlockPending, b_InvalidPoH := False, bb_Entries := map (\<lambda>e. e\<lparr>e_Tick := False\<rparr>) (bb_Entries b)\<rparr>)"
proof -
  have "\<exists>p. ToProtoEntry Marshal e = Inr p \<and> fromPBEntry Unmarshal p = Inr (e\<lparr>e_Tick := False\<rparr>)" if "e \<in> set (bb_Entries b)" for e
    using entry_roundtrip [of e Marshal Unmarshal] assms that by (simp add: hashes_ok_def)
  then have "\<exists>ys. mapE (ToProtoEntry Marshal) (bb_Entries b) = Inr ys \<and>
      mapE (fromPBEntry Unmarshal) ys = Inr (map (\<lambda>e. e\<lparr>e_Tick := False\<rparr>) (bb_Entries b))"
    by (rule mapE_roundtrip)
  then obtain ys where
    "mapE (ToProtoEntry Marshal) (bb_Entries b) = Inr ys"
    "mapE (fromPBEntry Unmarshal) ys = Inr (map (\<lambda>e. e\<lparr>e_Tick := False\<rparr>) (bb_Entries b))" by blast
  then show ?thesis
    using assms(1) by (cases b) (simp add: ToProtoBlock_def ToProtoEntries_def FromProtoBlock_def hashes_ok_def copy32_id)
qed

definition json_demo :: "Transaction option \<Rightarrow> string + string" where
  "json_demo tx = (case tx of None \<Rightarrow> Inr ''null'' | Some t \<Rightarrow> Inr ''tx'')"

theorem block_message_roundtrip_witness:
  "let b = AssembleBlock (\<lambda>_. zero32) 7 3 zero32 ''leader'' [NewTxEntry 1 zero32 [Some sample_tx], NewTickEntry 2 zero32] in
   \<exists>m. ToProtoBlock json_demo b = Inr m \<and>
    FromProtoBlock (\<lambda>_. Inr sample_tx) m = Inr (b\<lparr>b_Status := BlockPending, b_InvalidPoH := False, bb_Entries := map (\<lambda>e. e\<lparr>e_Tick := False\<rparr>) (bb_Entries b)\<rparr>)"
  unfolding Let_def
  by (rule block_message_roundtrip)
    (simp_all add: hashes_ok_def AssembleBlock_def computeHash_def zero32_def NewTxEntry_def NewTickEntry_def tx_json_def json_demo_def Let_def)

text \<open>
  A transaction sent through \<open>ToProtoSignedTx\<close> loses its extra information and its zero-knowledge proof.
\<close>

lemma signed_tx_roundtrip:
  assumes "\<And>a. FromDecimal (dec (unat a)) = Inr a"
  shows "FromProtoSignedTx FromDecimal (ToProtoSignedTx tx) =
    Returns (tx\<lparr>tx_Amount := Some (case tx_Amount tx of None \<Rightarrow> 0 | Some a \<Rightarrow> a), tx_ExtraInfo := '''', tx_ZkProof := '''', tx_ZkPub := ''''\<rparr>)"
proof -
  have "uint256ToString (tx_Amount tx) \<noteq> ''''"
    by (cases "tx_Amount tx") (simp_all add: uint256ToString_def dec_nonempty)
  moreover have "FromDecimal (uint256ToString (tx_Amount tx)) = Inr (case tx_Amount tx of None \<Rightarrow> 0 | Some a \<Rightarrow> a)"
    using assms [of 0] assms by (cases "tx_Amount tx") (simp_all add: uint256ToString_def dec_0)
  ultimately show ?thesis
    by (cases tx) (simp add: FromProtoSignedTx_def ToProtoSignedTx_def ToProtoTx_def)
qed

lemma missing_message_panics: "s_TxMsg m = None \<Longrightarrow> FromProtoSignedTx FromDecimal m = Panics"
  by (simp add: FromProtoSignedTx_def)

end
