(* ===== verification/Stores.thy ===== *)
theory Stores
  imports Databases Blocks
begin

text \<open>
  The stores of \<open>store/\<close> over a database provider: accounts (\<open>account_store.go\<close>), transactions and the
  latest version of user content (\<open>tx_store.go\<close>), transaction metadata (\<open>tx_meta_store.go\<close>), with the records
  of \<open>types/\<close>. All stores share one database, as \<open>factory.go\<close> sets
  them up. The JSON codec of each type is a parameter, as is the hash \<open>H\<close> of a transaction pointer
  (the Go method \<open>Hash\<close>). Locks make each operation atomic. An error is the message of its cause, without
  the text the caller wraps around it.
\<close>

section \<open>Records and codecs\<close>

record Account =
  acc_Address :: string
  acc_Balance :: "u256 option"
  acc_Nonce :: u64

record TransactionMeta =
  meta_TxHash :: string
  meta_Slot :: u64
  meta_BlockHash :: string
  meta_Status :: int
  meta_Error :: string

definition NewTxMeta :: "(Transaction option \<Rightarrow> string) \<Rightarrow> Transaction option \<Rightarrow> u64 \<Rightarrow> string \<Rightarrow> int \<Rightarrow> string \<Rightarrow> TransactionMeta" where
  "NewTxMeta H tx slot blockHash status err =
     \<lparr>meta_TxHash = H tx, meta_Slot = slot, meta_BlockHash = blockHash, meta_Status = status, meta_Error = err\<rparr>"

text \<open>The JSON encoding and decoding of a type; decoding what was encoded gives it back.\<close>

record 'a Codec =
  enc :: "'a \<Rightarrow> string res"
  dcd :: "string \<Rightarrow> 'a res"

definition codec_ok :: "'a Codec \<Rightarrow> bool" where
  "codec_ok c \<longleftrightarrow> (\<forall>x s. enc c x = Inr s \<longrightarrow> dcd c s = Inr x)"

section \<open>Keys\<close>

datatype KeyName = PrefixAccount | PrefixBlockMeta | PrefixBlock | PrefixBlockFinalized
  | BlockMetaKeyLatestFinalized | BlockMetaKeyLatestStore | PrefixTx | PrefixTxMeta | PrefixLatestVersionContent

fun key_text :: "KeyName \<Rightarrow> string" where
  "key_text PrefixAccount = ''account:''"
| "key_text PrefixBlockMeta = ''blk_meta:''"
| "key_text PrefixBlock = ''blk:''"
| "key_text PrefixBlockFinalized = ''blk_finalized:''"
| "key_text BlockMetaKeyLatestFinalized = ''latest_finalized''"
| "key_text BlockMetaKeyLatestStore = ''latest_store''"
| "key_text PrefixTx = ''tx:''"
| "key_text PrefixTxMeta = ''tx_meta:''"
| "key_text PrefixLatestVersionContent = ''latest_version_content:''"

definition account_key :: "string \<Rightarrow> string" where "account_key addr = key_text PrefixAccount @ addr"
definition tx_key :: "string \<Rightarrow> string" where "tx_key txHash = key_text PrefixTx @ txHash"
definition tx_meta_key :: "string \<Rightarrow> string" where "tx_meta_key txHash = key_text PrefixTxMeta @ txHash"
definition content_key :: "string \<Rightarrow> string" where "content_key rootHash = key_text PrefixLatestVersionContent @ rootHash"
definition slotToBlockKey :: "u64 \<Rightarrow> string" where "slotToBlockKey slot = key_text PrefixBlock @ be64 slot"
definition slotToFinalizedKey :: "u64 \<Rightarrow> string" where "slotToFinalizedKey slot = key_text PrefixBlockFinalized @ be64 slot"
definition latest_finalized_key :: string where "latest_finalized_key = key_text PrefixBlockMeta @ key_text BlockMetaKeyLatestFinalized"
definition latest_store_key :: string where "latest_store_key = key_text PrefixBlockMeta @ key_text BlockMetaKeyLatestStore"

lemmas key_defs = account_key_def tx_key_def tx_meta_key_def content_key_def slotToBlockKey_def slotToFinalizedKey_def
  latest_finalized_key_def latest_store_key_def

text \<open>Keys of one kind are distinct, and keys of different kinds never meet.\<close>

lemma key_inject [simp]:
  "account_key a = account_key b \<longleftrightarrow> a = b" "tx_key a = tx_key b \<longleftrightarrow> a = b" "tx_meta_key a = tx_meta_key b \<longleftrightarrow> a = b"
  "content_key a = content_key b \<longleftrightarrow> a = b" "slotToBlockKey s = slotToBlockKey t \<longleftrightarrow> s = t"
  "slotToFinalizedKey s = slotToFinalizedKey t \<longleftrightarrow> s = t"
  by (simp_all add: account_key_def tx_key_def tx_meta_key_def content_key_def slotToBlockKey_def slotToFinalizedKey_def)

lemma keys_disjoint [simp]:
  "account_key a \<noteq> tx_key b" "account_key a \<noteq> tx_meta_key b" "account_key a \<noteq> content_key b"
  "account_key a \<noteq> slotToBlockKey s" "account_key a \<noteq> slotToFinalizedKey s" "account_key a \<noteq> latest_finalized_key" "account_key a \<noteq> latest_store_key"
  "tx_key a \<noteq> tx_meta_key b" "tx_key a \<noteq> content_key b" "tx_key a \<noteq> slotToBlockKey s" "tx_key a \<noteq> slotToFinalizedKey s"
  "tx_key a \<noteq> latest_finalized_key" "tx_key a \<noteq> latest_store_key"
  "tx_meta_key a \<noteq> content_key b" "tx_meta_key a \<noteq> slotToBlockKey s" "tx_meta_key a \<noteq> slotToFinalizedKey s"
  "tx_meta_key a \<noteq> latest_finalized_key" "tx_meta_key a \<noteq> latest_store_key"
  "content_key a \<noteq> slotToBlockKey s" "content_key a \<noteq> slotToFinalizedKey s" "content_key a \<noteq> latest_finalized_key" "content_key a \<noteq> latest_store_key"
  "slotToBlockKey t \<noteq> slotToFinalizedKey s" "slotToBlockKey t \<noteq> latest_finalized_key" "slotToBlockKey t \<noteq> latest_store_key"
  "slotToFinalizedKey t \<noteq> latest_finalized_key" "slotToFinalizedKey t \<noteq> latest_store_key" "latest_finalized_key \<noteq> latest_store_key"
  by (simp_all add: key_defs)

lemmas keys_disjoint' [simp] = keys_disjoint [symmetric]

lemma keys_not_range [simp]:
  "slotToBlockKey s \<notin> range tx_meta_key" "slotToBlockKey s \<notin> range account_key" "slotToBlockKey s \<notin> range content_key"
  "slotToFinalizedKey s \<notin> range tx_meta_key" "slotToFinalizedKey s \<notin> range account_key" "slotToFinalizedKey s \<notin> range content_key"
  "account_key h \<notin> range tx_meta_key" "account_key h \<notin> range content_key" "content_key h \<notin> range account_key" "content_key h \<notin> range tx_meta_key"
  "tx_meta_key h \<notin> range account_key" "tx_meta_key h \<notin> range content_key"
  "tx_key h \<notin> range tx_meta_key" "tx_key h \<notin> range account_key" "tx_key h \<notin> range content_key"
  "latest_store_key \<notin> range tx_meta_key" "latest_store_key \<notin> range account_key" "latest_store_key \<notin> range content_key"
  "latest_finalized_key \<notin> range tx_meta_key" "latest_finalized_key \<notin> range account_key" "latest_finalized_key \<notin> range content_key"
  by auto

section \<open>Accounts\<close>

definition Account_Store :: "'db DatabaseProvider \<Rightarrow> Account Codec \<Rightarrow> Account \<Rightarrow> 'db \<Rightarrow> string option \<times> 'db" where
  "Account_Store p ca account d =
     (case enc ca account of
        Inl e \<Rightarrow> (Some (''failed marshal account'' @ e), d)
      | Inr accountData \<Rightarrow>
          (case p_Put p (account_key (acc_Address account)) accountData d of
             (Some e, d') \<Rightarrow> (Some (''failed write account'' @ e), d')
           | (None, d') \<Rightarrow> (None, d')))"

definition account_put :: "Account Codec \<Rightarrow> Account \<Rightarrow> BatchOp res" where
  "account_put ca account = (case enc ca account of Inl e \<Rightarrow> Inl e | Inr bs \<Rightarrow> Inr (BPut (account_key (acc_Address account)) bs))"

definition Account_StoreBatch :: "'db DatabaseProvider \<Rightarrow> Account Codec \<Rightarrow> Account list \<Rightarrow> 'db \<Rightarrow> string option \<times> 'db" where
  "Account_StoreBatch p ca accounts d =
     (case mapE (account_put ca) accounts of Inl e \<Rightarrow> (Some e, d) | Inr ops \<Rightarrow> p_Write p ops d)"

definition GetByAddr :: "'db DatabaseProvider \<Rightarrow> Account Codec \<Rightarrow> 'db \<Rightarrow> string \<Rightarrow> Account option res" where
  "GetByAddr p ca d addr =
     (case p_Get p d (account_key addr) of
        Inl e \<Rightarrow> Inl ''internal error''
      | Inr None \<Rightarrow> Inr None
      | Inr (Some bs) \<Rightarrow> (case dcd ca bs of Inl e \<Rightarrow> Inl ''internal error'' | Inr acc \<Rightarrow> Inr (Some acc)))"

text \<open>
  \<open>GetBatch\<close> goes through the map the provider returned, in some order, and takes each account under the
  address its key belongs to; what does not decode is skipped.
\<close>

fun collect_accounts :: "Account Codec \<Rightarrow> (string \<times> string) list \<Rightarrow> (string \<times> string) list \<Rightarrow> (string \<times> Account) list \<Rightarrow> (string \<times> Account) list" where
  "collect_accounts ca keyToAddr [] accounts = accounts"
| "collect_accounts ca keyToAddr ((keyStr, bs) # dataMap) accounts =
     (let addr = (case map_of keyToAddr keyStr of None \<Rightarrow> '''' | Some a \<Rightarrow> a) in
      case dcd ca bs of
        Inl e \<Rightarrow> collect_accounts ca keyToAddr dataMap accounts
      | Inr acc \<Rightarrow> collect_accounts ca keyToAddr dataMap (AList.update addr acc accounts))"

definition Account_GetBatch :: "'db DatabaseProvider \<Rightarrow> Account Codec \<Rightarrow> 'db \<Rightarrow> string list \<Rightarrow> (string \<times> Account) list res" where
  "Account_GetBatch p ca d addrs =
     (if addrs = [] then Inr []
      else let keys = map account_key addrs;
               keyToAddr = fold (\<lambda>addr. AList.update (account_key addr) addr) addrs [] in
        case p_GetBatch p d keys of Inl e \<Rightarrow> Inl e | Inr dataMap \<Rightarrow> Inr (collect_accounts ca keyToAddr dataMap []))"

definition ExistsByAddr :: "'db DatabaseProvider \<Rightarrow> 'db \<Rightarrow> string \<Rightarrow> bool res" where
  "ExistsByAddr p d addr = p_Has p d (account_key addr)"

section \<open>Transactions and their metadata\<close>

definition tx_put :: "(Transaction option \<Rightarrow> string) \<Rightarrow> Transaction option Codec \<Rightarrow> Transaction option \<Rightarrow> BatchOp res" where
  "tx_put H ct tx = (case enc ct tx of Inl e \<Rightarrow> Inl e | Inr txData \<Rightarrow> Inr (BPut (tx_key (H tx)) txData))"

definition Tx_StoreBatch :: "'db DatabaseProvider \<Rightarrow> (Transaction option \<Rightarrow> string) \<Rightarrow> Transaction option Codec \<Rightarrow> Transaction option list \<Rightarrow> 'db \<Rightarrow> string option \<times> 'db" where
  "Tx_StoreBatch p H ct txs d =
     (if txs = [] then (None, d)
      else case mapE (tx_put H ct) txs of Inl e \<Rightarrow> (Some e, d) | Inr ops \<Rightarrow> p_Write p ops d)"

abbreviation (input) Tx_Store :: "'db DatabaseProvider \<Rightarrow> (Transaction option \<Rightarrow> string) \<Rightarrow> Transaction option Codec \<Rightarrow> Transaction option \<Rightarrow> 'db \<Rightarrow> string option \<times> 'db" where
  "Tx_Store p H ct tx d \<equiv> Tx_StoreBatch p H ct [tx] d"

text \<open>Decoding into a value: JSON \<open>null\<close> leaves the zero transaction, so the result is never nil.\<close>

definition zero_tx :: Transaction where
  "zero_tx = \<lparr>tx_Type = 0, tx_Sender = '''', tx_Recipient = '''', tx_Amount = None, tx_Timestamp = 0, tx_TextData = '''',
     tx_Nonce = 0, tx_Signature = '''', tx_ExtraInfo = '''', tx_ZkProof = '''', tx_ZkPub = ''''\<rparr>"

definition decode_tx :: "Transaction option Codec \<Rightarrow> string \<Rightarrow> Transaction res" where
  "decode_tx ct bs = (case dcd ct bs of Inl e \<Rightarrow> Inl e | Inr None \<Rightarrow> Inr zero_tx | Inr (Some tx) \<Rightarrow> Inr tx)"

text \<open>A key that is not stored reads as no bytes.\<close>

definition Tx_GetByHash :: "'db DatabaseProvider \<Rightarrow> Transaction option Codec \<Rightarrow> 'db \<Rightarrow> string \<Rightarrow> Transaction res" where
  "Tx_GetByHash p ct d txHash =
     (case p_Get p d (tx_key txHash) of
        Inl e \<Rightarrow> Inl e
      | Inr bs \<Rightarrow> decode_tx ct (case bs of None \<Rightarrow> '''' | Some s \<Rightarrow> s))"

fun collect_txs :: "Transaction option Codec \<Rightarrow> (string \<times> string) list \<Rightarrow> string list \<Rightarrow> Transaction list" where
  "collect_txs ct dataMap [] = []"
| "collect_txs ct dataMap (txHash # txHashes) =
     (case map_of dataMap (tx_key txHash) of
        None \<Rightarrow> collect_txs ct dataMap txHashes
      | Some bs \<Rightarrow> (case decode_tx ct bs of
          Inl e \<Rightarrow> collect_txs ct dataMap txHashes
        | Inr tx \<Rightarrow> tx # collect_txs ct dataMap txHashes))"

definition Tx_GetBatch :: "'db DatabaseProvider \<Rightarrow> Transaction option Codec \<Rightarrow> 'db \<Rightarrow> string list \<Rightarrow> Transaction list res" where
  "Tx_GetBatch p ct d txHashes =
     (if txHashes = [] then Inr []
      else case p_GetBatch p d (map tx_key txHashes) of Inl e \<Rightarrow> Inl e | Inr dataMap \<Rightarrow> Inr (collect_txs ct dataMap txHashes))"

definition GetLatestVersionContentHash :: "'db DatabaseProvider \<Rightarrow> 'db \<Rightarrow> string \<Rightarrow> string res" where
  "GetLatestVersionContentHash p d rootHash =
     (case p_Get p d (content_key rootHash) of Inl e \<Rightarrow> Inl e | Inr bs \<Rightarrow> Inr (hexEncode (case bs of None \<Rightarrow> '''' | Some s \<Rightarrow> s)))"

text \<open>The set of root hashes is a list, in the order a loop visits it.\<close>

fun collect_contents :: "(string \<times> string) list \<Rightarrow> string list \<Rightarrow> (string \<times> string) list \<Rightarrow> (string \<times> string) list" where
  "collect_contents dataMap [] result = result"
| "collect_contents dataMap (rootHash # rootHashes) result =
     (case map_of dataMap (content_key rootHash) of
        None \<Rightarrow> collect_contents dataMap rootHashes result
      | Some bs \<Rightarrow> collect_contents dataMap rootHashes (AList.update rootHash (hexEncode bs) result))"

definition GetBatchLatestVersionContentHash :: "'db DatabaseProvider \<Rightarrow> 'db \<Rightarrow> string list \<Rightarrow> (string \<times> string) list res" where
  "GetBatchLatestVersionContentHash p d rootHashes =
     (if rootHashes = [] then Inr []
      else case p_GetBatch p d (map content_key rootHashes) of Inl e \<Rightarrow> Inl e | Inr dataMap \<Rightarrow> Inr (collect_contents dataMap rootHashes []))"

definition meta_put :: "TransactionMeta Codec \<Rightarrow> TransactionMeta \<Rightarrow> BatchOp res" where
  "meta_put cm txMeta = (case enc cm txMeta of Inl e \<Rightarrow> Inl e | Inr bs \<Rightarrow> Inr (BPut (tx_meta_key (meta_TxHash txMeta)) bs))"

definition Meta_StoreBatch :: "'db DatabaseProvider \<Rightarrow> TransactionMeta Codec \<Rightarrow> TransactionMeta list \<Rightarrow> 'db \<Rightarrow> string option \<times> 'db" where
  "Meta_StoreBatch p cm txMetas d =
     (if txMetas = [] then (None, d)
      else case mapE (meta_put cm) txMetas of Inl e \<Rightarrow> (Some e, d) | Inr ops \<Rightarrow> p_Write p ops d)"

abbreviation (input) Meta_Store :: "'db DatabaseProvider \<Rightarrow> TransactionMeta Codec \<Rightarrow> TransactionMeta \<Rightarrow> 'db \<Rightarrow> string option \<times> 'db" where
  "Meta_Store p cm txMeta d \<equiv> Meta_StoreBatch p cm [txMeta] d"

definition Meta_GetByHash :: "'db DatabaseProvider \<Rightarrow> TransactionMeta Codec \<Rightarrow> 'db \<Rightarrow> string \<Rightarrow> TransactionMeta res" where
  "Meta_GetByHash p cm d txHash =
     (case p_Get p d (tx_meta_key txHash) of Inl e \<Rightarrow> Inl e | Inr bs \<Rightarrow> dcd cm (case bs of None \<Rightarrow> '''' | Some s \<Rightarrow> s))"

fun collect_metas :: "TransactionMeta Codec \<Rightarrow> (string \<times> string) list \<Rightarrow> string list \<Rightarrow> (string \<times> TransactionMeta) list \<Rightarrow> (string \<times> TransactionMeta) list" where
  "collect_metas cm dataMap [] txMetas = txMetas"
| "collect_metas cm dataMap (txHash # txHashes) txMetas =
     (case map_of dataMap (tx_meta_key txHash) of
        None \<Rightarrow> collect_metas cm dataMap txHashes txMetas
      | Some bs \<Rightarrow> (case dcd cm bs of
          Inl e \<Rightarrow> collect_metas cm dataMap txHashes txMetas
        | Inr m \<Rightarrow> collect_metas cm dataMap txHashes (AList.update txHash m txMetas)))"

definition Meta_GetBatch :: "'db DatabaseProvider \<Rightarrow> TransactionMeta Codec \<Rightarrow> 'db \<Rightarrow> string list \<Rightarrow> (string \<times> TransactionMeta) list res" where
  "Meta_GetBatch p cm d txHashes =
     (if txHashes = [] then Inr []
      else case p_GetBatch p d (map tx_meta_key txHashes) of Inl e \<Rightarrow> Inl e | Inr dataMap \<Rightarrow> Inr (collect_metas cm dataMap txHashes []))"

section \<open>What the stores read\<close>

text \<open>The accounts, transactions, metadata and latest versions a database holds.\<close>

definition view :: "'a Codec \<Rightarrow> string option \<Rightarrow> 'a option" where
  "view c bs = (case bs of None \<Rightarrow> None | Some s \<Rightarrow> (case dcd c s of Inl e \<Rightarrow> None | Inr x \<Rightarrow> Some x))"

definition account_view :: "Account Codec \<Rightarrow> (string \<rightharpoonup> string) \<Rightarrow> string \<rightharpoonup> Account" where
  "account_view ca m addr = view ca (m (account_key addr))"

definition tx_view :: "Transaction option Codec \<Rightarrow> (string \<rightharpoonup> string) \<Rightarrow> string \<rightharpoonup> Transaction" where
  "tx_view ct m h = (case m (tx_key h) of None \<Rightarrow> None | Some s \<Rightarrow> (case decode_tx ct s of Inl e \<Rightarrow> None | Inr tx \<Rightarrow> Some tx))"

definition meta_view :: "TransactionMeta Codec \<Rightarrow> (string \<rightharpoonup> string) \<Rightarrow> string \<rightharpoonup> TransactionMeta" where
  "meta_view cm m h = view cm (m (tx_meta_key h))"

definition content_view :: "(string \<rightharpoonup> string) \<Rightarrow> string \<rightharpoonup> string" where
  "content_view m root = map_option hexEncode (m (content_key root))"

lemma view_cong:
  "(\<And>a. m (account_key a) = m' (account_key a)) \<Longrightarrow> account_view ca m = account_view ca m'"
  "(\<And>h. m (tx_meta_key h) = m' (tx_meta_key h)) \<Longrightarrow> meta_view cm m = meta_view cm m'"
  "(\<And>r. m (content_key r) = m' (content_key r)) \<Longrightarrow> content_view m = content_view m'"
  by (auto simp: account_view_def meta_view_def content_view_def)

lemma view_encoded: "codec_ok c \<Longrightarrow> enc c x = Inr s \<Longrightarrow> view c (Some s) = Some x"
  by (simp add: view_def codec_ok_def)

lemma keyToAddr_lookup:
  "map_of (fold (\<lambda>a. AList.update (account_key a) a) addrs m) k =
     (if k \<in> account_key ` set addrs then Some (drop 8 k) else map_of m k)"
proof (induction addrs arbitrary: m)
  case (Cons a addrs)
  have "drop 8 (account_key a) = a" by (simp add: key_defs)
  then show ?case using Cons by (auto simp: update_conv')
qed simp

lemma collect_accounts_result:
  assumes "distinct (map fst dataMap)" "distinct (map fst accounts)"
    and "\<And>k v. (k, v) \<in> set dataMap \<Longrightarrow> \<exists>a. k = account_key a \<and> map_of keyToAddr k = Some a"
  shows "distinct (map fst (collect_accounts ca keyToAddr dataMap accounts)) \<and>
    map_of (collect_accounts ca keyToAddr dataMap accounts) =
      map_of accounts ++ (\<lambda>addr. view ca (map_of dataMap (account_key addr)))"
  using assms
proof (induction dataMap arbitrary: accounts)
  case Nil
  then show ?case by (simp add: view_def map_add_def)
next
  case (Cons e dataMap)
  obtain a bs where e: "e = (account_key a, bs)" "map_of keyToAddr (account_key a) = Some a"
    using Cons.prems(3) [of "fst e" "snd e"] by (cases e) auto
  have fresh: "map_of dataMap (account_key a) = None"
    using Cons.prems(1) e by (simp add: map_of_eq_None_iff)
  have keys: "\<And>k v. (k, v) \<in> set dataMap \<Longrightarrow> \<exists>a. k = account_key a \<and> map_of keyToAddr k = Some a"
    using Cons.prems(3) by (meson list.set_intros(2))
  have rest: "distinct (map fst dataMap)" using Cons.prems(1) by simp
  show ?case
  proof (cases "dcd ca bs")
    case (Inl err)
    have "view ca (map_of (e # dataMap) (account_key addr)) = view ca (map_of dataMap (account_key addr))" for addr
      using e Inl fresh by (simp add: view_def)
    then show ?thesis using Cons.IH [OF rest Cons.prems(2) keys] e Inl by simp
  next
    case (Inr acc)
    have "map_of accounts ++ (\<lambda>addr. view ca (map_of (e # dataMap) (account_key addr))) =
        (map_of accounts)(a \<mapsto> acc) ++ (\<lambda>addr. view ca (map_of dataMap (account_key addr)))"
      using e Inr fresh by (auto simp: view_def map_add_def split: option.splits)
    then show ?thesis
      using Cons.IH [of "AList.update a acc accounts", OF rest distinct_update [OF Cons.prems(2)] keys] e Inr
      by (simp add: update_conv' fun_upd_def)
  qed
qed

lemma collect_txs_eq: "collect_txs ct dataMap hs = List.map_filter (\<lambda>h. tx_view ct (map_of dataMap) h) hs"
  by (induction hs) (auto simp: tx_view_def List.map_filter_simps split: option.splits sum.splits)

lemma collect_contents_result:
  assumes "distinct (map fst result)"
  shows "distinct (map fst (collect_contents dataMap roots result)) \<and>
    map_of (collect_contents dataMap roots result) = map_of result ++ (content_view (map_of dataMap) |` set roots)"
  using assms
proof (induction roots arbitrary: result)
  case (Cons r roots)
  show ?case
  proof (cases "map_of dataMap (content_key r)")
    case None
    then have "content_view (map_of dataMap) r = None" by (simp add: content_view_def)
    then show ?thesis using Cons.IH [of result] Cons.prems None by (simp add: restrict_insert_missing)
  next
    case (Some bs)
    then have "content_view (map_of dataMap) r = Some (hexEncode bs)" by (simp add: content_view_def)
    then show ?thesis
      using Cons.IH [of "AList.update r (hexEncode bs) result"] Cons.prems Some
        restrict_insert_found [of "content_view (map_of dataMap)" r "hexEncode bs" "map_of result" "set roots"]
      by (simp add: distinct_update update_conv' fun_upd_def)
  qed
qed simp

context database_provider
begin

lemma GetByAddr_sound: "GetByAddr p ca d addr = Inr r \<Longrightarrow> r = account_view ca (contents d) addr"
  using Get_sound [of d "account_key addr"]
  by (auto simp: GetByAddr_def account_view_def view_def split: sum.splits option.splits)

lemma Account_GetBatch_sound:
  assumes "Account_GetBatch p ca d addrs = Inr accs"
  shows "distinct (map fst accs) \<and> map_of accs = account_view ca (contents d) |` set addrs"
proof (cases "addrs = []")
  case True
  then show ?thesis using assms by (simp add: Account_GetBatch_def)
next
  case False
  let ?kta = "fold (\<lambda>addr. AList.update (account_key addr) addr) addrs []"
  obtain dm where dm: "p_GetBatch p d (map account_key addrs) = Inr dm" "accs = collect_accounts ca ?kta dm []"
    using assms False by (auto simp: Account_GetBatch_def Let_def split: sum.splits)
  note g = GetBatch_sound [OF dm(1)]
  have "\<exists>a. k = account_key a \<and> map_of ?kta k = Some a" if "(k, v) \<in> set dm" for k v
  proof -
    have "map_of dm k = Some v" using that conjunct1 [OF g] by (simp add: map_of_is_SomeI)
    then have "k \<in> account_key ` set addrs" using g by (auto simp: restrict_map_def split: if_splits)
    then show ?thesis by (auto simp: keyToAddr_lookup) (simp add: key_defs)
  qed
  from collect_accounts_result [OF conjunct1 [OF g], of "[]" ?kta ca, OF _ this]
  have "distinct (map fst accs)" "map_of accs = (\<lambda>addr. view ca (map_of dm (account_key addr)))"
    using dm(2) by simp_all
  moreover have "(\<lambda>addr. view ca (map_of dm (account_key addr))) = account_view ca (contents d) |` set addrs"
    using g by (auto simp: restrict_map_def account_view_def view_def image_iff)
  ultimately show ?thesis by simp
qed

lemma Tx_GetBatch_sound:
  assumes "Tx_GetBatch p ct d hs = Inr txs"
  shows "txs = List.map_filter (tx_view ct (contents d)) hs"
proof (cases "hs = []")
  case True
  then show ?thesis using assms by (simp add: Tx_GetBatch_def List.map_filter_simps)
next
  case False
  then obtain dm where dm: "p_GetBatch p d (map tx_key hs) = Inr dm" "txs = collect_txs ct dm hs"
    using assms by (auto simp: Tx_GetBatch_def split: sum.splits)
  have "tx_view ct (map_of dm) h = tx_view ct (contents d) h" if "h \<in> set hs" for h
    using GetBatch_sound [OF dm(1)] that by (simp add: tx_view_def restrict_map_def)
  then show ?thesis unfolding dm(2) collect_txs_eq by (auto simp: List.map_filter_def cong: map_cong filter_cong)
qed

lemma contents_batch_sound:
  assumes "GetBatchLatestVersionContentHash p d roots = Inr m"
  shows "distinct (map fst m) \<and> map_of m = content_view (contents d) |` set roots"
proof (cases "roots = []")
  case True
  then show ?thesis using assms by (simp add: GetBatchLatestVersionContentHash_def)
next
  case False
  then obtain dm where dm: "p_GetBatch p d (map content_key roots) = Inr dm" "m = collect_contents dm roots []"
    using assms by (auto simp: GetBatchLatestVersionContentHash_def split: sum.splits)
  have "content_view (map_of dm) |` set roots = content_view (contents d) |` set roots"
    using GetBatch_sound [OF dm(1)] by (auto simp: restrict_map_def content_view_def)
  then show ?thesis using dm(2) collect_contents_result [of "[]" dm roots] by simp
qed

end

section \<open>What a batch of puts stores\<close>

lemma mapE_Inr: "mapE f xs = Inr ys \<Longrightarrow> list_all2 (\<lambda>x y. f x = Inr y) xs ys"
  by (induction xs arbitrary: ys) (auto split: sum.splits)

lemma puts_keys:
  assumes "mapE f xs = Inr ops" "\<And>x op. f x = Inr op \<Longrightarrow> op_key op = kf x"
  shows "op_key ` set ops = kf ` set xs"
proof -
  have "list_all2 (\<lambda>x y. f x = Inr y) xs ops" using assms(1) by (rule mapE_Inr)
  then show ?thesis using assms(2) by (induction rule: list_all2_induct) auto
qed

text \<open>
  When keys determine the values, what is put under a key can be read under it after the batch,
  whether an element contributes one operation or several.
\<close>

lemma put_lists_lookup:
  assumes "list_all2 P xs opss"
    and "\<And>x ops. P x ops \<Longrightarrow> \<exists>s. E x = Inr s \<and> (\<forall>m. apply_batch ops m (kf x) = Some s)"
    and "\<And>x y ops. P y ops \<Longrightarrow> kf x \<in> op_key ` set ops \<Longrightarrow> kf x = kf y"
    and "inj_on kf (set xs)" "x \<in> set xs"
  shows "\<exists>s. E x = Inr s \<and> apply_batch (concat opss) m (kf x) = Some s"
  using assms(1,4,5)
proof (induction arbitrary: m rule: list_all2_induct)
  case (Cons y ys ops opss)
  show ?case
  proof (cases "x \<in> set ys")
    case True
    then show ?thesis using Cons.IH [of "apply_batch ops m"] Cons.prems(1) by (simp add: inj_on_def)
  next
    case False
    then have x: "x = y" using Cons.prems(2) by simp
    have "kf x \<notin> op_key ` set (concat opss)"
    proof
      assume "kf x \<in> op_key ` set (concat opss)"
      then obtain ops' where o: "ops' \<in> set opss" "kf x \<in> op_key ` set ops'" by auto
      then obtain i where "i < length opss" "ops' = opss ! i" by (auto simp: in_set_conv_nth)
      then have "ys ! i \<in> set ys" "P (ys ! i) ops'"
        using Cons.hyps(2) by (simp_all add: list_all2_conv_all_nth)
      then show False using assms(3) o(2) False Cons.prems by (auto simp: inj_on_def)
    qed
    then have "apply_batch (concat opss) (apply_batch ops m) (kf x) = apply_batch ops m (kf x)" by (rule apply_batch_other)
    then show ?thesis using assms(2) [OF Cons.hyps(1)] x by auto
  qed
qed simp

lemma puts_lookup:
  assumes "mapE f xs = Inr ops" "\<And>x op. f x = Inr op \<Longrightarrow> \<exists>s. op = BPut (kf x) s \<and> E x = Inr s"
    and "inj_on kf (set xs)" "x \<in> set xs"
  shows "\<exists>s. E x = Inr s \<and> apply_batch ops m (kf x) = Some s"
proof -
  let ?P = "\<lambda>x ops. \<exists>op. ops = [op] \<and> f x = Inr op"
  have "list_all2 ?P xs (map (\<lambda>op. [op]) ops)"
    using mapE_Inr [OF assms(1)] by (simp add: list_all2_map2)
  from put_lists_lookup [OF this, of E kf x m] show ?thesis
    using assms(2-4) by (fastforce dest!: assms(2))
qed

text \<open>So puts of the entries of a Go map give a map update on what a store reads.\<close>

lemma puts_view:
  assumes "mapE f (map snd kxs) = Inr ops" "\<And>x op. f x = Inr op \<Longrightarrow> \<exists>s. op = BPut (key (nm x)) s \<and> enc c x = Inr s"
    and "codec_ok c" "inj key" "distinct (map fst kxs)" "\<forall>(k, x) \<in> set kxs. nm x = k"
  shows "(\<lambda>k. view c (apply_batch ops m (key k))) = (\<lambda>k. view c (m (key k))) ++ map_of kxs"
proof
  fix k
  show "view c (apply_batch ops m (key k)) = ((\<lambda>k. view c (m (key k))) ++ map_of kxs) k"
  proof (cases "map_of kxs k")
    case None
    have "op_key ` set ops = (\<lambda>x. key (nm x)) ` set (map snd kxs)"
      using assms(1) by (rule puts_keys) (auto dest!: assms(2))
    then have "key k \<notin> op_key ` set ops"
      using None assms(4,6) by (auto simp: inj_def map_of_eq_None_iff image_iff split: prod.splits)
    then show ?thesis using None by (simp add: apply_batch_other map_add_def)
  next
    case (Some x)
    then have kx: "(k, x) \<in> set kxs" by (rule map_of_SomeD)
    have "inj_on (\<lambda>x. key (nm x)) (set (map snd kxs))"
    proof (rule inj_onI)
      fix y z
      assume yz: "y \<in> set (map snd kxs)" "z \<in> set (map snd kxs)" "key (nm y) = key (nm z)"
      then obtain i j where "(i, y) \<in> set kxs" "(j, z) \<in> set kxs" by auto
      moreover from this have "i = nm y" "j = nm z" using assms(6) by auto
      moreover have "nm y = nm z" using yz(3) assms(4) by (simp add: inj_eq)
      ultimately show "y = z" using assms(5) by (metis eq_key_imp_eq_value)
    qed
    moreover have "x \<in> set (map snd kxs)" using kx by force
    ultimately obtain s where "enc c x = Inr s" "apply_batch ops m (key (nm x)) = Some s"
      using puts_lookup [of f "map snd kxs" ops "\<lambda>x. key (nm x)" "enc c" x m] assms(1,2) by blast
    then show ?thesis using kx assms(3,6) Some by (auto simp: view_encoded)
  qed
qed

lemma account_ops_view:
  assumes "mapE (account_put ca) (map snd accs) = Inr ops" "codec_ok ca" "distinct (map fst accs)"
    and "\<forall>(a, acc) \<in> set accs. acc_Address acc = a"
  shows "account_view ca (apply_batch ops m) = account_view ca m ++ map_of accs"
  unfolding account_view_def
  by (rule puts_view [OF assms(1) _ assms(2) _ assms(3,4)]) (auto simp: account_put_def inj_def split: sum.splits)

lemma meta_ops_view:
  assumes "mapE (meta_put cm) (map snd metas) = Inr ops" "codec_ok cm" "distinct (map fst metas)"
    and "\<forall>(h, md) \<in> set metas. meta_TxHash md = h"
  shows "meta_view cm (apply_batch ops m) = meta_view cm m ++ map_of metas"
  unfolding meta_view_def
  by (rule puts_view [OF assms(1) _ assms(2) _ assms(3,4)]) (auto simp: meta_put_def inj_def split: sum.splits)

end
