(* ===== verification/Block_Stores.thy ===== *)
theory Block_Stores
  imports Stores
begin

text \<open>
  The block store of \<open>store/blockstore.go\<close>: pending and finalized blocks, the two slot counters it keeps in
  memory and in the database, and the events it publishes. A map of Go is an association list in the
  order a loop visits it. An operation is one step: the locks are per slot, so this is exact for callers
  that work on one slot at a time. The map of slot locks is kept as the list of its keys. Metrics are left out.
\<close>

datatype TxEvent =
    TransactionIncludedInBlock string u64 string
  | TransactionFinalized string u64 string
  | TransactionFailed string string

record 'db BlockStore =
  bs_db :: 'db
  bs_latestFinalized :: u64
  bs_latestStore :: u64
  bs_slotLocks :: "u64 list"
  bs_events :: "TxEvent list"

text \<open>The codecs of the stored types and the hash of a transaction.\<close>

record Codecs =
  c_acc :: "Account Codec"
  c_tx :: "Transaction option Codec"
  c_meta :: "TransactionMeta Codec"
  c_blk :: "Block Codec"
  c_hash :: "Transaction option \<Rightarrow> string"

section \<open>Reading\<close>

definition loadLatestFinalized :: "'db DatabaseProvider \<Rightarrow> 'db BlockStore \<Rightarrow> string option \<times> 'db BlockStore" where
  "loadLatestFinalized p s =
     (case p_Get p (bs_db s) latest_finalized_key of
        Inl e \<Rightarrow> (Some e, s)
      | Inr None \<Rightarrow> (None, s\<lparr>bs_latestFinalized := 0\<rparr>)
      | Inr (Some v) \<Rightarrow>
          (if length v \<noteq> 8 then (Some ''invalid latest finalized value length'', s)
           else let s1 = s\<lparr>bs_latestFinalized := from_be64 v\<rparr> in
             case p_Get p (bs_db s1) latest_store_key of
               Inl e \<Rightarrow> (Some e, s1)
             | Inr None \<Rightarrow> (None, s1\<lparr>bs_latestStore := 0\<rparr>)
             | Inr (Some w) \<Rightarrow>
                 (if length w \<noteq> 8 then (Some ''invalid latest store value length'', s1)
                  else (None, s1\<lparr>bs_latestStore := from_be64 w\<rparr>))))"

definition NewGenericBlockStore :: "'db DatabaseProvider \<Rightarrow> 'db \<Rightarrow> 'db BlockStore res" where
  "NewGenericBlockStore p d =
     (case loadLatestFinalized p \<lparr>bs_db = d, bs_latestFinalized = 0, bs_latestStore = 0, bs_slotLocks = [], bs_events = []\<rparr> of
        (Some e, _) \<Rightarrow> Inl e
      | (None, s) \<Rightarrow> Inr s)"

definition getSlotLock :: "u64 \<Rightarrow> 'db BlockStore \<Rightarrow> 'db BlockStore" where
  "getSlotLock slot s = (if slot \<in> set (bs_slotLocks s) then s else s\<lparr>bs_slotLocks := bs_slotLocks s @ [slot]\<rparr>)"

definition CleanupOldSlotLocks :: "u64 \<Rightarrow> 'db BlockStore \<Rightarrow> 'db BlockStore" where
  "CleanupOldSlotLocks keepRecentSlots s =
     (let currentLatest = bs_latestFinalized s in
      if currentLatest < keepRecentSlots then s
      else let cleanupThreshold = currentLatest - keepRecentSlots;
               slotsToDelete = filter (\<lambda>slotNum. slotNum < cleanupThreshold) (bs_slotLocks s) in
        s\<lparr>bs_slotLocks := filter (\<lambda>slot. slot \<notin> set slotsToDelete) (bs_slotLocks s)\<rparr>)"

definition get_block :: "'db DatabaseProvider \<Rightarrow> Codecs \<Rightarrow> u64 \<Rightarrow> 'db BlockStore \<Rightarrow> Block option" where
  "get_block p c slot s =
     (case p_Get p (bs_db s) (slotToBlockKey slot) of
        Inr (Some bs) \<Rightarrow> (case dcd (c_blk c) bs of Inl e \<Rightarrow> None | Inr blk \<Rightarrow> Some blk)
      | _ \<Rightarrow> None)"

fun collect_blocks :: "Codecs \<Rightarrow> (string \<times> u64) list \<Rightarrow> (string \<times> string) list \<Rightarrow> (u64 \<times> Block) list \<Rightarrow> (u64 \<times> Block) list" where
  "collect_blocks c slotToKey [] blocks = blocks"
| "collect_blocks c slotToKey ((keyStr, bs) # dataMap) blocks =
     (let slot = (case map_of slotToKey keyStr of None \<Rightarrow> 0 | Some x \<Rightarrow> x) in
      case dcd (c_blk c) bs of
        Inl e \<Rightarrow> collect_blocks c slotToKey dataMap blocks
      | Inr blk \<Rightarrow> collect_blocks c slotToKey dataMap (AList.update slot blk blocks))"

definition Blocks_GetBatch :: "'db DatabaseProvider \<Rightarrow> Codecs \<Rightarrow> u64 list \<Rightarrow> 'db BlockStore \<Rightarrow> (u64 \<times> Block) list res" where
  "Blocks_GetBatch p c slots s =
     (if slots = [] then Inr []
      else let keys = map slotToBlockKey slots;
               slotToKey = fold (\<lambda>slot. AList.update (slotToBlockKey slot) slot) slots [] in
        case p_GetBatch p (bs_db s) keys of Inl e \<Rightarrow> Inl e | Inr dataMap \<Rightarrow> Inr (collect_blocks c slotToKey dataMap []))"

definition HasCompleteBlock :: "'db DatabaseProvider \<Rightarrow> u64 \<Rightarrow> 'db BlockStore \<Rightarrow> bool" where
  "HasCompleteBlock p slot s = (case p_Has p (bs_db s) (slotToBlockKey slot) of Inl e \<Rightarrow> False | Inr exists \<Rightarrow> exists)"

definition LastEntryInfoAtSlot :: "'db DatabaseProvider \<Rightarrow> Codecs \<Rightarrow> u64 \<Rightarrow> 'db BlockStore \<Rightarrow> (u64 \<times> string) option" where
  "LastEntryInfoAtSlot p c slot s =
     (case get_block p c slot s of None \<Rightarrow> None | Some blk \<Rightarrow> Some (slot, Block_LastEntryHash blk))"

definition IsApplied :: "'db DatabaseProvider \<Rightarrow> u64 \<Rightarrow> 'db BlockStore \<Rightarrow> bool" where
  "IsApplied p slot s = (case p_Has p (bs_db s) (slotToFinalizedKey slot) of Inl e \<Rightarrow> False | Inr exists \<Rightarrow> exists)"

definition GetConfirmations :: "u64 \<Rightarrow> 'db BlockStore \<Rightarrow> u64" where
  "GetConfirmations blockSlot s =
     (let latest = bs_latestFinalized s in if latest \<ge> blockSlot then latest - blockSlot + 1 else 1)"

section \<open>Adding a pending block\<close>

text \<open>The transactions of the entries that are not ticks, in order.\<close>

definition entry_txs :: "Entry list \<Rightarrow> Transaction option list" where
  "entry_txs es = concat (map e_Transactions (filter (\<lambda>e. \<not> e_Tick e) es))"

text \<open>What is stored for a transaction of a pending block: the transaction and its metadata.\<close>

definition pending_tx_ops :: "Codecs \<Rightarrow> BroadcastedBlock \<Rightarrow> Transaction option \<Rightarrow> batch res" where
  "pending_tx_ops c b tx =
     (case tx_put (c_hash c) (c_tx c) tx of
        Inl e \<Rightarrow> Inl e
      | Inr op \<Rightarrow>
          (let txMeta = NewTxMeta (c_hash c) tx (b_Slot b) (HashString hexEncode b) TxStatusProcessed '''' in
           case enc (c_meta c) txMeta of
             Inl e \<Rightarrow> Inl e
           | Inr bs \<Rightarrow> Inr [op, BPut (tx_meta_key (c_hash c tx)) bs]))"

datatype store_error =
    NilBlock
  | ProviderError string
  | BlockExists u64
  | BlockMissing u64
  | MarshalError string
  | WriteError string
  | UndecodableHash string

definition AddBlockPending :: "'db DatabaseProvider \<Rightarrow> Codecs \<Rightarrow> bool \<Rightarrow> BroadcastedBlock option \<Rightarrow> 'db BlockStore \<Rightarrow> store_error option \<times> 'db BlockStore" where
  "AddBlockPending p c router bo s =
     (case bo of None \<Rightarrow> (Some NilBlock, s) | Some b \<Rightarrow>
       let slot = b_Slot b; s0 = getSlotLock slot s; key = slotToBlockKey slot in
       case p_Has p (bs_db s0) key of
         Inl e \<Rightarrow> (Some (ProviderError e), s0)
       | Inr exists \<Rightarrow>
           if exists then (Some (BlockExists slot), s0)
           else (case enc (c_blk c) (BroadcastedBlockToBlock (c_hash c) b) of
             Inl e \<Rightarrow> (Some (MarshalError e), s0)
           | Inr v \<Rightarrow>
               let s1 = (if slot > bs_latestStore s0 then s0\<lparr>bs_latestStore := slot\<rparr> else s0);
                   metaOps = (if slot > bs_latestStore s0 then [BPut latest_store_key (be64 slot)] else []) in
               (case mapE (pending_tx_ops c b) (entry_txs (bb_Entries b)) of
                  Inl e \<Rightarrow> (Some (MarshalError e), s1)
                | Inr txOps \<Rightarrow>
                    (case p_Write p (BPut key v # metaOps @ concat txOps) (bs_db s1) of
                       (Some e, d) \<Rightarrow> (Some (WriteError e), s1\<lparr>bs_db := d\<rparr>)
                     | (None, d) \<Rightarrow>
                         (None, s1\<lparr>bs_db := d,
                            bs_events := bs_events s1 @ (if router then
                              map (\<lambda>tx. TransactionIncludedInBlock (c_hash c tx) slot (HashString hexEncode b)) (entry_txs (bb_Entries b))
                              else [])\<rparr>)))))"

section \<open>Finalizing a block\<close>

definition content_put :: "string \<times> string \<Rightarrow> store_error + BatchOp" where
  "content_put = (\<lambda>(rootHash, txHash). case hexDecode txHash of None \<Rightarrow> Inl (UndecodableHash txHash) | Some bs \<Rightarrow> Inr (BPut (content_key rootHash) bs))"

definition finalize_ops :: "Codecs \<Rightarrow> Block \<Rightarrow> (string \<times> TransactionMeta) list \<Rightarrow> (string \<times> Account) list \<Rightarrow> (string \<times> string) list \<Rightarrow> store_error + batch" where
  "finalize_ops c blk txMetas addrAccount latest =
     (case enc (c_blk c) (blk\<lparr>b_Status := BlockFinalized\<rparr>) of Inl e \<Rightarrow> Inl (MarshalError e) | Inr blkValue \<Rightarrow>
      case mapE (meta_put (c_meta c)) (map snd txMetas) of Inl e \<Rightarrow> Inl (MarshalError e) | Inr metaOps \<Rightarrow>
      case mapE (account_put (c_acc c)) (map snd addrAccount) of Inl e \<Rightarrow> Inl (MarshalError e) | Inr accOps \<Rightarrow>
      case mapE content_put latest of Inl e \<Rightarrow> Inl e | Inr contentOps \<Rightarrow>
      Inr (BPut (slotToBlockKey (b_Slot blk)) blkValue # metaOps @ accOps @ contentOps @ [BPut (slotToFinalizedKey (b_Slot blk)) [CHR 0x01]]))"

definition FinalizeBlock :: "'db DatabaseProvider \<Rightarrow> Codecs \<Rightarrow> Block \<Rightarrow> (string \<times> TransactionMeta) list \<Rightarrow> (string \<times> Account) list \<Rightarrow> (string \<times> string) list \<Rightarrow> 'db BlockStore \<Rightarrow> store_error option \<times> 'db BlockStore" where
  "FinalizeBlock p c blk txMetas addrAccount latest s =
     (let slot = b_Slot blk in
      if \<not> HasCompleteBlock p slot s then (Some (BlockMissing slot), s)
      else let s0 = getSlotLock slot s in
        case finalize_ops c blk txMetas addrAccount latest of
          Inl e \<Rightarrow> (Some e, s0)
        | Inr ops \<Rightarrow>
            (case p_Write p (ops @ (if slot > bs_latestFinalized s0 then [BPut latest_finalized_key (be64 slot)] else [])) (bs_db s0) of
               (Some e, d) \<Rightarrow> (Some (WriteError e), s0\<lparr>bs_db := d\<rparr>)
             | (None, d) \<Rightarrow> (None, s0\<lparr>bs_db := d, bs_latestFinalized := slot\<rparr>)))"

section \<open>What the operations do\<close>

definition block_view :: "Codecs \<Rightarrow> (string \<rightharpoonup> string) \<Rightarrow> u64 \<rightharpoonup> Block" where
  "block_view c m slot = view (c_blk c) (m (slotToBlockKey slot))"

definition codecs_ok :: "Codecs \<Rightarrow> bool" where
  "codecs_ok c \<longleftrightarrow> codec_ok (c_acc c) \<and> codec_ok (c_tx c) \<and> codec_ok (c_meta c) \<and> codec_ok (c_blk c)"

text \<open>The part of the state that neither the database nor the counters are.\<close>

lemma getSlotLock_keeps [simp]:
  "bs_db (getSlotLock slot s) = bs_db s" "bs_latestFinalized (getSlotLock slot s) = bs_latestFinalized s"
  "bs_latestStore (getSlotLock slot s) = bs_latestStore s" "bs_events (getSlotLock slot s) = bs_events s"
  by (simp_all add: getSlotLock_def)

lemma pending_tx_ops_Inr:
  assumes "pending_tx_ops c b tx = Inr ops"
  shows "\<exists>u v. ops = [BPut (tx_key (c_hash c tx)) u, BPut (tx_meta_key (c_hash c tx)) v] \<and> enc (c_tx c) tx = Inr u \<and>
    enc (c_meta c) (NewTxMeta (c_hash c) tx (b_Slot b) (HashString hexEncode b) TxStatusProcessed '''') = Inr v"
  using assms by (auto simp: pending_tx_ops_def tx_put_def Let_def split: sum.splits)

lemma pending_lookup:
  assumes "mapE (pending_tx_ops c b) txs = Inr opss" "inj_on (c_hash c) (set txs)" "tx \<in> set txs"
  shows "\<exists>u. enc (c_tx c) tx = Inr u \<and> apply_batch (concat opss) m (tx_key (c_hash c tx)) = Some u"
    and "\<exists>u. enc (c_meta c) (NewTxMeta (c_hash c) tx (b_Slot b) (HashString hexEncode b) TxStatusProcessed '''') = Inr u \<and>
      apply_batch (concat opss) m (tx_meta_key (c_hash c tx)) = Some u"
proof -
  note l = mapE_Inr [OF assms(1)]
  show "\<exists>u. enc (c_tx c) tx = Inr u \<and> apply_batch (concat opss) m (tx_key (c_hash c tx)) = Some u"
    by (rule put_lists_lookup [OF l, where kf = "\<lambda>tx. tx_key (c_hash c tx)"])
      (use assms(2,3) in \<open>auto dest!: pending_tx_ops_Inr simp: inj_on_def\<close>)
  show "\<exists>u. enc (c_meta c) (NewTxMeta (c_hash c) tx (b_Slot b) (HashString hexEncode b) TxStatusProcessed '''') = Inr u \<and>
      apply_batch (concat opss) m (tx_meta_key (c_hash c tx)) = Some u"
    by (rule put_lists_lookup [OF l, where kf = "\<lambda>tx. tx_meta_key (c_hash c tx)" and
          E = "\<lambda>tx. enc (c_meta c) (NewTxMeta (c_hash c) tx (b_Slot b) (HashString hexEncode b) TxStatusProcessed '''')"])
      (use assms(2,3) in \<open>auto dest!: pending_tx_ops_Inr simp: inj_on_def\<close>)
qed

lemma pending_other:
  assumes "mapE (pending_tx_ops c b) txs = Inr opss" "k \<notin> range tx_key" "k \<notin> range tx_meta_key"
  shows "apply_batch (concat opss) m k = m k"
proof (rule apply_batch_other)
  have "list_all2 (\<lambda>x y. pending_tx_ops c b x = Inr y) txs opss" using assms(1) by (rule mapE_Inr)
  then show "k \<notin> op_key ` set (concat opss)"
    using assms(2,3) by (induction rule: list_all2_induct) (auto dest!: pending_tx_ops_Inr)
qed

context database_provider
begin

lemma AddBlockPending_error:
  assumes "AddBlockPending p c r bo s = (Some e, s')"
  shows "contents (bs_db s') = contents (bs_db s) \<and> bs_events s' = bs_events s \<and> bs_latestFinalized s' = bs_latestFinalized s"
  using assms
  by (auto simp: AddBlockPending_def Let_def split: option.splits sum.splits if_splits prod.splits dest!: Write_contents)

lemma AddBlockPending_done:
  assumes "AddBlockPending p c r (Some b) s = (None, s')"
  shows "\<exists>v opss. contents (bs_db s) (slotToBlockKey (b_Slot b)) = None \<and> enc (c_blk c) (BroadcastedBlockToBlock (c_hash c) b) = Inr v \<and>
    mapE (pending_tx_ops c b) (entry_txs (bb_Entries b)) = Inr opss \<and>
    contents (bs_db s') = apply_batch (concat opss)
      (if bs_latestStore s < b_Slot b then ((contents (bs_db s))(slotToBlockKey (b_Slot b) \<mapsto> v))(latest_store_key \<mapsto> be64 (b_Slot b))
       else (contents (bs_db s))(slotToBlockKey (b_Slot b) \<mapsto> v)) \<and>
    bs_latestStore s' = max (bs_latestStore s) (b_Slot b) \<and> bs_latestFinalized s' = bs_latestFinalized s \<and>
    bs_events s' = bs_events s @ (if r then map (\<lambda>tx. TransactionIncludedInBlock (c_hash c tx) (b_Slot b) (HashString hexEncode b)) (entry_txs (bb_Entries b)) else [])"
  using assms
  by (auto simp: AddBlockPending_def Let_def max_def split: sum.splits if_splits prod.splits option.splits
      dest!: Write_contents Has_sound)

lemma FinalizeBlock_error:
  assumes "FinalizeBlock p c blk metas accs latest s = (Some e, s')"
  shows "contents (bs_db s') = contents (bs_db s) \<and> bs_events s' = bs_events s \<and>
    bs_latestFinalized s' = bs_latestFinalized s \<and> bs_latestStore s' = bs_latestStore s"
  using assms
  by (auto simp: FinalizeBlock_def Let_def split: sum.splits if_splits prod.splits dest!: Write_contents)

lemma FinalizeBlock_done:
  assumes "FinalizeBlock p c blk metas accs latest s = (None, s')"
  shows "\<exists>ops. finalize_ops c blk metas accs latest = Inr ops \<and> contents (bs_db s) (slotToBlockKey (b_Slot blk)) \<noteq> None \<and>
    contents (bs_db s') = (if bs_latestFinalized s < b_Slot blk
      then (apply_batch ops (contents (bs_db s)))(latest_finalized_key \<mapsto> be64 (b_Slot blk)) else apply_batch ops (contents (bs_db s))) \<and>
    bs_latestFinalized s' = b_Slot blk \<and> bs_latestStore s' = bs_latestStore s \<and> bs_events s' = bs_events s"
  using assms
  by (auto simp: FinalizeBlock_def HasCompleteBlock_def Let_def split: sum.splits if_splits prod.splits
      dest!: Write_contents Has_sound)

end

section \<open>Properties\<close>

text \<open>A codec given by a table of values, for concrete stores.\<close>

definition table_codec :: "'a list \<Rightarrow> 'a Codec" where
  "table_codec xs = \<lparr>enc = (\<lambda>x. if x \<in> set xs then Inr (replicate (length (takeWhile (\<lambda>y. y \<noteq> x) xs)) CHR ''v'') else Inl ''unsupported''),
     dcd = (\<lambda>s. if length s < length xs then Inr (xs ! length s) else Inl ''invalid'')\<rparr>"

lemma codec_ok_table: "codec_ok (table_codec xs)"
proof -
  have "length (takeWhile (\<lambda>y. y \<noteq> x) xs) < length xs \<and> xs ! length (takeWhile (\<lambda>y. y \<noteq> x) xs) = x" if "x \<in> set xs" for x
    using that by (induction xs) auto
  then show ?thesis by (auto simp: codec_ok_def table_codec_def split: if_splits)
qed

lemma mem_provider: "database_provider (LevelDBProvider mem_level) mem_contents"
  by unfold_locales

text \<open>
  C16: When AddBlockPending reports success, the block can be read under its slot, every one of its
  transactions can be read under its hash with metadata that says it was processed in this block, and
  nothing else is changed: the blocks of other slots, the accounts, the latest versions of user content
  and the finalized markers are those from before. The store counter is the largest slot so far.
  Transactions of the block that share a hash are equal.
\<close>

theorem AddBlockPending_stores:
  assumes "database_provider p contents" "codecs_ok c" "AddBlockPending p c r (Some b) s = (None, s')"
    and "inj_on (c_hash c) (set (entry_txs (bb_Entries b)))"
  shows "block_view c (contents (bs_db s')) = (block_view c (contents (bs_db s)))(b_Slot b \<mapsto> BroadcastedBlockToBlock (c_hash c) b) \<and>
    (\<forall>tx. Some tx \<in> set (entry_txs (bb_Entries b)) \<longrightarrow> tx_view (c_tx c) (contents (bs_db s')) (c_hash c (Some tx)) = Some tx \<and>
      meta_view (c_meta c) (contents (bs_db s')) (c_hash c (Some tx)) =
        Some (NewTxMeta (c_hash c) (Some tx) (b_Slot b) (HashString hexEncode b) TxStatusProcessed '''')) \<and>
    account_view (c_acc c) (contents (bs_db s')) = account_view (c_acc c) (contents (bs_db s)) \<and>
    content_view (contents (bs_db s')) = content_view (contents (bs_db s)) \<and>
    (\<forall>slot. contents (bs_db s') (slotToFinalizedKey slot) = contents (bs_db s) (slotToFinalizedKey slot)) \<and>
    bs_latestStore s' = max (bs_latestStore s) (b_Slot b)"
proof -
  obtain v opss where d: "enc (c_blk c) (BroadcastedBlockToBlock (c_hash c) b) = Inr v"
      "mapE (pending_tx_ops c b) (entry_txs (bb_Entries b)) = Inr opss"
      "contents (bs_db s') = apply_batch (concat opss)
        (if bs_latestStore s < b_Slot b then ((contents (bs_db s))(slotToBlockKey (b_Slot b) \<mapsto> v))(latest_store_key \<mapsto> be64 (b_Slot b))
         else (contents (bs_db s))(slotToBlockKey (b_Slot b) \<mapsto> v))"
      "bs_latestStore s' = max (bs_latestStore s) (b_Slot b)"
    using database_provider.AddBlockPending_done [OF assms(1,3)] by blast
  have other: "contents (bs_db s') (slotToBlockKey slot) = (if slot = b_Slot b then Some v else contents (bs_db s) (slotToBlockKey slot))"
      "contents (bs_db s') (account_key a) = contents (bs_db s) (account_key a)"
      "contents (bs_db s') (content_key h) = contents (bs_db s) (content_key h)"
      "contents (bs_db s') (slotToFinalizedKey slot) = contents (bs_db s) (slotToFinalizedKey slot)" for slot a h
    unfolding d(3) by (subst pending_other [OF d(2)]; auto)+
  have "view (c_blk c) (Some v) = Some (BroadcastedBlockToBlock (c_hash c) b)"
    using assms(2) d(1) by (simp add: codecs_ok_def view_encoded)
  then have "block_view c (contents (bs_db s')) = (block_view c (contents (bs_db s)))(b_Slot b \<mapsto> BroadcastedBlockToBlock (c_hash c) b)"
    by (auto simp: block_view_def other)
  moreover have "tx_view (c_tx c) (contents (bs_db s')) (c_hash c (Some tx)) = Some tx \<and>
      meta_view (c_meta c) (contents (bs_db s')) (c_hash c (Some tx)) =
        Some (NewTxMeta (c_hash c) (Some tx) (b_Slot b) (HashString hexEncode b) TxStatusProcessed '''')"
    if mem: "Some tx \<in> set (entry_txs (bb_Entries b))" for tx
  proof -
    obtain u w where "enc (c_tx c) (Some tx) = Inr u" "contents (bs_db s') (tx_key (c_hash c (Some tx))) = Some u"
        "enc (c_meta c) (NewTxMeta (c_hash c) (Some tx) (b_Slot b) (HashString hexEncode b) TxStatusProcessed '''') = Inr w"
        "contents (bs_db s') (tx_meta_key (c_hash c (Some tx))) = Some w"
      using pending_lookup [OF d(2) assms(4) mem] unfolding d(3) by blast
    then show ?thesis
      using assms(2) by (simp add: tx_view_def decode_tx_def meta_view_def codecs_ok_def view_encoded) (simp add: codec_ok_def)
  qed
  moreover note view_cong(1) [of "contents (bs_db s')" "contents (bs_db s)", OF other(2)]
    view_cong(3) [of "contents (bs_db s')" "contents (bs_db s)", OF other(3)]
  ultimately show ?thesis using other(4) d(4) by simp
qed

text \<open>
  C17: An operation that reports an error has not touched the database: neither a pending block that was
  refused nor a finalization that failed at any point leaves a trace of itself there, and no event
  was published.
\<close>

theorem failed_operations_leave_database:
  assumes "database_provider p contents"
    and "AddBlockPending p c r bo s = (Some e, s') \<or> FinalizeBlock p c blk metas accs latest s = (Some e, s')"
  shows "contents (bs_db s') = contents (bs_db s) \<and> bs_events s' = bs_events s \<and> bs_latestFinalized s' = bs_latestFinalized s"
  using assms(2) database_provider.AddBlockPending_error [OF assms(1)] database_provider.FinalizeBlock_error [OF assms(1)] by blast

lemma content_ops_view:
  assumes "mapE content_put latest = Inr ops" "distinct (map fst latest)" "\<forall>h \<in> snd ` set latest. \<exists>bs. h = hexEncode bs"
  shows "content_view (apply_batch ops m) = content_view m ++ map_of latest"
proof -
  define c :: "(string \<times> string) Codec" where "c = \<lparr>enc = \<lambda>(r, h). case hexDecode h of None \<Rightarrow> Inl '''' | Some bs \<Rightarrow> Inr bs, dcd = \<lambda>s. Inl ''''\<rparr>"
  have look: "apply_batch ops m (content_key r) = hexDecode h" if "(r, h) \<in> set latest" for r h
  proof -
    have "inj_on (\<lambda>x. content_key (fst x)) (set latest)" using assms(2) by (auto simp: inj_on_def distinct_map)
    then have "\<exists>s. enc c (r, h) = Inr s \<and> apply_batch ops m (content_key (fst (r, h))) = Some s"
      using that by (intro puts_lookup [OF assms(1)]) (auto simp: content_put_def c_def split: option.splits)
    then show ?thesis by (auto simp: c_def split: option.splits)
  qed
  have keys: "op_key ` set ops = (\<lambda>x. content_key (fst x)) ` set latest"
    by (rule puts_keys [OF assms(1)]) (auto simp: content_put_def split: option.splits)
  show ?thesis
  proof
    fix r
    show "content_view (apply_batch ops m) r = (content_view m ++ map_of latest) r"
    proof (cases "map_of latest r")
      case None
      then have "content_key r \<notin> op_key ` set ops" by (auto simp: keys dest: weak_map_of_SomeI)
      then show ?thesis using None by (simp add: content_view_def apply_batch_other map_add_def)
    next
      case (Some h)
      then have rh: "(r, h) \<in> set latest" by (rule map_of_SomeD)
      then obtain bs where "h = hexEncode bs" using assms(3) by force
      then show ?thesis using look [OF rh] Some by (simp add: content_view_def)
    qed
  qed
qed

text \<open>The parts of a finalization batch, and that each touches only keys of its own kind.\<close>

lemma finalize_ops_parts:
  assumes "finalize_ops c blk metas accs latest = Inr ops"
  shows "\<exists>v mo ao co. enc (c_blk c) (blk\<lparr>b_Status := BlockFinalized\<rparr>) = Inr v \<and>
    mapE (meta_put (c_meta c)) (map snd metas) = Inr mo \<and> mapE (account_put (c_acc c)) (map snd accs) = Inr ao \<and>
    mapE content_put latest = Inr co \<and>
    ops = BPut (slotToBlockKey (b_Slot blk)) v # mo @ ao @ co @ [BPut (slotToFinalizedKey (b_Slot blk)) [CHR 0x01]] \<and>
    (\<forall>m k. k \<notin> range tx_meta_key \<longrightarrow> apply_batch mo m k = m k) \<and>
    (\<forall>m k. k \<notin> range account_key \<longrightarrow> apply_batch ao m k = m k) \<and>
    (\<forall>m k. k \<notin> range content_key \<longrightarrow> apply_batch co m k = m k)"
proof -
  obtain v mo ao co where o: "enc (c_blk c) (blk\<lparr>b_Status := BlockFinalized\<rparr>) = Inr v"
      "mapE (meta_put (c_meta c)) (map snd metas) = Inr mo" "mapE (account_put (c_acc c)) (map snd accs) = Inr ao"
      "mapE content_put latest = Inr co"
      "ops = BPut (slotToBlockKey (b_Slot blk)) v # mo @ ao @ co @ [BPut (slotToFinalizedKey (b_Slot blk)) [CHR 0x01]]"
    using assms(1) by (auto simp: finalize_ops_def split: sum.splits)
  have "apply_batch mo m k = m k" if "k \<notin> range tx_meta_key" for m k
    by (rule apply_batch_other, subst puts_keys [OF o(2)]) (use that in \<open>auto simp: meta_put_def split: sum.splits\<close>)
  moreover have "apply_batch ao m k = m k" if "k \<notin> range account_key" for m k
    by (rule apply_batch_other, subst puts_keys [OF o(3)]) (use that in \<open>auto simp: account_put_def split: sum.splits\<close>)
  moreover have "apply_batch co m k = m k" if "k \<notin> range content_key" for m k
    by (rule apply_batch_other, subst puts_keys [OF o(4), where kf = "\<lambda>x. content_key (fst x)"])
      (use that in \<open>auto simp: content_put_def split: option.splits\<close>)
  ultimately show ?thesis using o by blast
qed

lemma finalize_ops_frame:
  assumes "finalize_ops c blk metas accs latest = Inr ops"
  shows "apply_batch ops m (slotToFinalizedKey slot) = (if slot = b_Slot blk then Some [CHR 0x01] else m (slotToFinalizedKey slot))"
    and "apply_batch ops m (tx_key h) = m (tx_key h)"
    and "apply_batch ops m latest_store_key = m latest_store_key"
    and "apply_batch ops m latest_finalized_key = m latest_finalized_key"
  using finalize_ops_parts [OF assms] by auto

lemma finalize_ops_effect:
  assumes "finalize_ops c blk metas accs latest = Inr ops" "codecs_ok c"
    and "distinct (map fst accs)" "\<forall>(a, acc) \<in> set accs. acc_Address acc = a"
    and "distinct (map fst metas)" "\<forall>(h, md) \<in> set metas. meta_TxHash md = h"
    and "distinct (map fst latest)" "\<forall>h \<in> snd ` set latest. \<exists>bs. h = hexEncode bs"
  shows "account_view (c_acc c) (apply_batch ops m) = account_view (c_acc c) m ++ map_of accs"
    and "meta_view (c_meta c) (apply_batch ops m) = meta_view (c_meta c) m ++ map_of metas"
    and "content_view (apply_batch ops m) = content_view m ++ map_of latest"
    and "block_view c (apply_batch ops m) = (block_view c m)(b_Slot blk \<mapsto> blk\<lparr>b_Status := BlockFinalized\<rparr>)"
proof -
  obtain v mo ao co where o: "enc (c_blk c) (blk\<lparr>b_Status := BlockFinalized\<rparr>) = Inr v"
      "mapE (meta_put (c_meta c)) (map snd metas) = Inr mo" "mapE (account_put (c_acc c)) (map snd accs) = Inr ao"
      "mapE content_put latest = Inr co"
      "ops = BPut (slotToBlockKey (b_Slot blk)) v # mo @ ao @ co @ [BPut (slotToFinalizedKey (b_Slot blk)) [CHR 0x01]]"
    and frame: "\<And>m k. k \<notin> range tx_meta_key \<Longrightarrow> apply_batch mo m k = m k" "\<And>m k. k \<notin> range account_key \<Longrightarrow> apply_batch ao m k = m k"
      "\<And>m k. k \<notin> range content_key \<Longrightarrow> apply_batch co m k = m k"
    using finalize_ops_parts [OF assms(1)] by blast
  have ok: "codec_ok (c_acc c)" "codec_ok (c_meta c)" "codec_ok (c_blk c)" using assms(2) by (simp_all add: codecs_ok_def)
  define m1 where "m1 = m(slotToBlockKey (b_Slot blk) \<mapsto> v)"
  have acc: "account_view (c_acc c) (apply_batch ops m) = account_view (c_acc c) (apply_batch ao (apply_batch mo m1))"
      "account_view (c_acc c) (apply_batch mo m1) = account_view (c_acc c) m"
    by (rule view_cong; simp add: o(5) frame m1_def)+
  show "account_view (c_acc c) (apply_batch ops m) = account_view (c_acc c) m ++ map_of accs"
    unfolding acc(1) account_ops_view [OF o(3) ok(1) assms(3,4)] acc(2) ..
  have meta: "meta_view (c_meta c) (apply_batch ops m) = meta_view (c_meta c) (apply_batch mo m1)"
      "meta_view (c_meta c) m1 = meta_view (c_meta c) m"
    by (rule view_cong; simp add: o(5) frame m1_def)+
  show "meta_view (c_meta c) (apply_batch ops m) = meta_view (c_meta c) m ++ map_of metas"
    unfolding meta(1) meta_ops_view [OF o(2) ok(2) assms(5,6)] meta(2) ..
  have con: "content_view (apply_batch ops m) = content_view (apply_batch co (apply_batch ao (apply_batch mo m1)))"
      "content_view (apply_batch ao (apply_batch mo m1)) = content_view m"
    by (rule view_cong; simp add: o(5) frame m1_def)+
  show "content_view (apply_batch ops m) = content_view m ++ map_of latest"
    unfolding con(1) content_ops_view [OF o(4) assms(7,8)] con(2) ..
  show "block_view c (apply_batch ops m) = (block_view c m)(b_Slot blk \<mapsto> blk\<lparr>b_Status := BlockFinalized\<rparr>)"
    by (auto simp: o(5) block_view_def frame view_encoded [OF ok(3) o(1)])
qed

context database_provider
begin

lemma FinalizeBlock_views:
  assumes "codecs_ok c" "FinalizeBlock p c blk metas accs latest s = (None, s')"
    and "distinct (map fst accs)" "\<forall>(a, acc) \<in> set accs. acc_Address acc = a"
    and "distinct (map fst metas)" "\<forall>(h, md) \<in> set metas. meta_TxHash md = h"
    and "distinct (map fst latest)" "\<forall>h \<in> snd ` set latest. \<exists>bs. h = hexEncode bs"
  shows "account_view (c_acc c) (contents (bs_db s')) = account_view (c_acc c) (contents (bs_db s)) ++ map_of accs"
    and "meta_view (c_meta c) (contents (bs_db s')) = meta_view (c_meta c) (contents (bs_db s)) ++ map_of metas"
    and "content_view (contents (bs_db s')) = content_view (contents (bs_db s)) ++ map_of latest"
    and "block_view c (contents (bs_db s')) = (block_view c (contents (bs_db s)))(b_Slot blk \<mapsto> blk\<lparr>b_Status := BlockFinalized\<rparr>)"
    and "contents (bs_db s') (slotToFinalizedKey slot) \<noteq> None \<longleftrightarrow> slot = b_Slot blk \<or> contents (bs_db s) (slotToFinalizedKey slot) \<noteq> None"
    and "tx_view (c_tx c) (contents (bs_db s')) = tx_view (c_tx c) (contents (bs_db s))"
proof -
  obtain ops where o: "finalize_ops c blk metas accs latest = Inr ops"
      "contents (bs_db s') = (if bs_latestFinalized s < b_Slot blk
        then (apply_batch ops (contents (bs_db s)))(latest_finalized_key \<mapsto> be64 (b_Slot blk)) else apply_batch ops (contents (bs_db s)))"
    using FinalizeBlock_done [OF assms(2)] by blast
  have same: "contents (bs_db s') k = apply_batch ops (contents (bs_db s)) k" if "k \<noteq> latest_finalized_key" for k
    using that by (simp add: o(2))
  note eff = finalize_ops_effect [OF o(1) assms(1) assms(3-8), of "contents (bs_db s)"]
  show "account_view (c_acc c) (contents (bs_db s')) = account_view (c_acc c) (contents (bs_db s)) ++ map_of accs"
    unfolding eff(1) [symmetric] by (rule view_cong) (simp add: same)
  show "meta_view (c_meta c) (contents (bs_db s')) = meta_view (c_meta c) (contents (bs_db s)) ++ map_of metas"
    unfolding eff(2) [symmetric] by (rule view_cong) (simp add: same)
  show "content_view (contents (bs_db s')) = content_view (contents (bs_db s)) ++ map_of latest"
    unfolding eff(3) [symmetric] by (rule view_cong) (simp add: same)
  show "block_view c (contents (bs_db s')) = (block_view c (contents (bs_db s)))(b_Slot blk \<mapsto> blk\<lparr>b_Status := BlockFinalized\<rparr>)"
    unfolding eff(4) [symmetric] by (auto simp: block_view_def same)
  show "contents (bs_db s') (slotToFinalizedKey slot) \<noteq> None \<longleftrightarrow> slot = b_Slot blk \<or> contents (bs_db s) (slotToFinalizedKey slot) \<noteq> None"
    by (simp add: same finalize_ops_frame [OF o(1)])
  show "tx_view (c_tx c) (contents (bs_db s')) = tx_view (c_tx c) (contents (bs_db s))"
    by (auto simp: tx_view_def same finalize_ops_frame [OF o(1)])
qed

end

text \<open>
  C15: A finalization that reports success is one atomic update of everything the stores read: the
  accounts and transaction metadata it was given replace those stored before, the latest versions of user
  content likewise, the block of the slot is the given one with the status finalized, and exactly this slot is
  marked as finalized in addition. Other entries, and all stored transactions, are unchanged. The maps have
  distinct keys, and an account or a metadata record is filed under its own address or hash.
\<close>

theorem FinalizeBlock_refines:
  assumes "database_provider p contents" "codecs_ok c" "FinalizeBlock p c blk metas accs latest s = (None, s')"
    and "distinct (map fst accs)" "\<forall>(a, acc) \<in> set accs. acc_Address acc = a"
    and "distinct (map fst metas)" "\<forall>(h, md) \<in> set metas. meta_TxHash md = h"
    and "distinct (map fst latest)" "\<forall>h \<in> snd ` set latest. \<exists>bs. h = hexEncode bs"
  shows "account_view (c_acc c) (contents (bs_db s')) = account_view (c_acc c) (contents (bs_db s)) ++ map_of accs \<and>
    meta_view (c_meta c) (contents (bs_db s')) = meta_view (c_meta c) (contents (bs_db s)) ++ map_of metas \<and>
    content_view (contents (bs_db s')) = content_view (contents (bs_db s)) ++ map_of latest \<and>
    block_view c (contents (bs_db s')) = (block_view c (contents (bs_db s)))(b_Slot blk \<mapsto> blk\<lparr>b_Status := BlockFinalized\<rparr>) \<and>
    (\<forall>slot. contents (bs_db s') (slotToFinalizedKey slot) \<noteq> None \<longleftrightarrow>
       slot = b_Slot blk \<or> contents (bs_db s) (slotToFinalizedKey slot) \<noteq> None) \<and>
    tx_view (c_tx c) (contents (bs_db s')) = tx_view (c_tx c) (contents (bs_db s))"
  using database_provider.FinalizeBlock_views [OF assms] by simp

text \<open>
  The store's life between two starts of the node: pending blocks are added or refused as duplicates, and
  blocks are finalized in increasing order of their slots.
\<close>

inductive store_step :: "'db DatabaseProvider \<Rightarrow> Codecs \<Rightarrow> 'db BlockStore \<Rightarrow> 'db BlockStore \<Rightarrow> bool" for p c where
  add: "AddBlockPending p c r (Some b) s = (None, s') \<Longrightarrow> store_step p c s s'"
| duplicate: "AddBlockPending p c r (Some b) s = (Some (BlockExists slot), s') \<Longrightarrow> store_step p c s s'"
| finalize: "FinalizeBlock p c blk metas accs latest s = (None, s') \<Longrightarrow> bs_latestFinalized s < b_Slot blk \<Longrightarrow> store_step p c s s'"
| unfinalized: "FinalizeBlock p c blk metas accs latest s = (Some e, s') \<Longrightarrow> store_step p c s s'"
| cleanup: "store_step p c s (CleanupOldSlotLocks n s)"

text \<open>The counters in memory are those in the database; a counter that was never written is 0.\<close>

definition counter_at :: "(string \<rightharpoonup> string) \<Rightarrow> string \<Rightarrow> u64 \<Rightarrow> bool" where
  "counter_at m k n \<longleftrightarrow> (case m k of None \<Rightarrow> n = 0 | Some v \<Rightarrow> v = be64 n)"

definition synced :: "(string \<rightharpoonup> string) \<Rightarrow> 'db BlockStore \<Rightarrow> bool" where
  "synced m s \<longleftrightarrow> counter_at m latest_finalized_key (bs_latestFinalized s) \<and> counter_at m latest_store_key (bs_latestStore s)"

lemma CleanupOldSlotLocks_keeps [simp]:
  "bs_db (CleanupOldSlotLocks n s) = bs_db s" "bs_latestFinalized (CleanupOldSlotLocks n s) = bs_latestFinalized s"
  "bs_latestStore (CleanupOldSlotLocks n s) = bs_latestStore s"
  by (simp_all add: CleanupOldSlotLocks_def Let_def)

lemma BlockExists_keeps:
  "AddBlockPending p c r (Some b) s = (Some (BlockExists slot), s') \<Longrightarrow>
     bs_db s' = bs_db s \<and> bs_latestFinalized s' = bs_latestFinalized s \<and> bs_latestStore s' = bs_latestStore s"
  by (auto simp: AddBlockPending_def Let_def split: sum.splits if_splits prod.splits option.splits)

context database_provider
begin

lemma store_step_synced: "store_step p c s s' \<Longrightarrow> synced (contents (bs_db s)) s \<Longrightarrow> synced (contents (bs_db s')) s'"
proof (induction rule: store_step.induct)
  case (add r b s s')
  from AddBlockPending_done [OF add.hyps] obtain v opss where d:
      "mapE (pending_tx_ops c b) (entry_txs (bb_Entries b)) = Inr opss"
      "contents (bs_db s') = apply_batch (concat opss)
        (if bs_latestStore s < b_Slot b then ((contents (bs_db s))(slotToBlockKey (b_Slot b) \<mapsto> v))(latest_store_key \<mapsto> be64 (b_Slot b))
         else (contents (bs_db s))(slotToBlockKey (b_Slot b) \<mapsto> v))"
      "bs_latestStore s' = max (bs_latestStore s) (b_Slot b)" "bs_latestFinalized s' = bs_latestFinalized s"
    by blast
  have "contents (bs_db s') latest_store_key = (if bs_latestStore s < b_Slot b then Some (be64 (b_Slot b)) else contents (bs_db s) latest_store_key)"
    and "contents (bs_db s') latest_finalized_key = contents (bs_db s) latest_finalized_key"
    unfolding d(2) by (subst pending_other [OF d(1)]; auto)+
  then show ?case using add.prems d(3,4) by (auto simp: synced_def counter_at_def max_def split: option.splits)
next
  case (duplicate r b s slot s')
  then show ?case using BlockExists_keeps [OF duplicate.hyps] by (simp add: synced_def)
next
  case (finalize blk metas accs latest s s')
  from FinalizeBlock_done [OF finalize.hyps(1)] obtain ops where d: "finalize_ops c blk metas accs latest = Inr ops"
      "contents (bs_db s') = (apply_batch ops (contents (bs_db s)))(latest_finalized_key \<mapsto> be64 (b_Slot blk))"
      "bs_latestFinalized s' = b_Slot blk" "bs_latestStore s' = bs_latestStore s"
    using finalize.hyps(2) by auto
  then show ?case
    using finalize.prems finalize_ops_frame [OF d(1)] by (simp add: synced_def counter_at_def)
next
  case (unfinalized blk metas accs latest s e s')
  then show ?case using FinalizeBlock_error [OF unfinalized.hyps] by (simp add: synced_def)
next
  case (cleanup s n)
  then show ?case by (simp add: synced_def)
qed

lemma restart:
  assumes "synced (contents (bs_db s)) s" "\<forall>k. \<exists>r. p_Get p (bs_db s) k = Inr r"
    and "contents (bs_db s) latest_finalized_key \<noteq> None"
  shows "NewGenericBlockStore p (bs_db s) = Inr \<lparr>bs_db = bs_db s, bs_latestFinalized = bs_latestFinalized s,
    bs_latestStore = bs_latestStore s, bs_slotLocks = [], bs_events = []\<rparr>"
proof -
  have get: "p_Get p (bs_db s) k = Inr (contents (bs_db s) k)" for k
    using assms(2) Get_sound [of "bs_db s" k] by (metis)
  show ?thesis
    using assms(1,3)
    by (auto simp: NewGenericBlockStore_def loadLatestFinalized_def get synced_def counter_at_def Let_def split: option.splits)
qed

end


text \<open>Before the first finalization the stored slot is not read back, although it was written.\<close>

lemma restart_forgets_store_slot:
  assumes "database_provider p contents" "contents d latest_finalized_key = None" "NewGenericBlockStore p d = Inr s"
  shows "bs_latestStore s = 0"
  using assms(2,3) database_provider.Get_sound [OF assms(1), of d latest_finalized_key]
  by (auto simp: NewGenericBlockStore_def loadLatestFinalized_def split: sum.splits option.splits prod.splits)

text \<open>
  Finalizing an older slot is accepted, also a second time: the counter in memory goes back to it, the one in the
  database does not.
\<close>

lemma finalize_goes_back:
  assumes "database_provider p contents" "FinalizeBlock p c blk metas accs latest s = (None, s')" "b_Slot blk < bs_latestFinalized s"
  shows "bs_latestFinalized s' < bs_latestFinalized s \<and> contents (bs_db s') latest_finalized_key = contents (bs_db s) latest_finalized_key"
proof -
  obtain ops where "finalize_ops c blk metas accs latest = Inr ops" "contents (bs_db s') = apply_batch ops (contents (bs_db s))"
      "bs_latestFinalized s' = b_Slot blk"
    using database_provider.FinalizeBlock_done [OF assms(1,2)] assms(3) by force
  then show ?thesis using assms(3) finalize_ops_frame(4) by simp
qed

section \<open>A concrete store\<close>

definition demo_block :: BroadcastedBlock where
  "demo_block = AssembleBlock (\<lambda>_. zero32) 3 7 zero32 ''leader'' [NewTxEntry 1 zero32 [Some sample_tx], NewTickEntry 2 zero32]"

definition demo_hash :: "Transaction option \<Rightarrow> string" where
  "demo_hash tx = (case tx of None \<Rightarrow> '''' | Some t \<Rightarrow> ''ab'')"

definition demo_meta :: "int \<Rightarrow> TransactionMeta" where
  "demo_meta st = NewTxMeta demo_hash (Some sample_tx) 7 (HashString hexEncode demo_block) st ''''"

definition demo_account :: Account where
  "demo_account = \<lparr>acc_Address = ''alice'', acc_Balance = Some 9, acc_Nonce = 0\<rparr>"

definition demo_codecs :: Codecs where
  "demo_codecs = \<lparr>c_acc = table_codec [demo_account], c_tx = table_codec [Some sample_tx],
     c_meta = table_codec [demo_meta TxStatusProcessed, demo_meta TxStatusSuccess],
     c_blk = table_codec [BroadcastedBlockToBlock demo_hash demo_block, (BroadcastedBlockToBlock demo_hash demo_block)\<lparr>b_Status := BlockFinalized\<rparr>],
     c_hash = demo_hash\<rparr>"

definition demo_store :: "bool \<Rightarrow> MemDB BlockStore" where
  "demo_store w = \<lparr>bs_db = \<lparr>writable = w, entries = []\<rparr>, bs_latestFinalized = 0, bs_latestStore = 0, bs_slotLocks = [], bs_events = []\<rparr>"

abbreviation "demo_provider \<equiv> LevelDBProvider mem_level"

lemma demo_codecs_ok: "codecs_ok demo_codecs"
  by (simp add: codecs_ok_def demo_codecs_def codec_ok_table)

lemma demo_block_simps:
  "b_Slot demo_block = 7" "entry_txs (bb_Entries demo_block) = [Some sample_tx]"
  by (simp_all add: demo_block_def AssembleBlock_def entry_txs_def NewTxEntry_def NewTickEntry_def Let_def)

lemma demo_encodes:
  "enc (c_blk demo_codecs) (BroadcastedBlockToBlock (c_hash demo_codecs) demo_block) = Inr ''''"
  "enc (c_tx demo_codecs) (Some sample_tx) = Inr ''''"
  "enc (c_meta demo_codecs) (NewTxMeta (c_hash demo_codecs) (Some sample_tx) 7 (HashString hexEncode demo_block) TxStatusProcessed '''') = Inr ''''"
  "enc (c_acc demo_codecs) demo_account = Inr ''''"
  by (simp_all add: demo_codecs_def table_codec_def demo_meta_def)

lemma demo_hex: "hexEncode [CHR 0xAB] = ''ab''" "hexDecode ''ab'' = Some [CHR 0xAB]"
proof -
  show e: "hexEncode [CHR 0xAB] = ''ab''" by code_simp
  show "hexDecode ''ab'' = Some [CHR 0xAB]" unfolding e [symmetric] by (rule hexDecode_hexEncode)
qed

lemma demo_finalize_ops:
  "\<exists>ops. finalize_ops demo_codecs (BroadcastedBlockToBlock demo_hash demo_block) [(''ab'', demo_meta TxStatusSuccess)]
     [(''alice'', demo_account)] [(''ab'', ''ab'')] = Inr ops"
  by (simp add: finalize_ops_def meta_put_def account_put_def content_put_def demo_codecs_def table_codec_def demo_hex del: hexDecode.simps)

definition demo_pending :: "MemDB BlockStore" where
  "demo_pending = snd (AddBlockPending demo_provider demo_codecs True (Some demo_block) (demo_store True))"

lemma demo_pending_state:
  "AddBlockPending demo_provider demo_codecs True (Some demo_block) (demo_store True) = (None, demo_pending)"
  "writable (bs_db demo_pending)" "mem_contents (bs_db demo_pending) (slotToBlockKey 7) \<noteq> None" "bs_latestFinalized demo_pending = 0"
  by (simp_all add: demo_pending_def AddBlockPending_def demo_encodes demo_block_simps Let_def demo_store_def pending_tx_ops_def tx_put_def
      LevelDBProvider_def mem_level_def mem_update_def mem_contents_def update_conv')

definition demo_final :: "MemDB BlockStore" where
  "demo_final = snd (FinalizeBlock demo_provider demo_codecs (BroadcastedBlockToBlock demo_hash demo_block)
     [(''ab'', demo_meta TxStatusSuccess)] [(''alice'', demo_account)] [(''ab'', ''ab'')] demo_pending)"

lemma demo_final_state:
  "FinalizeBlock demo_provider demo_codecs (BroadcastedBlockToBlock demo_hash demo_block)
     [(''ab'', demo_meta TxStatusSuccess)] [(''alice'', demo_account)] [(''ab'', ''ab'')] demo_pending = (None, demo_final)"
  "bs_latestFinalized demo_final = 7"
  using demo_pending_state(2,3) demo_finalize_ops
  by (auto simp: demo_final_def FinalizeBlock_def BroadcastedBlockToBlock_def HasCompleteBlock_def demo_block_simps Let_def
      LevelDBProvider_def mem_level_def mem_update_def split: sum.splits)

theorem AddBlockPending_stores_witness:
  "AddBlockPending demo_provider demo_codecs True (Some demo_block) (demo_store True) = (None, demo_pending) \<and>
   block_view demo_codecs (mem_contents (bs_db demo_pending)) 7 = Some (BroadcastedBlockToBlock demo_hash demo_block) \<and>
   tx_view (c_tx demo_codecs) (mem_contents (bs_db demo_pending)) ''ab'' = Some sample_tx \<and> bs_latestStore demo_pending = 7"
proof -
  have h: "c_hash demo_codecs = demo_hash" "demo_hash (Some sample_tx) = ''ab''" "bs_latestStore (demo_store True) = 0"
    by (simp_all add: demo_codecs_def demo_hash_def demo_store_def)
  show ?thesis
    using AddBlockPending_stores [OF mem_provider demo_codecs_ok demo_pending_state(1)] demo_pending_state(1)
    by (simp add: demo_block_simps h)
qed

theorem failed_operations_leave_database_witness:
  "\<exists>e s'. AddBlockPending demo_provider demo_codecs True (Some demo_block) (demo_store False) = (Some e, s') \<and>
     mem_contents (bs_db s') = mem_contents (bs_db (demo_store False))"
proof -
  have "\<exists>e s'. AddBlockPending demo_provider demo_codecs True (Some demo_block) (demo_store False) = (Some e, s')"
    by (simp add: AddBlockPending_def demo_encodes demo_block_simps Let_def demo_store_def pending_tx_ops_def tx_put_def
      LevelDBProvider_def mem_level_def mem_update_def mem_contents_def)
  then show ?thesis using failed_operations_leave_database [OF mem_provider] by metis
qed

theorem FinalizeBlock_refines_witness:
  "FinalizeBlock demo_provider demo_codecs (BroadcastedBlockToBlock demo_hash demo_block)
     [(''ab'', demo_meta TxStatusSuccess)] [(''alice'', demo_account)] [(''ab'', ''ab'')] demo_pending = (None, demo_final) \<and>
   account_view (c_acc demo_codecs) (mem_contents (bs_db demo_final)) ''alice'' = Some demo_account \<and>
   mem_contents (bs_db demo_final) (slotToFinalizedKey 7) \<noteq> None"
proof -
  have "\<forall>h \<in> snd ` set [(''ab'', ''ab'')]. \<exists>bs. h = hexEncode bs"
    using demo_hex(1) by (auto intro: exI [of _ "[CHR 0xAB]"])
  then show ?thesis
    using FinalizeBlock_refines [OF mem_provider demo_codecs_ok demo_final_state(1)] demo_final_state(1)
    by (simp add: demo_account_def demo_meta_def NewTxMeta_def demo_hash_def demo_block_simps BroadcastedBlockToBlock_def)
qed


end
