(* ===== verification/Trackers.thy ===== *)
theory Trackers
  imports Transactions Databases
begin

text \<open>
  The tracker of \<open>transaction/tracker.go\<close>: transactions between the mempool and the ledger. The map of
  processed transactions is an association list; the cache of removed hashes is the library \<open>bigcache\<close>, whose
  operations are the record \<open>RemovedCache\<close>. The log lines slice the first 8 bytes of the sender, which panics on a
  shorter one. \<open>H\<close> is the hash of a transaction. Metrics are left out.
\<close>

datatype cache_answer = CacheFound | CacheMissing | CacheError string

record 'c RemovedCache =
  rc_Get :: "'c \<Rightarrow> string \<Rightarrow> cache_answer"
  rc_Set :: "string \<Rightarrow> 'c \<Rightarrow> string option \<times> 'c"
  rc_Delete :: "string \<Rightarrow> 'c \<Rightarrow> 'c"

record 'c Tracker =
  tk_processingCount :: int
  tk_processingTxs :: "(string \<times> Transaction) list"
  tk_removed :: 'c

definition GetTransaction :: "string \<Rightarrow> 'c Tracker \<Rightarrow> Transaction res" where
  "GetTransaction txHash t = (case map_of (tk_processingTxs t) txHash of None \<Rightarrow> Inl ''transaction not found'' | Some tx \<Rightarrow> Inr tx)"

definition log_sender :: "Transaction \<Rightarrow> 'a \<Rightarrow> (string, 'a) outcome" where
  "log_sender tx r = (if 8 \<le> length (tx_Sender tx) then Returns r else Panics)"

definition TrackProcessingTransaction :: "'c RemovedCache \<Rightarrow> (Transaction option \<Rightarrow> string) \<Rightarrow> Transaction \<Rightarrow> 'c Tracker \<Rightarrow> (string, 'c Tracker) outcome" where
  "TrackProcessingTransaction rc H tx t =
     (let txHash = H (Some tx) in
      case rc_Get rc (tk_removed t) txHash of
        CacheFound \<Rightarrow> Returns (t\<lparr>tk_removed := rc_Delete rc txHash (tk_removed t)\<rparr>)
      | _ \<Rightarrow>
          log_sender tx
            (case map_of (tk_processingTxs t) txHash of
               Some _ \<Rightarrow> t
             | None \<Rightarrow> t\<lparr>tk_processingTxs := AList.update txHash tx (tk_processingTxs t), tk_processingCount := tk_processingCount t + 1\<rparr>))"

definition RemoveTransaction :: "'c RemovedCache \<Rightarrow> string \<Rightarrow> 'c Tracker \<Rightarrow> (string, 'c Tracker) outcome" where
  "RemoveTransaction rc txHash t =
     (case map_of (tk_processingTxs t) txHash of
        None \<Rightarrow> Returns (t\<lparr>tk_removed := snd (rc_Set rc txHash (tk_removed t))\<rparr>)
      | Some tx \<Rightarrow>
          log_sender tx (t\<lparr>tk_processingTxs := AList.delete txHash (tk_processingTxs t), tk_processingCount := tk_processingCount t - 1\<rparr>))"

section \<open>Properties\<close>

text \<open>What the tracker relies on: a hash that was set is found, until it is deleted.\<close>

locale removed_cache =
  fixes rc :: "'c RemovedCache"
  assumes Set_found: "rc_Set rc h c = (None, c') \<Longrightarrow> rc_Get rc c' h = CacheFound"
    and Set_other: "rc_Set rc h c = (None, c') \<Longrightarrow> h' \<noteq> h \<Longrightarrow> rc_Get rc c' h' = rc_Get rc c h'"
    and Delete_missing: "rc_Get rc (rc_Delete rc h c) h = CacheMissing"
    and Delete_other: "h' \<noteq> h \<Longrightarrow> rc_Get rc (rc_Delete rc h c) h' = rc_Get rc c h'"
begin

text \<open>The removal may come before the tracking: the transaction is not tracked either way.\<close>

lemma removed_before_tracked:
  assumes "map_of (tk_processingTxs t) (H (Some tx)) = None" "rc_Set rc (H (Some tx)) (tk_removed t) = (None, r)"
    and "RemoveTransaction rc (H (Some tx)) t = Returns t1"
  shows "\<exists>t2. TrackProcessingTransaction rc H tx t1 = Returns t2 \<and> tk_processingTxs t2 = tk_processingTxs t \<and>
    tk_processingCount t2 = tk_processingCount t \<and> rc_Get rc (tk_removed t2) (H (Some tx)) = CacheMissing"
  using assms Set_found [OF assms(2)] Delete_missing
  by (auto simp: RemoveTransaction_def TrackProcessingTransaction_def Let_def)

end

text \<open>The counter is the number of tracked transactions, and a hash is tracked once.\<close>

definition tracker_ok :: "'c Tracker \<Rightarrow> bool" where
  "tracker_ok t \<longleftrightarrow> distinct (map fst (tk_processingTxs t)) \<and> tk_processingCount t = int (length (tk_processingTxs t))"

lemma length_delete:
  "distinct (map fst xs) \<Longrightarrow> map_of xs k = Some v \<Longrightarrow> int (length (AList.delete k xs)) = int (length xs) - 1"
proof (induction xs)
  case (Cons x xs)
  then show ?case
  proof (cases "fst x = k")
    case True
    then have "map_of xs k = None" using Cons.prems(1) by (auto simp: map_of_eq_None_iff)
    then have "AList.delete k xs = xs" by (intro delete_id) (simp add: map_of_eq_None_iff)
    then show ?thesis using True by (cases x) simp
  qed (cases x; auto)
qed simp

lemma length_update_new: "map_of xs k = None \<Longrightarrow> length (AList.update k v xs) = Suc (length xs)"
  by (induction xs) (auto split: if_splits)

lemma Track_tracker_ok: "TrackProcessingTransaction rc H tx t = Returns t' \<Longrightarrow> tracker_ok t \<Longrightarrow> tracker_ok t'"
  by (auto simp: TrackProcessingTransaction_def log_sender_def tracker_ok_def Let_def distinct_update length_update_new
      split: cache_answer.splits option.splits if_splits)

lemma Remove_tracker_ok: "RemoveTransaction rc h t = Returns t' \<Longrightarrow> tracker_ok t \<Longrightarrow> tracker_ok t'"
  by (auto simp: RemoveTransaction_def log_sender_def tracker_ok_def distinct_delete length_delete
      split: option.splits if_splits)

text \<open>A cache without expiry has these laws.\<close>

definition set_cache :: "string set RemovedCache" where
  "set_cache = \<lparr>rc_Get = (\<lambda>c h. if h \<in> c then CacheFound else CacheMissing), rc_Set = (\<lambda>h c. (None, insert h c)), rc_Delete = (\<lambda>h c. c - {h})\<rparr>"

interpretation set_cache: removed_cache set_cache
  by unfold_locales (auto simp: set_cache_def)

text \<open>
  A transaction that the ledger has applied before the leader reports that it pulled it is not tracked:
  whatever the order of the two calls, no transaction is tracked afterwards that was not before, and the
  counter remains the number of tracked transactions.
\<close>

theorem tracking_order_irrelevant:
  assumes "removed_cache rc" "tracker_ok t" "map_of (tk_processingTxs t) (H (Some tx)) = None"
    and "rc_Get rc (tk_removed t) (H (Some tx)) = CacheMissing" "rc_Set rc (H (Some tx)) (tk_removed t) = (None, r)" "8 \<le> length (tx_Sender tx)"
  shows "\<exists>a a' b b'. TrackProcessingTransaction rc H tx t = Returns a \<and> RemoveTransaction rc (H (Some tx)) a = Returns a' \<and>
    RemoveTransaction rc (H (Some tx)) t = Returns b \<and> TrackProcessingTransaction rc H tx b = Returns b' \<and>
    map_of (tk_processingTxs a') = map_of (tk_processingTxs t) \<and> map_of (tk_processingTxs b') = map_of (tk_processingTxs t) \<and>
    tk_processingCount a' = tk_processingCount b' \<and> tracker_ok a' \<and> tracker_ok b'"
proof -
  obtain a where a: "TrackProcessingTransaction rc H tx t = Returns a"
      "tk_processingTxs a = AList.update (H (Some tx)) tx (tk_processingTxs t)" "tk_processingCount a = tk_processingCount t + 1"
    using assms(3,4,6) by (auto simp: TrackProcessingTransaction_def log_sender_def Let_def)
  obtain a' where a': "RemoveTransaction rc (H (Some tx)) a = Returns a'"
      "tk_processingTxs a' = AList.delete (H (Some tx)) (tk_processingTxs a)" "tk_processingCount a' = tk_processingCount t"
    using a assms(6) by (auto simp: RemoveTransaction_def log_sender_def update_conv')
  obtain b where b: "RemoveTransaction rc (H (Some tx)) t = Returns b" using assms(3) by (simp add: RemoveTransaction_def)
  obtain b' where b': "TrackProcessingTransaction rc H tx b = Returns b'" "tk_processingTxs b' = tk_processingTxs t"
      "tk_processingCount b' = tk_processingCount t"
    using removed_cache.removed_before_tracked [OF assms(1), of t H tx r b] assms(3,5) b by blast
  have "map_of (tk_processingTxs a') = map_of (tk_processingTxs t)"
    using assms(3) by (auto simp: a a' update_conv' delete_conv')
  moreover have "tracker_ok a'" "tracker_ok b'"
    using Track_tracker_ok Remove_tracker_ok assms(2) a(1) a'(1) b b'(1) by blast+
  ultimately show ?thesis using a a' b b' by auto
qed

theorem tracking_order_irrelevant_witness:
  "\<exists>a a'. TrackProcessingTransaction set_cache (\<lambda>_. ''h'') (sample_tx\<lparr>tx_Sender := ''aliceandbob''\<rparr>)
      \<lparr>tk_processingCount = 0, tk_processingTxs = [], tk_removed = {}\<rparr> = Returns a \<and>
    RemoveTransaction set_cache ''h'' a = Returns a' \<and> map_of (tk_processingTxs a') = Map.empty"
proof -
  let ?t = "\<lparr>tk_processingCount = 0, tk_processingTxs = [], tk_removed = {}\<rparr> :: string set Tracker"
  have "tracker_ok ?t" by (simp add: tracker_ok_def)
  then show ?thesis
    using tracking_order_irrelevant [OF set_cache.removed_cache_axioms, of ?t "\<lambda>_. ''h''" "sample_tx\<lparr>tx_Sender := ''aliceandbob''\<rparr>" "{''h''}"]
    by (auto simp: set_cache_def)
qed

end
