(* ===== verification/Ledgers.thy ===== *)
theory Ledgers
  imports Block_Stores Trackers
begin

text \<open>
  The ledger of \<open>ledger/ledger.go\<close>: genesis accounts, transfers, validation of user content, and the
  finalization of a block on top of the stores, with the address checks of \<open>security/validation\<close>. The JSON
  reader of user content, the base58 decoder and the check of a curve point are the record \<open>Lib\<close>. A Go map
  is an association list; sender and recipient of a transfer may be the same entry. An error message
  is that of the innermost cause. Logs and metrics are left out.
\<close>

section \<open>Transfers\<close>

definition zero_account :: "string \<Rightarrow> Account" where
  "zero_account addr = \<lparr>acc_Address = addr, acc_Balance = Some 0, acc_Nonce = 0\<rparr>"

definition ensure_account :: "string \<Rightarrow> (string \<times> Account) list \<Rightarrow> (string \<times> Account) list" where
  "ensure_account addr state = (case map_of state addr of None \<Rightarrow> AList.update addr (zero_account addr) state | Some _ \<Rightarrow> state)"

definition get_account :: "(string \<times> Account) list \<Rightarrow> string \<Rightarrow> Account" where
  "get_account state addr = (case map_of state addr of None \<Rightarrow> zero_account addr | Some acc \<Rightarrow> acc)"

text \<open>The amount leaves the sender before it reaches the recipient, which may be the same account; a nil balance panics.\<close>

definition move_amount :: "string \<Rightarrow> string \<Rightarrow> u256 \<Rightarrow> u64 \<Rightarrow> (string \<times> Account) list \<Rightarrow> ('e, (string \<times> Account) list) outcome" where
  "move_amount s r amount nonce state2 =
     (let sender = get_account state2 s in
      case acc_Balance sender of None \<Rightarrow> Panics | Some sb \<Rightarrow>
      let state3 = AList.update s (sender\<lparr>acc_Balance := Some (sb - amount)\<rparr>) state2;
          recipient = get_account state3 r in
      case acc_Balance recipient of None \<Rightarrow> Panics | Some rb \<Rightarrow>
      let state4 = AList.update r (recipient\<lparr>acc_Balance := Some (rb + amount)\<rparr>) state3 in
      Returns (AList.update s ((get_account state4 s)\<lparr>acc_Nonce := nonce\<rparr>) state4))"

text \<open>
  \<open>applyTx\<close> fails with the message and the map as it is then: accounts that were missing have been added.
\<close>

definition applyTx :: "(string \<times> Account) list \<Rightarrow> Transaction option \<Rightarrow> (string \<times> (string \<times> Account) list, (string \<times> Account) list) outcome" where
  "applyTx state txo =
     (case txo of None \<Rightarrow> Fails (''transaction cannot be nil'', state) | Some tx \<Rightarrow>
      case tx_Amount tx of None \<Rightarrow> Fails (''transaction amount cannot be nil'', state) | Some amount \<Rightarrow>
      let state1 = ensure_account (tx_Sender tx) state;
          state2 = ensure_account (tx_Recipient tx) state1 in
      case acc_Balance (get_account state2 (tx_Sender tx)) of None \<Rightarrow> Panics | Some sb \<Rightarrow>
        if sb < amount then Fails (''insufficient balance'', state2)
        else move_amount (tx_Sender tx) (tx_Recipient tx) amount (tx_Nonce tx) state2)"

section \<open>User content\<close>

record UserContent =
  uc_Type :: string
  uc_Title :: string
  uc_Description :: string
  uc_ImageCIDs :: "string list"
  uc_ParentHash :: string
  uc_RootHash :: string
  uc_ReferenceTxHashes :: "string list"

text \<open>Decoding JSON fills in a value, also when it reports an error.\<close>

record Lib =
  lib_parse :: "string \<Rightarrow> string option \<times> UserContent"
  lib_base58 :: "string \<Rightarrow> string option"
  lib_point :: "string \<Rightarrow> bool"

abbreviation (input) "MaxReferenceTxs \<equiv> 10 :: nat"

abbreviation (input) TransactionExtraInfoDonationCampaignFeed :: string where
  "TransactionExtraInfoDonationCampaignFeed \<equiv> ''donation-campaign-feed''"

definition ValidateTxAddress :: "Lib \<Rightarrow> string \<Rightarrow> bool" where
  "ValidateTxAddress lib addr =
     (case lib_base58 lib addr of None \<Rightarrow> False | Some pubKey \<Rightarrow> if length pubKey \<noteq> 32 then False else lib_point lib pubKey)"

definition ShouldValidateAddress :: "string \<Rightarrow> bool" where
  "ShouldValidateAddress extraInfoType \<longleftrightarrow> extraInfoType = TransactionExtraInfoDonationCampaignFeed"

text \<open>
  The length of the white space character a string starts with, in UTF-8, and whether trimming a string
  leaves nothing.
\<close>

definition space_length :: "string \<Rightarrow> nat" where
  "space_length s =
     (case map of_char s :: nat list of
        [] \<Rightarrow> 0
      | a # r \<Rightarrow>
          if a \<in> {9, 10, 11, 12, 13, 32} then 1
          else if a = 0xC2 then (case r of b # _ \<Rightarrow> if b \<in> {0x85, 0xA0} then 2 else 0 | [] \<Rightarrow> 0)
          else (case r of
              b # c # _ \<Rightarrow>
                if a = 0xE1 \<and> b = 0x9A \<and> c = 0x80 \<or> a = 0xE2 \<and> b = 0x80 \<and> (0x80 \<le> c \<and> c \<le> 0x8A \<or> c \<in> {0xA8, 0xA9, 0xAF}) \<or>
                   a = 0xE2 \<and> b = 0x81 \<and> c = 0x9F \<or> a = 0xE3 \<and> b = 0x80 \<and> c = 0x80
                then 3 else 0
            | _ \<Rightarrow> 0))"

function blank :: "string \<Rightarrow> bool" where
  "blank s = (if s = [] then True else if space_length s = 0 then False else blank (drop (space_length s) s))"
  by auto
termination
  by (relation "measure length") auto

declare blank.simps [simp del]

definition validateUserContent :: "Lib \<Rightarrow> (Transaction option \<Rightarrow> string) \<Rightarrow> Transaction \<Rightarrow> (string \<times> Transaction) list \<Rightarrow> (string \<times> string) list \<Rightarrow> string option \<times> (string \<times> string) list" where
  "validateUserContent lib H tx hashRelatedContentTx latest =
     (let content = snd (lib_parse lib (tx_ExtraInfo tx)) in
      if blank (uc_Type content) \<or> blank (uc_Title content) \<or> blank (uc_Description content)
        then (Some ''user content required fields are missing'', latest)
      else if ShouldValidateAddress (uc_Type content) \<and> \<not> ValidateTxAddress lib (tx_Recipient tx)
        then (Some ''transaction address is invalid'', latest)
      else if length (uc_ReferenceTxHashes content) > MaxReferenceTxs \<or>
              \<not> list_all (\<lambda>h. map_of hashRelatedContentTx h \<noteq> None) (uc_ReferenceTxHashes content)
        then (Some ''user content data is invalid'', latest)
      else if uc_ParentHash content = '''' \<and> uc_RootHash content = ''''
        then (None, AList.update (H (Some tx)) (H (Some tx)) latest)
      else if uc_ParentHash content = '''' \<or> uc_RootHash content = ''''
        then (Some ''user content data is invalid'', latest)
      else case map_of hashRelatedContentTx (uc_ParentHash content) of
        None \<Rightarrow> (Some ''parent user content not found'', latest)
      | Some parentContentTx \<Rightarrow>
          if tx_Type parentContentTx \<noteq> TxTypeUserContent \<or> tx_Sender parentContentTx \<noteq> tx_Sender tx \<or> tx_Recipient parentContentTx \<noteq> tx_Recipient tx
            then (Some ''user content data is invalid'', latest)
          else case map_of latest (uc_RootHash content) of
            None \<Rightarrow> (Some ''latest version user content not found'', latest)
          | Some latestVersionContentHash \<Rightarrow>
              if latestVersionContentHash \<noteq> uc_ParentHash content then (Some ''parent user content is not the latest version'', latest)
              else (None, AList.update (uc_RootHash content) (H (Some tx)) latest))"

section \<open>The ledger\<close>

text \<open>The tracker is nil or a tracker; the flag says whether an event router is set.\<close>

record ('db, 'c) Ledger =
  lg_store :: "'db BlockStore"
  lg_router :: bool
  lg_tracker :: "'c Tracker option"

datatype ledger_error =
    AccountExisted
  | ReadError string
  | StoreError store_error

definition createAccountWithoutLocking :: "'db DatabaseProvider \<Rightarrow> Account Codec \<Rightarrow> string \<Rightarrow> u256 option \<Rightarrow> 'db \<Rightarrow> (ledger_error + Account) \<times> 'db" where
  "createAccountWithoutLocking p ca addr balance d =
     (case ExistsByAddr p d addr of
        Inl e \<Rightarrow> (Inl (ReadError e), d)
      | Inr True \<Rightarrow> (Inl AccountExisted, d)
      | Inr False \<Rightarrow>
          let account = \<lparr>acc_Address = addr, acc_Balance = balance, acc_Nonce = 0\<rparr> in
          case Account_Store p ca account d of
            (Some e, d') \<Rightarrow> (Inl (StoreError (WriteError e)), d')
          | (None, d') \<Rightarrow> (Inr account, d'))"

fun CreateAccountsFromGenesis :: "'db DatabaseProvider \<Rightarrow> Account Codec \<Rightarrow> (string \<times> u256 option) list \<Rightarrow> 'db \<Rightarrow> ledger_error option \<times> 'db" where
  "CreateAccountsFromGenesis p ca [] d = (None, d)"
| "CreateAccountsFromGenesis p ca ((addr, amount) # addrs) d =
     (case createAccountWithoutLocking p ca addr amount d of
        (Inl e, d') \<Rightarrow> (Some e, d')
      | (Inr _, d') \<Rightarrow> CreateAccountsFromGenesis p ca addrs d')"

text \<open>\<open>Balance\<close> reads a field of the account it looked up, which panics when there is none.\<close>

definition Balance :: "'db DatabaseProvider \<Rightarrow> Account Codec \<Rightarrow> 'db \<Rightarrow> string \<Rightarrow> (string, u256 option) outcome" where
  "Balance p ca d addr =
     (case GetByAddr p ca d addr of
        Inl e \<Rightarrow> Fails e
      | Inr None \<Rightarrow> Panics
      | Inr (Some acc) \<Rightarrow> Returns (acc_Balance acc))"

section \<open>Finalizing a block\<close>

text \<open>What the loop over the transactions of a block builds up.\<close>

record Pass =
  ps_state :: "(string \<times> Account) list"
  ps_metas :: "(string \<times> TransactionMeta) list"
  ps_contents :: "Transaction list"
  ps_related :: "string list"
  ps_roots :: "string list"

definition add_new :: "'a \<Rightarrow> 'a list \<Rightarrow> 'a list" where
  "add_new x xs = (if x \<in> set xs then xs else xs @ [x])"

definition transfer_addrs :: "Transaction list \<Rightarrow> string list" where
  "transfer_addrs txs = fold (\<lambda>tx accAddrs. if tx_Type tx = TxTypeUserContent then accAddrs
     else add_new (tx_Recipient tx) (add_new (tx_Sender tx) accAddrs)) txs []"

definition block_meta :: "Codecs \<Rightarrow> Block \<Rightarrow> Transaction \<Rightarrow> int \<Rightarrow> string \<Rightarrow> TransactionMeta" where
  "block_meta c b tx status err = NewTxMeta (c_hash c) (Some tx) (b_Slot b) (hexEncode (b_Hash b)) status err"

definition set_meta :: "Codecs \<Rightarrow> Block \<Rightarrow> Transaction \<Rightarrow> string option \<Rightarrow> (string \<times> TransactionMeta) list \<Rightarrow> (string \<times> TransactionMeta) list" where
  "set_meta c b tx err metas =
     AList.update (c_hash c (Some tx))
       (case err of None \<Rightarrow> block_meta c b tx TxStatusSuccess '''' | Some e \<Rightarrow> block_meta c b tx TxStatusFailed e) metas"

definition collect_content :: "Lib \<Rightarrow> Codecs \<Rightarrow> Block \<Rightarrow> Transaction \<Rightarrow> Pass \<Rightarrow> Pass" where
  "collect_content lib c b tx ps =
     (case lib_parse lib (tx_ExtraInfo tx) of
        (Some e, _) \<Rightarrow> ps\<lparr>ps_metas := set_meta c b tx (Some ''User content data is invalid'') (ps_metas ps)\<rparr>
      | (None, content) \<Rightarrow>
          ps\<lparr>ps_contents := ps_contents ps @ [tx],
             ps_related := fold add_new (uc_ReferenceTxHashes content)
               (if uc_ParentHash content \<noteq> '''' then add_new (uc_ParentHash content) (ps_related ps) else ps_related ps),
             ps_roots := (if uc_RootHash content \<noteq> '''' then add_new (uc_RootHash content) (ps_roots ps) else ps_roots ps)\<rparr>)"

definition apply_transfer :: "Codecs \<Rightarrow> Block \<Rightarrow> Transaction \<Rightarrow> Pass \<Rightarrow> (ledger_error, Pass) outcome" where
  "apply_transfer c b tx ps =
     (case applyTx (ps_state ps) (Some tx) of
        Panics \<Rightarrow> Panics
      | Fails (e, st) \<Rightarrow> Returns (ps\<lparr>ps_state := st, ps_metas := set_meta c b tx (Some e) (ps_metas ps)\<rparr>)
      | Returns st \<Rightarrow> Returns (ps\<lparr>ps_state := st, ps_metas := set_meta c b tx None (ps_metas ps)\<rparr>))"

definition untrack :: "'c RemovedCache \<Rightarrow> bool \<Rightarrow> string \<Rightarrow> 'c Tracker option \<Rightarrow> (ledger_error, 'c Tracker option) outcome" where
  "untrack rc isListener txHash tro =
     (case tro of
        None \<Rightarrow> Returns None
      | Some tr \<Rightarrow>
          if isListener then Returns (Some tr)
          else case RemoveTransaction rc txHash tr of Returns tr' \<Rightarrow> Returns (Some tr') | _ \<Rightarrow> Panics)"

definition apply_block_tx :: "Lib \<Rightarrow> Codecs \<Rightarrow> Block \<Rightarrow> Transaction \<Rightarrow> Pass \<Rightarrow> (ledger_error, Pass) outcome" where
  "apply_block_tx lib c b tx ps =
     (if tx_Type tx = TxTypeUserContent then Returns (collect_content lib c b tx ps) else apply_transfer c b tx ps)"

fun apply_block_txs :: "Lib \<Rightarrow> Codecs \<Rightarrow> 'c RemovedCache \<Rightarrow> bool \<Rightarrow> Block \<Rightarrow> Transaction list \<Rightarrow> Pass \<Rightarrow> 'c Tracker option \<Rightarrow> (ledger_error, Pass \<times> 'c Tracker option) outcome" where
  "apply_block_txs lib c rc isListener b [] ps tro = Returns (ps, tro)"
| "apply_block_txs lib c rc isListener b (tx # txs) ps tro =
     (case apply_block_tx lib c b tx ps of
        Returns ps' \<Rightarrow>
          (case untrack rc isListener (c_hash c (Some tx)) tro of
             Returns tro' \<Rightarrow> apply_block_txs lib c rc isListener b txs ps' tro'
           | _ \<Rightarrow> Panics)
      | _ \<Rightarrow> Panics)"

fun validate_contents :: "Lib \<Rightarrow> Codecs \<Rightarrow> Block \<Rightarrow> (string \<times> Transaction) list \<Rightarrow> Transaction list \<Rightarrow> (string \<times> TransactionMeta) list \<Rightarrow> (string \<times> string) list \<Rightarrow> (string \<times> TransactionMeta) list \<times> (string \<times> string) list" where
  "validate_contents lib c b related [] metas latest = (metas, latest)"
| "validate_contents lib c b related (content # contents) metas latest =
     (case validateUserContent lib (c_hash c) content related latest of
        (err, latest') \<Rightarrow> validate_contents lib c b related contents (set_meta c b content err metas) latest')"

text \<open>The events published after a successful finalization.\<close>

definition final_event :: "Codecs \<Rightarrow> Block \<Rightarrow> (string \<times> TransactionMeta) list \<Rightarrow> Transaction \<Rightarrow> TxEvent" where
  "final_event c b metas tx =
     (case map_of metas (c_hash c (Some tx)) of
        Some md \<Rightarrow>
          if meta_Status md = TxStatusFailed then TransactionFailed (c_hash c (Some tx)) (''transaction application failed: '' @ meta_Error md)
          else TransactionFinalized (c_hash c (Some tx)) (b_Slot b) (hexEncode (b_Hash b))
      | None \<Rightarrow> TransactionFinalized (c_hash c (Some tx)) (b_Slot b) (hexEncode (b_Hash b)))"

definition block_tx_hashes :: "Block \<Rightarrow> string list" where
  "block_tx_hashes b = concat (map pe_TxHashes (filter (\<lambda>e. \<not> pe_Tick e) (b_Entries b)))"

definition publish :: "bool \<Rightarrow> TxEvent list \<Rightarrow> 'db BlockStore \<Rightarrow> 'db BlockStore" where
  "publish router evs s = (if router then s\<lparr>bs_events := bs_events s @ evs\<rparr> else s)"

text \<open>
  The end of \<open>Ledger.FinalizeBlock\<close>, once all has been read: user content is validated, the block store is
  called, and the events are published.
\<close>

definition finish_block :: "'db DatabaseProvider \<Rightarrow> Lib \<Rightarrow> Codecs \<Rightarrow> Block \<Rightarrow> Transaction list \<Rightarrow> Pass \<Rightarrow> Transaction list \<Rightarrow> (string \<times> string) list \<Rightarrow> ('db, 'c) Ledger \<Rightarrow> ledger_error option \<times> ('db, 'c) Ledger" where
  "finish_block p lib c b txs ps relatedTxs latest l =
     (let related = fold (\<lambda>tx. AList.update (c_hash c (Some tx)) tx) relatedTxs [] in
      case validate_contents lib c b related (ps_contents ps) (ps_metas ps) latest of (metas, latest') \<Rightarrow>
      case FinalizeBlock p c b metas (ps_state ps) latest' (lg_store l) of
        (Some e, s) \<Rightarrow>
          (Some (StoreError e),
           l\<lparr>lg_store := publish (lg_router l) (map (\<lambda>tx. TransactionFailed (c_hash c (Some tx)) ''WAL write failed'') txs) s\<rparr>)
      | (None, s) \<Rightarrow> (None, l\<lparr>lg_store := publish (lg_router l) (map (final_event c b metas) txs) s\<rparr>))"

definition Ledger_FinalizeBlock :: "'db DatabaseProvider \<Rightarrow> Lib \<Rightarrow> Codecs \<Rightarrow> 'c RemovedCache \<Rightarrow> bool \<Rightarrow> Block \<Rightarrow> ('db, 'c) Ledger \<Rightarrow> (ledger_error, ledger_error option \<times> ('db, 'c) Ledger) outcome" where
  "Ledger_FinalizeBlock p lib c rc isListener b l =
     (let d = bs_db (lg_store l) in
      if b_InvalidPoH b then Returns (None, l)
      else case Tx_GetBatch p (c_tx c) d (block_tx_hashes b) of Inl e \<Rightarrow> Returns (Some (ReadError e), l) | Inr txs \<Rightarrow>
      case Account_GetBatch p (c_acc c) d (transfer_addrs txs) of Inl e \<Rightarrow> Returns (Some (ReadError e), l) | Inr state \<Rightarrow>
      case apply_block_txs lib c rc isListener b txs \<lparr>ps_state = state, ps_metas = [], ps_contents = [], ps_related = [], ps_roots = []\<rparr> (lg_tracker l) of
        Panics \<Rightarrow> Panics
      | Fails e \<Rightarrow> Panics
      | Returns (ps, tro) \<Rightarrow>
          (let l1 = l\<lparr>lg_tracker := tro\<rparr> in
           case Tx_GetBatch p (c_tx c) d (ps_related ps) of Inl e \<Rightarrow> Returns (Some (ReadError e), l1) | Inr relatedTxs \<Rightarrow>
           case GetBatchLatestVersionContentHash p d (ps_roots ps) of Inl e \<Rightarrow> Returns (Some (ReadError e), l1) | Inr latest \<Rightarrow>
           Returns (finish_block p lib c b txs ps relatedTxs latest l1)))"

definition GetTxByHash :: "'db DatabaseProvider \<Rightarrow> Codecs \<Rightarrow> 'db \<Rightarrow> string \<Rightarrow> (string option \<times> string option) + (Transaction \<times> TransactionMeta)" where
  "GetTxByHash p c d hash =
     (case (Tx_GetByHash p (c_tx c) d hash, Meta_GetByHash p (c_meta c) d hash) of
        (Inr tx, Inr txMeta) \<Rightarrow> Inr (tx, txMeta)
      | (errTx, errMeta) \<Rightarrow> Inl (case errTx of Inl e \<Rightarrow> Some e | Inr _ \<Rightarrow> None, case errMeta of Inl e \<Rightarrow> Some e | Inr _ \<Rightarrow> None))"

definition GetTxBatch :: "'db DatabaseProvider \<Rightarrow> Codecs \<Rightarrow> 'db \<Rightarrow> string list \<Rightarrow> (Transaction list \<times> (string \<times> TransactionMeta) list) res" where
  "GetTxBatch p c d hashes =
     (if hashes = [] then Inr ([], [])
      else case Tx_GetBatch p (c_tx c) d hashes of
        Inl e \<Rightarrow> Inl e
      | Inr txs \<Rightarrow> (case Meta_GetBatch p (c_meta c) d hashes of Inl e \<Rightarrow> Inl e | Inr metas \<Rightarrow> Inr (txs, metas)))"

section \<open>Transfers on balances\<close>

text \<open>
  The reference: balances are numbers, a transfer moves an amount the sender has, and any other transfer
  changes nothing.
\<close>

definition funded :: "Transaction \<Rightarrow> (string \<Rightarrow> nat) \<Rightarrow> bool" where
  "funded tx bal \<longleftrightarrow> (case tx_Amount tx of None \<Rightarrow> False | Some amount \<Rightarrow> unat amount \<le> bal (tx_Sender tx))"

definition transfer :: "Transaction \<Rightarrow> (string \<Rightarrow> nat) \<Rightarrow> string \<Rightarrow> nat" where
  "transfer tx bal =
     (if funded tx bal then
        let amount = unat (the (tx_Amount tx)); paid = bal(tx_Sender tx := bal (tx_Sender tx) - amount) in
        paid(tx_Recipient tx := paid (tx_Recipient tx) + amount)
      else bal)"

definition holders :: "(string \<Rightarrow> nat) \<Rightarrow> string set" where
  "holders bal = {a. bal a \<noteq> 0}"

definition total_supply :: "(string \<Rightarrow> nat) \<Rightarrow> nat" where
  "total_supply bal = (\<Sum>a \<in> holders bal. bal a)"

lemma supply_on: "finite A \<Longrightarrow> holders bal \<subseteq> A \<Longrightarrow> total_supply bal = (\<Sum>a \<in> A. bal a)"
  unfolding total_supply_def by (rule sum.mono_neutral_left) (auto simp: holders_def)

lemma sum_fun_upd:
  fixes f :: "'a \<Rightarrow> nat"
  assumes "finite A" "x \<in> A"
  shows "(\<Sum>a \<in> A. (f(x := v)) a) + f x = (\<Sum>a \<in> A. f a) + v"
proof -
  have "(\<Sum>a \<in> A - {x}. (f(x := v)) a) = (\<Sum>a \<in> A - {x}. f a)" by (rule sum.cong) auto
  then show ?thesis using sum.remove [OF assms, of f] sum.remove [OF assms, of "f(x := v)"] by simp
qed

lemma transfer_supply:
  assumes "finite (holders bal)"
  shows "finite (holders (transfer tx bal)) \<and> total_supply (transfer tx bal) = total_supply bal"
proof (cases "funded tx bal")
  case True
  define s r n where "s = tx_Sender tx" and "r = tx_Recipient tx" and "n = unat (the (tx_Amount tx))"
  have n: "n \<le> bal s" using True by (auto simp: funded_def n_def s_def split: option.splits)
  define paid where "paid = bal(s := bal s - n)"
  have t: "transfer tx bal = paid(r := paid r + n)"
    using True by (simp add: transfer_def s_def r_def n_def paid_def Let_def)
  define A where "A = holders bal \<union> {s, r}"
  have A: "finite A" "s \<in> A" "r \<in> A" using assms by (auto simp: A_def)
  have sub: "holders (transfer tx bal) \<subseteq> A" unfolding t by (auto simp: A_def paid_def holders_def split: if_splits)
  have "(\<Sum>a \<in> A. paid a) + n = (\<Sum>a \<in> A. bal a)"
    using sum_fun_upd [OF A(1,2), of bal "bal s - n"] n by (simp add: paid_def)
  moreover have "(\<Sum>a \<in> A. transfer tx bal a) = (\<Sum>a \<in> A. paid a) + n"
    using sum_fun_upd [OF A(1,3), of paid "paid r + n"] by (simp add: t)
  moreover have "total_supply bal = (\<Sum>a \<in> A. bal a)" by (rule supply_on [OF A(1)]) (auto simp: A_def)
  ultimately show ?thesis using supply_on [OF A(1) sub] finite_subset [OF sub A(1)] by simp
qed (use assms in \<open>simp add: transfer_def\<close>)

lemma transfers_supply:
  assumes "finite (holders bal)"
  shows "finite (holders (fold transfer txs bal)) \<and> total_supply (fold transfer txs bal) = total_supply bal"
  using assms by (induction txs arbitrary: bal) (auto simp: transfer_supply)

text \<open>Two different balances together are within the supply.\<close>

lemma balance_le_supply: "finite (holders bal) \<Longrightarrow> bal a \<le> total_supply bal"
  using supply_on [of "insert a (holders bal)" bal, OF _ subset_insertI] by (simp add: sum.insert_remove)

lemma transfer_le_supply: "finite (holders bal) \<Longrightarrow> transfer tx bal a \<le> total_supply bal"
  using balance_le_supply [of "transfer tx bal" a] transfer_supply [of bal tx] by simp

section \<open>Applying a transfer\<close>

definition balance_in :: "Account option \<Rightarrow> nat" where
  "balance_in acc = (case acc of None \<Rightarrow> 0 | Some x \<Rightarrow> (case acc_Balance x of None \<Rightarrow> 0 | Some b \<Rightarrow> unat b))"

text \<open>Accounts are filed under their address and have a balance.\<close>

definition accounts_ok :: "(string \<rightharpoonup> Account) \<Rightarrow> bool" where
  "accounts_ok m \<longleftrightarrow> (\<forall>a acc. m a = Some acc \<longrightarrow> acc_Address acc = a \<and> acc_Balance acc \<noteq> None)"

definition balances :: "(string \<rightharpoonup> Account) \<Rightarrow> string \<Rightarrow> nat" where
  "balances m a = balance_in (m a)"

lemma ensure_account_map:
  "map_of (ensure_account a st) = (if map_of st a = None then (map_of st)(a \<mapsto> zero_account a) else map_of st)"
  by (auto simp: ensure_account_def update_conv' split: option.splits)

lemma ensure_account_distinct [simp]: "distinct (map fst st) \<Longrightarrow> distinct (map fst (ensure_account a st))"
  by (auto simp: ensure_account_def distinct_update split: option.splits)

lemma accounts_ok_upd: "accounts_ok m \<Longrightarrow> acc_Address acc = a \<Longrightarrow> acc_Balance acc \<noteq> None \<Longrightarrow> accounts_ok (m(a \<mapsto> acc))"
  by (auto simp: accounts_ok_def)

lemma accounts_okD:
  assumes "accounts_ok m" "m a = Some acc"
  shows "acc_Address acc = a" "\<exists>b. acc_Balance acc = Some b"
  using assms by (auto simp: accounts_ok_def)

lemma get_account_ensured: "map_of (ensure_account a st) a = Some (get_account (ensure_account a st) a)"
  by (auto simp: ensure_account_map get_account_def split: option.splits)

text \<open>
  The accounts of a block are read once and then updated in the map: \<open>v\<close> is what the database holds and
  \<open>st\<close> the map. The map holds every stored account of the addresses in \<open>A\<close>.
\<close>

definition covers :: "(string \<rightharpoonup> Account) \<Rightarrow> string set \<Rightarrow> (string \<times> Account) list \<Rightarrow> bool" where
  "covers v A st \<longleftrightarrow> (\<forall>a \<in> A. map_of st a = None \<longrightarrow> v a = None)"

lemma balances_upd: "balances (m(a \<mapsto> acc)) = (balances m)(a := balance_in (Some acc))"
  by (auto simp: balances_def)

lemma ensure_account_merged:
  assumes "accounts_ok (v ++ map_of st)" "covers v A st" "a \<in> A"
  shows "accounts_ok (v ++ map_of (ensure_account a st))" "balances (v ++ map_of (ensure_account a st)) = balances (v ++ map_of st)"
    and "covers v A (ensure_account a st)" "\<exists>acc. map_of (ensure_account a st) a = Some acc"
    and "\<And>b. map_of st b \<noteq> None \<Longrightarrow> map_of (ensure_account a st) b = map_of st b"
proof -
  have m: "v ++ map_of (ensure_account a st) = (if map_of st a = None then (v ++ map_of st)(a \<mapsto> zero_account a) else v ++ map_of st)"
    by (simp add: ensure_account_map)
  have new: "(v ++ map_of st) a = None" if "map_of st a = None" using that assms(2,3) by (simp add: covers_def)
  show "accounts_ok (v ++ map_of (ensure_account a st))"
    using assms(1) by (simp add: m accounts_ok_upd zero_account_def)
  show "balances (v ++ map_of (ensure_account a st)) = balances (v ++ map_of st)"
    using new by (auto simp: m balances_upd balance_in_def zero_account_def intro!: fun_upd_idem)
      (simp add: balances_def balance_in_def map_add_def)
  show "covers v A (ensure_account a st)" using assms(2) by (simp add: covers_def ensure_account_map)
  show "\<exists>acc. map_of (ensure_account a st) a = Some acc" using get_account_ensured by blast
  show "map_of (ensure_account a st) b = map_of st b" if "map_of st b \<noteq> None" for b
    using that by (auto simp: ensure_account_map)
qed

lemma move_amount_ok:
  assumes "accounts_ok (v ++ map_of st)" "distinct (map fst st)" "covers v A st" "s \<in> A" "r \<in> A"
    and "map_of st s = Some sa" "acc_Balance sa = Some sb" "unat amount \<le> unat sb" "map_of st r = Some ra"
    and "paid = (balances (v ++ map_of st))(s := unat sb - unat amount)" "paid r + unat amount < 2 ^ 256"
  shows "\<exists>st'. move_amount s r amount nonce st = Returns st' \<and> accounts_ok (v ++ map_of st') \<and> distinct (map fst st') \<and> covers v A st' \<and>
    balances (v ++ map_of st') = paid(r := paid r + unat amount)"
proof -
  define st3 where "st3 = AList.update s (sa\<lparr>acc_Balance := Some (sb - amount)\<rparr>) st"
  have m3: "v ++ map_of st3 = (v ++ map_of st)(s \<mapsto> sa\<lparr>acc_Balance := Some (sb - amount)\<rparr>)" by (simp add: st3_def update_conv')
  have sa: "acc_Address sa = s" using accounts_okD(1) [OF assms(1), of s sa] assms(6) by simp
  have "unat (sb - amount) = unat sb - unat amount" using assms(8) by (simp add: unat_sub_le word_le_nat_alt)
  then have ok3: "accounts_ok (v ++ map_of st3)" "balances (v ++ map_of st3) = paid"
    using assms(1,7,10) sa by (simp_all add: m3 accounts_ok_upd balances_upd balance_in_def)
  have s3: "map_of st3 r = Some (if r = s then sa\<lparr>acc_Balance := Some (sb - amount)\<rparr> else ra)"
    using assms(9) by (simp add: st3_def update_conv')
  then obtain rc rb where rc: "map_of st3 r = Some rc" "acc_Balance rc = Some rb" "acc_Address rc = r"
    using accounts_okD [OF ok3(1), of r] by (metis map_add_find_right)
  define st4 where "st4 = AList.update r (rc\<lparr>acc_Balance := Some (rb + amount)\<rparr>) st3"
  have m4: "v ++ map_of st4 = (v ++ map_of st3)(r \<mapsto> rc\<lparr>acc_Balance := Some (rb + amount)\<rparr>)" by (simp add: st4_def update_conv')
  have pr: "paid r = unat rb" using fun_cong [OF ok3(2), of r] rc by (simp add: balances_def balance_in_def)
  then have "unat (rb + amount) = unat rb + unat amount" using assms(11) by (intro unat_add_bounded) simp
  then have ok4: "accounts_ok (v ++ map_of st4)" "balances (v ++ map_of st4) = paid(r := paid r + unat amount)"
    using ok3 rc pr by (simp_all add: m4 accounts_ok_upd balances_upd balance_in_def)
  obtain sc where sc: "map_of st4 s = Some sc" by (cases "s = r") (simp_all add: st4_def st3_def update_conv')
  then have sc': "acc_Address sc = s" "acc_Balance sc \<noteq> None" "balances (v ++ map_of st4) s = balance_in (Some sc)"
    using accounts_okD [OF ok4(1), of s sc] by (auto simp: balances_def)
  let ?st5 = "AList.update s (sc\<lparr>acc_Nonce := nonce\<rparr>) st4"
  have "v ++ map_of ?st5 = (v ++ map_of st4)(s \<mapsto> sc\<lparr>acc_Nonce := nonce\<rparr>)" by (simp add: update_conv')
  moreover have "balance_in (Some (sc\<lparr>acc_Nonce := nonce\<rparr>)) = balance_in (Some sc)" by (simp add: balance_in_def)
  ultimately have "accounts_ok (v ++ map_of ?st5)" "balances (v ++ map_of ?st5) = paid(r := paid r + unat amount)"
    using ok4 sc' by (simp_all add: accounts_ok_upd balances_upd fun_upd_idem)
  moreover have "move_amount s r amount nonce st = Returns ?st5"
    using assms(6,7) rc sc by (simp add: move_amount_def get_account_def st3_def [symmetric] st4_def [symmetric] Let_def)
  moreover have "distinct (map fst ?st5)" "covers v A ?st5"
    using assms(2,3) by (auto simp: st4_def st3_def covers_def update_conv' distinct_update)
  ultimately show ?thesis by blast
qed

lemma applyTx_cases:
  assumes "accounts_ok (v ++ map_of st)" "distinct (map fst st)" "covers v A st" "tx_Sender tx \<in> A" "tx_Recipient tx \<in> A"
    and "finite (holders (balances (v ++ map_of st)))" "total_supply (balances (v ++ map_of st)) < 2 ^ 256"
  shows "\<exists>st'. (applyTx st (Some tx) = Returns st' \<and> funded tx (balances (v ++ map_of st)) \<or>
      (\<exists>e. applyTx st (Some tx) = Fails (e, st') \<and> \<not> funded tx (balances (v ++ map_of st)))) \<and>
    accounts_ok (v ++ map_of st') \<and> distinct (map fst st') \<and> covers v A st' \<and>
    balances (v ++ map_of st') = transfer tx (balances (v ++ map_of st))"
proof (cases "tx_Amount tx")
  case None
  then show ?thesis using assms by (intro exI [of _ st]) (auto simp: applyTx_def transfer_def funded_def)
next
  case (Some amount)
  define s r bal where "s = tx_Sender tx" and "r = tx_Recipient tx" and "bal = balances (v ++ map_of st)"
  define st2 where "st2 = ensure_account r (ensure_account s st)"
  note e1 = ensure_account_merged [OF assms(1,3), of s]
  note e2 = ensure_account_merged [of v "ensure_account s st" A r]
  have A: "s \<in> A" "r \<in> A" using assms(4,5) by (simp_all add: s_def r_def)
  have ok2: "accounts_ok (v ++ map_of st2)" "distinct (map fst st2)" "covers v A st2" "balances (v ++ map_of st2) = bal"
    using e1 e2 A assms(2) by (simp_all add: st2_def bal_def)
  obtain sa where sa: "map_of st2 s = Some sa" using e1(4) e2(5) [of s] A e1 by (auto simp: st2_def)
  obtain ra where ra: "map_of st2 r = Some ra" using e2(4) A e1 by (auto simp: st2_def)
  obtain sb where sb: "acc_Balance sa = Some sb"
    using accounts_okD(2) [OF ok2(1), of s sa] sa by auto
  have bs: "bal s = unat sb" using fun_cong [OF ok2(4), of s] sa sb by (simp add: balances_def balance_in_def)
  have get: "get_account st2 s = sa" using sa by (simp add: get_account_def)
  show ?thesis
  proof (cases "sb < amount")
    case True
    then have "applyTx st (Some tx) = Fails (''insufficient balance'', st2)" "\<not> funded tx bal"
      using Some get sb bs by (simp_all add: applyTx_def Let_def st2_def s_def r_def funded_def word_less_nat_alt)
    then show ?thesis using ok2 by (intro exI [of _ st2]) (auto simp: bal_def transfer_def)
  next
    case False
    then have amt: "unat amount \<le> unat sb" by (simp add: word_le_nat_alt not_less)
    then have fd: "funded tx bal" using Some bs by (simp add: funded_def s_def)
    define paid where "paid = bal(s := unat sb - unat amount)"
    have t: "transfer tx bal = paid(r := paid r + unat amount)"
      using fd Some bs by (simp add: transfer_def paid_def s_def r_def Let_def)
    have "transfer tx bal r < 2 ^ 256"
      unfolding bal_def by (rule order_le_less_trans [OF transfer_le_supply [OF assms(6)] assms(7)])
    then have "paid r + unat amount < 2 ^ 256" unfolding t by simp
    then obtain st' where "move_amount s r amount (tx_Nonce tx) st2 = (Returns st' :: (string \<times> (string \<times> Account) list, _) outcome)" "accounts_ok (v ++ map_of st')" "distinct (map fst st')"
        "covers v A st'" "balances (v ++ map_of st') = transfer tx bal"
      using move_amount_ok [OF ok2(1-3) A sa sb amt ra, of paid "tx_Nonce tx"] unfolding t ok2(4) paid_def [symmetric] by blast
    moreover from this have "applyTx st (Some tx) = Returns st'"
      using Some get sb False by (simp add: applyTx_def Let_def st2_def s_def r_def)
    ultimately show ?thesis using fd by (auto simp: bal_def)
  qed
qed

section \<open>Applying the transactions of a block\<close>

definition is_transfer :: "Transaction \<Rightarrow> bool" where
  "is_transfer tx \<longleftrightarrow> tx_Type tx \<noteq> TxTypeUserContent"

text \<open>The metadata is filed under its hash; the accounts are as before.\<close>

definition metas_ok :: "(string \<times> TransactionMeta) list \<Rightarrow> bool" where
  "metas_ok metas \<longleftrightarrow> distinct (map fst metas) \<and> (\<forall>h md. map_of metas h = Some md \<longrightarrow> meta_TxHash md = h)"

definition pass_ok :: "(string \<rightharpoonup> Account) \<Rightarrow> string set \<Rightarrow> Pass \<Rightarrow> bool" where
  "pass_ok v A ps \<longleftrightarrow> accounts_ok (v ++ map_of (ps_state ps)) \<and> distinct (map fst (ps_state ps)) \<and> covers v A (ps_state ps) \<and> metas_ok (ps_metas ps)"

abbreviation "pass_balances v ps \<equiv> balances (v ++ map_of (ps_state ps))"

lemma map_of_set_meta:
  "map_of (set_meta c b tx err metas) = (map_of metas)(c_hash c (Some tx) \<mapsto>
     (case err of None \<Rightarrow> block_meta c b tx TxStatusSuccess '''' | Some e \<Rightarrow> block_meta c b tx TxStatusFailed e))"
  by (simp add: set_meta_def update_conv')

lemma set_meta_ok [simp]: "metas_ok metas \<Longrightarrow> metas_ok (set_meta c b tx err metas)"
  unfolding metas_ok_def map_of_set_meta
  by (auto simp: set_meta_def distinct_update block_meta_def NewTxMeta_def split: option.splits)

text \<open>A transaction never stops the block; a transfer acts as the reference says and gets the status that fits.\<close>

lemma apply_block_tx_ok:
  assumes "pass_ok v A ps" "is_transfer tx \<Longrightarrow> tx_Sender tx \<in> A \<and> tx_Recipient tx \<in> A"
    and "finite (holders (pass_balances v ps))" "total_supply (pass_balances v ps) < 2 ^ 256"
  shows "\<exists>ps'. apply_block_tx lib c b tx ps = Returns ps' \<and> pass_ok v A ps' \<and>
    pass_balances v ps' = (if is_transfer tx then transfer tx (pass_balances v ps) else pass_balances v ps) \<and>
    (\<forall>h. h \<noteq> c_hash c (Some tx) \<longrightarrow> map_of (ps_metas ps') h = map_of (ps_metas ps) h) \<and>
    (is_transfer tx \<longrightarrow> ps_contents ps' = ps_contents ps \<and> (\<exists>e. map_of (ps_metas ps') (c_hash c (Some tx)) =
       Some (if funded tx (pass_balances v ps) then block_meta c b tx TxStatusSuccess '''' else block_meta c b tx TxStatusFailed e)))"
proof (cases "is_transfer tx")
  case False
  then show ?thesis
    using assms(1)
    by (cases "lib_parse lib (tx_ExtraInfo tx)"; cases "fst (lib_parse lib (tx_ExtraInfo tx))")
      (auto simp: apply_block_tx_def is_transfer_def collect_content_def pass_ok_def map_of_set_meta)
next
  case True
  obtain st' where st': "applyTx (ps_state ps) (Some tx) = Returns st' \<and> funded tx (pass_balances v ps) \<or>
      (\<exists>e. applyTx (ps_state ps) (Some tx) = Fails (e, st') \<and> \<not> funded tx (pass_balances v ps))"
      "accounts_ok (v ++ map_of st')" "distinct (map fst st')" "covers v A st'"
      "balances (v ++ map_of st') = transfer tx (pass_balances v ps)"
    using applyTx_cases [of v "ps_state ps" A tx] assms True by (auto simp: pass_ok_def)
  from st'(1) show ?thesis
  proof
    assume "applyTx (ps_state ps) (Some tx) = Returns st' \<and> funded tx (pass_balances v ps)"
    then show ?thesis
      using True st'(2-5) assms(1)
      by (auto simp: apply_block_tx_def is_transfer_def apply_transfer_def pass_ok_def map_of_set_meta)
  next
    assume "\<exists>e. applyTx (ps_state ps) (Some tx) = Fails (e, st') \<and> \<not> funded tx (pass_balances v ps)"
    then show ?thesis
      using True st'(2-5) assms(1)
      by (auto simp: apply_block_tx_def is_transfer_def apply_transfer_def pass_ok_def map_of_set_meta)
  qed
qed

lemma apply_block_txs_ok:
  assumes "pass_ok v A ps" "\<forall>tx \<in> set txs. is_transfer tx \<longrightarrow> tx_Sender tx \<in> A \<and> tx_Recipient tx \<in> A"
    and "finite (holders (pass_balances v ps))" "total_supply (pass_balances v ps) < 2 ^ 256"
    and "apply_block_txs lib c rc isListener b txs ps tro = Returns (ps', tro')"
  shows "pass_ok v A ps' \<and> pass_balances v ps' = fold transfer (filter is_transfer txs) (pass_balances v ps)"
  using assms
proof (induction txs arbitrary: ps tro)
  case (Cons tx txs)
  obtain ps1 where ps1: "apply_block_tx lib c b tx ps = Returns ps1" "pass_ok v A ps1"
      "pass_balances v ps1 = (if is_transfer tx then transfer tx (pass_balances v ps) else pass_balances v ps)"
    using apply_block_tx_ok [OF Cons.prems(1) _ Cons.prems(3,4), of tx lib c b] Cons.prems(2) by auto
  obtain tro1 where "apply_block_txs lib c rc isListener b txs ps1 tro1 = Returns (ps', tro')"
    using Cons.prems(5) ps1(1) by (auto split: outcome.splits)
  moreover have "finite (holders (pass_balances v ps1))" "total_supply (pass_balances v ps1) < 2 ^ 256"
    using Cons.prems(3,4) transfer_supply by (simp_all add: ps1(3))
  ultimately show ?case using Cons.IH [OF ps1(2)] Cons.prems(2) by (simp add: ps1(3))
qed simp

section \<open>Finalizing a block\<close>

lemma add_new_set [simp]: "set (add_new x xs) = insert x (set xs)"
  by (auto simp: add_new_def)

lemma transfer_addrs_fold:
  "set (fold (\<lambda>tx as. if tx_Type tx = TxTypeUserContent then as else add_new (tx_Recipient tx) (add_new (tx_Sender tx) as)) txs as) =
     set as \<union> {a. \<exists>tx \<in> set txs. is_transfer tx \<and> (a = tx_Sender tx \<or> a = tx_Recipient tx)}"
  by (induction txs arbitrary: as) (auto simp: is_transfer_def)

lemma transfer_addrs_cover: "tx \<in> set txs \<Longrightarrow> is_transfer tx \<Longrightarrow> tx_Sender tx \<in> set (transfer_addrs txs) \<and> tx_Recipient tx \<in> set (transfer_addrs txs)"
  by (auto simp: transfer_addrs_def transfer_addrs_fold)

lemma publish_keeps [simp]:
  "bs_db (publish r evs s) = bs_db s" "bs_latestFinalized (publish r evs s) = bs_latestFinalized s"
  by (simp_all add: publish_def)

text \<open>Validation files metadata under its hash and keeps hashes in the table of latest versions.\<close>

lemma validateUserContent_latest:
  assumes "validateUserContent lib H tx related latest = (err, latest')"
  shows "latest' = latest \<or> (\<exists>root. latest' = AList.update root (H (Some tx)) latest)"
  using assms by (auto simp: validateUserContent_def Let_def split: if_splits option.splits)

lemma validate_contents_ok:
  assumes "metas_ok metas" "distinct (map fst latest)" "\<forall>r h. map_of latest r = Some h \<longrightarrow> (\<exists>bs. h = hexEncode bs)" "\<forall>tx. \<exists>bs. c_hash c tx = hexEncode bs"
    and "validate_contents lib c b related cs metas latest = (metas', latest')"
  shows "metas_ok metas' \<and> distinct (map fst latest') \<and> (\<forall>r h. map_of latest' r = Some h \<longrightarrow> (\<exists>bs. h = hexEncode bs)) \<and>
    (\<forall>h. (\<forall>tx \<in> set cs. c_hash c (Some tx) \<noteq> h) \<longrightarrow> map_of metas' h = map_of metas h)"
  using assms(1-3,5)
proof (induction cs arbitrary: metas latest)
  case (Cons tx cs)
  obtain err latest1 where v: "validateUserContent lib (c_hash c) tx related latest = (err, latest1)" by fastforce
  have "distinct (map fst latest1)" "\<forall>r h. map_of latest1 r = Some h \<longrightarrow> (\<exists>bs. h = hexEncode bs)"
    using validateUserContent_latest [OF v] Cons.prems(2,3) assms(4)
    by (auto simp: distinct_update update_conv' split: if_splits)
  then show ?case
    using Cons.IH [of "set_meta c b tx err metas" latest1] Cons.prems(1,4) by (auto simp: v map_of_set_meta)
qed auto

definition block_txs :: "Codecs \<Rightarrow> (string \<rightharpoonup> string) \<Rightarrow> Block \<Rightarrow> Transaction list" where
  "block_txs c m b = List.map_filter (tx_view (c_tx c) m) (block_tx_hashes b)"

lemma Ledger_FinalizeBlock_invalid: "b_InvalidPoH b \<Longrightarrow> Ledger_FinalizeBlock p lib c rc isListener b l = Returns (None, l)"
  by (simp add: Ledger_FinalizeBlock_def)

context database_provider
begin

lemma Ledger_FinalizeBlock_failed:
  assumes "Ledger_FinalizeBlock p lib c rc isListener b l = Returns (Some e, l')"
  shows "contents (bs_db (lg_store l')) = contents (bs_db (lg_store l))"
  using assms
  by (auto simp: Ledger_FinalizeBlock_def finish_block_def Let_def split: if_splits sum.splits outcome.splits prod.splits option.splits
      dest!: FinalizeBlock_error)

lemma Ledger_FinalizeBlock_done:
  assumes "Ledger_FinalizeBlock p lib c rc isListener b l = Returns (None, l')" "\<not> b_InvalidPoH b"
  shows "\<exists>txs state ps tro relatedTxs latest metas latest' s'.
    txs = block_txs c (contents (bs_db (lg_store l))) b \<and> distinct (map fst state) \<and>
    map_of state = account_view (c_acc c) (contents (bs_db (lg_store l))) |` set (transfer_addrs txs) \<and>
    apply_block_txs lib c rc isListener b txs \<lparr>ps_state = state, ps_metas = [], ps_contents = [], ps_related = [], ps_roots = []\<rparr> (lg_tracker l) = Returns (ps, tro) \<and>
    relatedTxs = List.map_filter (tx_view (c_tx c) (contents (bs_db (lg_store l)))) (ps_related ps) \<and>
    distinct (map fst latest) \<and> map_of latest = content_view (contents (bs_db (lg_store l))) |` set (ps_roots ps) \<and>
    validate_contents lib c b (fold (\<lambda>tx. AList.update (c_hash c (Some tx)) tx) relatedTxs []) (ps_contents ps) (ps_metas ps) latest = (metas, latest') \<and>
    FinalizeBlock p c b metas (ps_state ps) latest' (lg_store l) = (None, s') \<and> bs_db (lg_store l') = bs_db s'"
  using assms
  by (auto simp: Ledger_FinalizeBlock_def finish_block_def block_txs_def Let_def split: if_splits sum.splits outcome.splits prod.splits option.splits
      dest!: Tx_GetBatch_sound Account_GetBatch_sound contents_batch_sound) blast

end

lemma pass_start:
  assumes "accounts_ok v" "distinct (map fst state)" "map_of state = v |` A"
  shows "pass_ok v A \<lparr>ps_state = state, ps_metas = [], ps_contents = [], ps_related = [], ps_roots = []\<rparr>" "v ++ map_of state = v"
proof -
  show m: "v ++ map_of state = v" unfolding assms(3) by (rule ext) (auto simp: restrict_map_def map_add_def split: option.splits)
  show "pass_ok v A \<lparr>ps_state = state, ps_metas = [], ps_contents = [], ps_related = [], ps_roots = []\<rparr>"
  proof -
    have "covers v A state" by (simp add: covers_def assms(3))
    then show ?thesis using assms(1,2) m by (simp add: pass_ok_def metas_ok_def)
  qed
qed

lemma accounts_ok_entries:
  assumes "accounts_ok (v ++ map_of st)" "distinct (map fst st)"
  shows "\<forall>(a, acc) \<in> set st. acc_Address acc = a"
  using assms(2) accounts_okD(1) [OF assms(1)] by (auto simp: map_add_find_right)

lemma metas_ok_entries: "metas_ok metas \<Longrightarrow> \<forall>(h, md) \<in> set metas. meta_TxHash md = h"
  by (auto simp: metas_ok_def)

text \<open>
  What a chain of blocks relies on between finalizations: accounts are well formed, balances are
  finitely many, and all money together fits into an amount.
\<close>

definition ledger_ok :: "Codecs \<Rightarrow> (string \<rightharpoonup> string) \<Rightarrow> bool" where
  "ledger_ok c m \<longleftrightarrow> accounts_ok (account_view (c_acc c) m) \<and> finite (holders (balances (account_view (c_acc c) m))) \<and>
     total_supply (balances (account_view (c_acc c) m)) < 2 ^ 256"

definition hex_hashes :: "Codecs \<Rightarrow> bool" where
  "hex_hashes c \<longleftrightarrow> (\<forall>tx. \<exists>bs. c_hash c tx = hexEncode bs)"

context database_provider
begin

lemma finalized_accounts:
  assumes "codecs_ok c" "hex_hashes c" "ledger_ok c (contents (bs_db (lg_store l)))"
    and "Ledger_FinalizeBlock p lib c rc isListener b l = Returns (None, l')" "\<not> b_InvalidPoH b"
  shows "\<exists>state ps tro metas latest0 latest. distinct (map fst state) \<and>
    map_of state = account_view (c_acc c) (contents (bs_db (lg_store l))) |` set (transfer_addrs (block_txs c (contents (bs_db (lg_store l))) b)) \<and>
    apply_block_txs lib c rc isListener b (block_txs c (contents (bs_db (lg_store l))) b)
      \<lparr>ps_state = state, ps_metas = [], ps_contents = [], ps_related = [], ps_roots = []\<rparr> (lg_tracker l) = Returns (ps, tro) \<and>
    pass_ok (account_view (c_acc c) (contents (bs_db (lg_store l)))) (set (transfer_addrs (block_txs c (contents (bs_db (lg_store l))) b))) ps \<and>
    pass_balances (account_view (c_acc c) (contents (bs_db (lg_store l)))) ps =
      fold transfer (filter is_transfer (block_txs c (contents (bs_db (lg_store l))) b)) (balances (account_view (c_acc c) (contents (bs_db (lg_store l))))) \<and>
    account_view (c_acc c) (contents (bs_db (lg_store l'))) = account_view (c_acc c) (contents (bs_db (lg_store l))) ++ map_of (ps_state ps) \<and>
    meta_view (c_meta c) (contents (bs_db (lg_store l'))) = meta_view (c_meta c) (contents (bs_db (lg_store l))) ++ map_of metas \<and>
    (\<forall>h. (\<forall>tx \<in> set (ps_contents ps). c_hash c (Some tx) \<noteq> h) \<longrightarrow> map_of metas h = map_of (ps_metas ps) h) \<and>
    content_view (contents (bs_db (lg_store l'))) = content_view (contents (bs_db (lg_store l))) ++ map_of latest \<and>
    tx_view (c_tx c) (contents (bs_db (lg_store l'))) = tx_view (c_tx c) (contents (bs_db (lg_store l))) \<and>
    map_of latest0 = content_view (contents (bs_db (lg_store l))) |` set (ps_roots ps) \<and>
    validate_contents lib c b (fold (\<lambda>tx. AList.update (c_hash c (Some tx)) tx) (List.map_filter (tx_view (c_tx c) (contents (bs_db (lg_store l)))) (ps_related ps)) [])
      (ps_contents ps) (ps_metas ps) latest0 = (metas, latest) \<and>
    contents (bs_db (lg_store l')) (slotToFinalizedKey (b_Slot b)) \<noteq> None"
proof -
  let ?m = "contents (bs_db (lg_store l))"
  let ?v = "account_view (c_acc c) ?m"
  define txs where "txs = block_txs c ?m b"
  from Ledger_FinalizeBlock_done [OF assms(4,5)]
  obtain state ps tro relatedTxs latest metas latest' s' where r:
      "distinct (map fst state)" "map_of state = ?v |` set (transfer_addrs txs)"
      "apply_block_txs lib c rc isListener b txs \<lparr>ps_state = state, ps_metas = [], ps_contents = [], ps_related = [], ps_roots = []\<rparr> (lg_tracker l) = Returns (ps, tro)"
      "distinct (map fst latest)" "map_of latest = content_view ?m |` set (ps_roots ps)"
      "validate_contents lib c b (fold (\<lambda>tx. AList.update (c_hash c (Some tx)) tx) relatedTxs []) (ps_contents ps) (ps_metas ps) latest = (metas, latest')"
      "FinalizeBlock p c b metas (ps_state ps) latest' (lg_store l) = (None, s')" "bs_db (lg_store l') = bs_db s'"
      "relatedTxs = List.map_filter (tx_view (c_tx c) ?m) (ps_related ps)"
    unfolding txs_def by blast
  have v: "accounts_ok ?v" "finite (holders (balances ?v))" "total_supply (balances ?v) < 2 ^ 256"
    using assms(3) by (simp_all add: ledger_ok_def)
  note start = pass_start [OF v(1) r(1,2)]
  have cover: "\<forall>tx \<in> set txs. is_transfer tx \<longrightarrow> tx_Sender tx \<in> set (transfer_addrs txs) \<and> tx_Recipient tx \<in> set (transfer_addrs txs)"
    using transfer_addrs_cover by blast
  have ps: "pass_ok ?v (set (transfer_addrs txs)) ps" "pass_balances ?v ps = fold transfer (filter is_transfer txs) (balances ?v)"
    using apply_block_txs_ok [OF start(1) cover _ _ r(3)] v(2,3) by (simp_all add: start(2))
  have pk: "accounts_ok (?v ++ map_of (ps_state ps))" "distinct (map fst (ps_state ps))" "metas_ok (ps_metas ps)"
    using ps(1) by (simp_all add: pass_ok_def)
  have "\<forall>r h. map_of latest r = Some h \<longrightarrow> (\<exists>bs. h = hexEncode bs)"
    by (auto simp: r(5) restrict_map_def content_view_def split: if_splits)
  then have vc: "metas_ok metas" "distinct (map fst latest')" "\<forall>r h. map_of latest' r = Some h \<longrightarrow> (\<exists>bs. h = hexEncode bs)"
      "\<forall>h. (\<forall>tx \<in> set (ps_contents ps). c_hash c (Some tx) \<noteq> h) \<longrightarrow> map_of metas h = map_of (ps_metas ps) h"
    using validate_contents_ok [OF pk(3) r(4) _ _ r(6)] assms(2) by (auto simp: hex_hashes_def)
  then have hex: "distinct (map fst metas)" "\<forall>h \<in> snd ` set latest'. \<exists>bs. h = hexEncode bs"
    by (auto simp: metas_ok_def)
  note views = FinalizeBlock_views [OF assms(1) r(7) pk(2) accounts_ok_entries [OF pk(1,2)] hex(1) metas_ok_entries [OF vc(1)] vc(2) hex(2)]
  show ?thesis
    using r(1-3,5) r(6) [unfolded r(9)] ps views vc(4) unfolding r(8) txs_def by blast
qed

lemma finalize_keeps_ledger:
  assumes "codecs_ok c" "hex_hashes c" "ledger_ok c (contents (bs_db (lg_store l)))"
    and "Ledger_FinalizeBlock p lib c rc isListener b l = Returns (e, l')"
  shows "ledger_ok c (contents (bs_db (lg_store l'))) \<and>
    total_supply (balances (account_view (c_acc c) (contents (bs_db (lg_store l'))))) =
      total_supply (balances (account_view (c_acc c) (contents (bs_db (lg_store l)))))"
proof -
  consider "contents (bs_db (lg_store l')) = contents (bs_db (lg_store l))" | "e = None" "\<not> b_InvalidPoH b"
    using assms(4) Ledger_FinalizeBlock_failed [of lib c rc isListener b l _ l'] Ledger_FinalizeBlock_invalid [of b p lib c rc isListener l]
    by (cases e; cases "b_InvalidPoH b") auto
  then show ?thesis
  proof cases
    case 1
    then show ?thesis using assms(3) by simp
  next
    case 2
    let ?v = "account_view (c_acc c) (contents (bs_db (lg_store l)))"
    obtain ps :: Pass and txs where "account_view (c_acc c) (contents (bs_db (lg_store l'))) = ?v ++ map_of (ps_state ps)"
        "accounts_ok (?v ++ map_of (ps_state ps))" "pass_balances ?v ps = fold transfer txs (balances ?v)"
      using finalized_accounts [OF assms(1-3) assms(4) [unfolded 2(1)] 2(2)] unfolding pass_ok_def by blast
    then show ?thesis
      using assms(3) transfers_supply [of "balances ?v" txs] by (simp add: ledger_ok_def)
  qed
qed

end

section \<open>Properties of the ledger\<close>

text \<open>
  C1: Money is neither created nor lost: whatever a block contains and however its finalization ends short of
  a panic, the sum of all balances in the database is the same afterwards, accounts stay filed under
  their addresses with a balance, and the bound that excludes wrap-around of the 256 bit amounts still holds.
\<close>

theorem supply_conserved:
  assumes "database_provider p contents" "codecs_ok c" "hex_hashes c" "ledger_ok c (contents (bs_db (lg_store l)))"
    and "Ledger_FinalizeBlock p lib c rc isListener b l = Returns (e, l')"
  shows "ledger_ok c (contents (bs_db (lg_store l'))) \<and>
    total_supply (balances (account_view (c_acc c) (contents (bs_db (lg_store l'))))) =
      total_supply (balances (account_view (c_acc c) (contents (bs_db (lg_store l)))))"
  by (rule database_provider.finalize_keeps_ledger [OF assms])

text \<open>
  C2: A block that is finalized acts on the stored balances as its transfers do one after another on
  numbers: each moves its amount if the sender then has it, and changes nothing otherwise. The slot is marked
  as finalized, and no transaction is rewritten.
\<close>

theorem FinalizeBlock_applies_transfers:
  assumes "database_provider p contents" "codecs_ok c" "hex_hashes c" "ledger_ok c (contents (bs_db (lg_store l)))"
    and "Ledger_FinalizeBlock p lib c rc isListener b l = Returns (None, l')" "\<not> b_InvalidPoH b"
  shows "balances (account_view (c_acc c) (contents (bs_db (lg_store l')))) =
      fold transfer (filter is_transfer (block_txs c (contents (bs_db (lg_store l))) b)) (balances (account_view (c_acc c) (contents (bs_db (lg_store l))))) \<and>
    contents (bs_db (lg_store l')) (slotToFinalizedKey (b_Slot b)) \<noteq> None \<and>
    tx_view (c_tx c) (contents (bs_db (lg_store l'))) = tx_view (c_tx c) (contents (bs_db (lg_store l)))"
  using database_provider.finalized_accounts [OF assms] by auto

text \<open>The status a transaction gets is decided by the balances when its turn comes.\<close>

lemma apply_block_txs_contents:
  assumes "apply_block_txs lib c rc isListener b txs ps tro = Returns (ps', tro')"
  shows "set (ps_contents ps') \<subseteq> set (ps_contents ps) \<union> set (filter (\<lambda>tx. \<not> is_transfer tx) txs)"
  using assms
proof (induction txs arbitrary: ps tro)
  case (Cons tx txs)
  then obtain ps1 tro1 where s: "apply_block_tx lib c b tx ps = Returns ps1"
      "apply_block_txs lib c rc isListener b txs ps1 tro1 = Returns (ps', tro')"
    by (auto split: outcome.splits)
  have "set (ps_contents ps1) \<subseteq> set (ps_contents ps) \<union> (if is_transfer tx then {} else {tx})"
    using s(1) by (auto simp: apply_block_tx_def apply_transfer_def collect_content_def is_transfer_def split: if_splits outcome.splits option.splits prod.splits)
  then show ?case using Cons.IH [OF s(2)] by auto
qed simp

lemma apply_block_txs_other_metas:
  assumes "apply_block_txs lib c rc isListener b txs ps tro = Returns (ps', tro')" "\<forall>tx \<in> set txs. c_hash c (Some tx) \<noteq> h"
  shows "map_of (ps_metas ps') h = map_of (ps_metas ps) h"
  using assms
proof (induction txs arbitrary: ps tro)
  case (Cons tx txs)
  then obtain ps1 tro1 where s: "apply_block_tx lib c b tx ps = Returns ps1"
      "apply_block_txs lib c rc isListener b txs ps1 tro1 = Returns (ps', tro')"
    by (auto split: outcome.splits)
  have "map_of (ps_metas ps1) h = map_of (ps_metas ps) h"
    using s(1) Cons.prems(2)
    by (auto simp: apply_block_tx_def apply_transfer_def collect_content_def map_of_set_meta split: if_splits outcome.splits option.splits prod.splits)
  then show ?case using Cons.IH [OF s(2)] Cons.prems(2) by simp
qed simp

lemma apply_block_txs_append:
  assumes "apply_block_txs lib c rc isListener b (xs @ ys) ps tro = Returns r"
  shows "\<exists>ps1 tro1. apply_block_txs lib c rc isListener b xs ps tro = Returns (ps1, tro1) \<and>
    apply_block_txs lib c rc isListener b ys ps1 tro1 = Returns r"
  using assms by (induction xs arbitrary: ps tro) (auto split: outcome.splits)

lemma apply_block_txs_status:
  assumes "pass_ok v A ps" "\<forall>t \<in> set (pre @ tx # post). is_transfer t \<longrightarrow> tx_Sender t \<in> A \<and> tx_Recipient t \<in> A"
    and "finite (holders (pass_balances v ps))" "total_supply (pass_balances v ps) < 2 ^ 256"
    and "apply_block_txs lib c rc isListener b (pre @ tx # post) ps tro = Returns (ps', tro')"
    and "is_transfer tx" "\<forall>t \<in> set post. c_hash c (Some t) \<noteq> c_hash c (Some tx)"
  shows "\<exists>e. map_of (ps_metas ps') (c_hash c (Some tx)) =
    Some (if funded tx (fold transfer (filter is_transfer pre) (pass_balances v ps)) then block_meta c b tx TxStatusSuccess '''' else block_meta c b tx TxStatusFailed e)"
proof -
  obtain ps1 tro1 where s1: "apply_block_txs lib c rc isListener b pre ps tro = Returns (ps1, tro1)"
      "apply_block_txs lib c rc isListener b (tx # post) ps1 tro1 = Returns (ps', tro')"
    using apply_block_txs_append [OF assms(5)] by blast
  have ps1: "pass_ok v A ps1" "pass_balances v ps1 = fold transfer (filter is_transfer pre) (pass_balances v ps)"
    using apply_block_txs_ok [OF assms(1) _ assms(3,4) s1(1)] assms(2) by auto
  have "finite (holders (pass_balances v ps1))" "total_supply (pass_balances v ps1) < 2 ^ 256"
    using transfers_supply [OF assms(3)] assms(4) by (simp_all add: ps1(2))
  then obtain ps2 e where ps2: "apply_block_tx lib c b tx ps1 = Returns ps2" "map_of (ps_metas ps2) (c_hash c (Some tx)) =
      Some (if funded tx (pass_balances v ps1) then block_meta c b tx TxStatusSuccess '''' else block_meta c b tx TxStatusFailed e)"
    using apply_block_tx_ok [OF ps1(1), of tx lib c b] assms(2,6) by auto
  obtain tro2 where "apply_block_txs lib c rc isListener b post ps2 tro2 = Returns (ps', tro')"
    using s1(2) ps2(1) by (auto split: outcome.splits)
  from apply_block_txs_other_metas [OF this assms(7)] show ?thesis using ps2(2) unfolding ps1(2) by metis
qed


text \<open>Tracked transactions have senders long enough for the log line.\<close>

definition senders_ok :: "'c Tracker option \<Rightarrow> bool" where
  "senders_ok tro \<longleftrightarrow> (\<forall>tr h tx. tro = Some tr \<longrightarrow> map_of (tk_processingTxs tr) h = Some tx \<longrightarrow> 8 \<le> length (tx_Sender tx))"

lemma untrack_ok: "senders_ok tro \<Longrightarrow> \<exists>tro'. untrack rc isListener h tro = Returns tro' \<and> senders_ok tro'"
  by (cases tro; cases "map_of (tk_processingTxs (the tro)) h")
    (auto simp: untrack_def senders_ok_def RemoveTransaction_def log_sender_def delete_conv' split: if_splits)

lemma apply_block_txs_returns:
  assumes "pass_ok v A ps" "\<forall>tx \<in> set txs. is_transfer tx \<longrightarrow> tx_Sender tx \<in> A \<and> tx_Recipient tx \<in> A"
    and "finite (holders (pass_balances v ps))" "total_supply (pass_balances v ps) < 2 ^ 256" "senders_ok tro"
  shows "\<exists>ps' tro'. apply_block_txs lib c rc isListener b txs ps tro = Returns (ps', tro')"
  using assms
proof (induction txs arbitrary: ps tro)
  case (Cons tx txs)
  obtain ps1 where ps1: "apply_block_tx lib c b tx ps = Returns ps1" "pass_ok v A ps1"
      "pass_balances v ps1 = (if is_transfer tx then transfer tx (pass_balances v ps) else pass_balances v ps)"
    using apply_block_tx_ok [OF Cons.prems(1) _ Cons.prems(3,4), of tx lib c b] Cons.prems(2) by auto
  obtain tro1 where "untrack rc isListener (c_hash c (Some tx)) tro = Returns tro1" "senders_ok tro1"
    using untrack_ok [OF Cons.prems(5)] by blast
  moreover have "finite (holders (pass_balances v ps1))" "total_supply (pass_balances v ps1) < 2 ^ 256"
    using Cons.prems(3,4) transfer_supply by (simp_all add: ps1(3))
  ultimately show ?case using Cons.IH [OF ps1(2), of tro1] Cons.prems(2) ps1(1) by auto
qed simp

context database_provider
begin

lemma Ledger_FinalizeBlock_returns:
  assumes "ledger_ok c (contents (bs_db (lg_store l)))" "senders_ok (lg_tracker l)"
  shows "\<exists>e l'. Ledger_FinalizeBlock p lib c rc isListener b l = Returns (e, l')"
proof -
  let ?v = "account_view (c_acc c) (contents (bs_db (lg_store l)))"
  have v: "accounts_ok ?v" "finite (holders (balances ?v))" "total_supply (balances ?v) < 2 ^ 256"
    using assms(1) by (simp_all add: ledger_ok_def)
  have "\<exists>ps tro. apply_block_txs lib c rc isListener b txs \<lparr>ps_state = state, ps_metas = [], ps_contents = [], ps_related = [], ps_roots = []\<rparr> (lg_tracker l) = Returns (ps, tro)"
    if "Account_GetBatch p (c_acc c) (bs_db (lg_store l)) (transfer_addrs txs) = Inr state" for txs state
  proof -
    note start = pass_start [OF v(1) conjunct1 [OF Account_GetBatch_sound [OF that]] conjunct2 [OF Account_GetBatch_sound [OF that]]]
    show ?thesis
      using apply_block_txs_returns [OF start(1) _ _ _ assms(2)] transfer_addrs_cover v(2,3) by (simp add: start(2))
  qed
  then show ?thesis
    by (fastforce simp: Ledger_FinalizeBlock_def Let_def split: sum.splits outcome.splits prod.splits)
qed

end


section \<open>Versions of user content\<close>

text \<open>
  Two stored transactions belong to the same thread of user content, and every latest version
  belongs to the thread of its root.
\<close>

definition same_thread :: "(string \<rightharpoonup> Transaction) \<Rightarrow> string \<Rightarrow> string \<Rightarrow> bool" where
  "same_thread t h h' \<longleftrightarrow> (\<exists>tx tx'. t h = Some tx \<and> t h' = Some tx' \<and> tx_Type tx = TxTypeUserContent \<and> tx_Type tx' = TxTypeUserContent \<and>
     tx_Sender tx = tx_Sender tx' \<and> tx_Recipient tx = tx_Recipient tx')"

definition threads_ok :: "(string \<rightharpoonup> Transaction) \<Rightarrow> (string \<rightharpoonup> string) \<Rightarrow> bool" where
  "threads_ok t latest \<longleftrightarrow> (\<forall>root h. latest root = Some h \<longrightarrow> same_thread t root h)"

text \<open>Transactions are stored under their hash.\<close>

definition hashed_txs :: "Codecs \<Rightarrow> (string \<rightharpoonup> Transaction) \<Rightarrow> bool" where
  "hashed_txs c t \<longleftrightarrow> (\<forall>h tx. t h = Some tx \<longrightarrow> c_hash c (Some tx) = h)"

lemma related_lookup:
  assumes "hashed_txs c t" "map_of (fold (\<lambda>tx. AList.update (c_hash c (Some tx)) tx) (List.map_filter t hs) m) h = Some tx"
    and "\<And>h tx. map_of m h = Some tx \<Longrightarrow> t h = Some tx"
  shows "t h = Some tx"
  using assms(2,3)
proof (induction hs arbitrary: m)
  case (Cons k hs)
  show ?case
  proof (cases "t k")
    case None
    then show ?thesis using Cons by (simp add: List.map_filter_simps)
  next
    case (Some x)
    then have "c_hash c (Some x) = k" using assms(1) by (simp add: hashed_txs_def)
    then show ?thesis
      using Cons.IH [of "AList.update k x m"] Cons.prems Some
      by (auto simp: List.map_filter_simps update_conv' split: if_splits)
  qed
qed (simp add: List.map_filter_simps)

lemma validateUserContent_threads:
  assumes "validateUserContent lib H tx related latest = (err, latest')" "threads_ok t (map_of latest)"
    and "t (H (Some tx)) = Some tx" "tx_Type tx = TxTypeUserContent" "\<And>h x. map_of related h = Some x \<Longrightarrow> t h = Some x"
  shows "threads_ok t (map_of latest')"
proof -
  consider "latest' = latest" | "latest' = AList.update (H (Some tx)) (H (Some tx)) latest"
    | root parent x where "latest' = AList.update root (H (Some tx)) latest" "map_of latest root = Some parent" "map_of related parent = Some x"
      "tx_Sender x = tx_Sender tx" "tx_Recipient x = tx_Recipient tx"
    using assms(1) by (auto simp: validateUserContent_def Let_def split: if_splits option.splits)
  then show ?thesis
  proof cases
    case 1
    then show ?thesis using assms(2) by simp
  next
    case 2
    then show ?thesis using assms(2-4) by (auto simp: threads_ok_def same_thread_def update_conv')
  next
    case 3
    then have "same_thread t root parent" "t parent = Some x" using assms(2,5) by (auto simp: threads_ok_def)
    then have "same_thread t root (H (Some tx))" using 3(4,5) assms(3,4) by (auto simp: same_thread_def)
    then show ?thesis using assms(2) 3(1) by (auto simp: threads_ok_def update_conv')
  qed
qed

lemma validate_contents_threads:
  assumes "validate_contents lib c b related cs metas latest = (metas', latest')" "threads_ok t (map_of latest)"
    and "\<forall>tx \<in> set cs. t (c_hash c (Some tx)) = Some tx \<and> tx_Type tx = TxTypeUserContent"
    and "\<And>h x. map_of related h = Some x \<Longrightarrow> t h = Some x"
  shows "threads_ok t (map_of latest')"
  using assms(1-3)
proof (induction cs arbitrary: metas latest)
  case (Cons tx cs)
  obtain err latest1 where v: "validateUserContent lib (c_hash c) tx related latest = (err, latest1)" by fastforce
  have "threads_ok t (map_of latest1)"
    using validateUserContent_threads [OF v Cons.prems(2) _ _ assms(4)] Cons.prems(3) by auto
  then show ?case using Cons.IH [of "set_meta c b tx err metas" latest1] Cons.prems(1,3) by (simp add: v)
qed simp


section \<open>A concrete ledger\<close>

text \<open>
  Alice has 9 and a block of slot 7 holds a transfer of 5 from Alice to Bob.
\<close>

definition paid_alice :: Account where
  "paid_alice = \<lparr>acc_Address = ''alice'', acc_Balance = Some 4, acc_Nonce = tx_Nonce sample_tx\<rparr>"

definition paid_bob :: Account where
  "paid_bob = \<lparr>acc_Address = ''bob'', acc_Balance = Some 5, acc_Nonce = 0\<rparr>"

definition coin_codecs :: Codecs where
  "coin_codecs = demo_codecs\<lparr>c_acc := table_codec [demo_account, paid_alice, paid_bob]\<rparr>"

definition coin_block :: Block where
  "coin_block = BroadcastedBlockToBlock demo_hash demo_block"

definition coin_lib :: Lib where
  "coin_lib = \<lparr>lib_parse = (\<lambda>_. (Some ''invalid'', \<lparr>uc_Type = '''', uc_Title = '''', uc_Description = '''', uc_ImageCIDs = [], uc_ParentHash = '''',
     uc_RootHash = '''', uc_ReferenceTxHashes = []\<rparr>)), lib_base58 = (\<lambda>_. None), lib_point = (\<lambda>_. False)\<rparr>"

definition coin_entries :: "(string \<times> string) list" where
  "coin_entries = [(account_key ''alice'', ''''), (tx_key ''ab'', ''''), (slotToBlockKey 7, '''')]"

definition coin_ledger :: "(MemDB, string set) Ledger" where
  "coin_ledger = \<lparr>lg_store = \<lparr>bs_db = \<lparr>writable = True, entries = coin_entries\<rparr>, bs_latestFinalized = 0, bs_latestStore = 7, bs_slotLocks = [], bs_events = []\<rparr>,
     lg_router = True, lg_tracker = None\<rparr>"

lemma coin_contents:
  "mem_contents (bs_db (lg_store coin_ledger)) = map_of coin_entries"
  by (simp add: coin_ledger_def mem_contents_def)

lemma coin_view: "account_view (c_acc coin_codecs) (map_of coin_entries) = [''alice'' \<mapsto> demo_account]"
  by (auto simp: account_view_def view_def coin_entries_def coin_codecs_def table_codec_def)

lemma coin_ledger_ok: "ledger_ok coin_codecs (mem_contents (bs_db (lg_store coin_ledger)))"
proof -
  have b: "balances [''alice'' \<mapsto> demo_account] = (\<lambda>a. if a = ''alice'' then 9 else 0)"
    by (auto simp: balances_def balance_in_def demo_account_def)
  then have h: "holders (balances [''alice'' \<mapsto> demo_account]) = {''alice''}" by (auto simp: holders_def)
  have "total_supply (balances [''alice'' \<mapsto> demo_account]) = 9" unfolding total_supply_def h by (simp add: b)
  then show ?thesis
    unfolding ledger_ok_def coin_contents coin_view h by (simp add: accounts_ok_def demo_account_def)
qed

lemma coin_codecs_ok: "codecs_ok coin_codecs" "hex_hashes coin_codecs"
proof -
  show "codecs_ok coin_codecs" by (simp add: codecs_ok_def coin_codecs_def demo_codecs_def codec_ok_table)
  have "demo_hash tx = hexEncode (case tx of None \<Rightarrow> [] | Some _ \<Rightarrow> [CHR 0xAB])" for tx
    using demo_hex(1) by (simp add: demo_hash_def hexEncode_def split: option.split)
  then show "hex_hashes coin_codecs" by (auto simp: hex_hashes_def coin_codecs_def demo_codecs_def)
qed

lemma coin_txs:
  "block_tx_hashes coin_block = [''ab'']"
  "Tx_GetBatch demo_provider (c_tx coin_codecs) (bs_db (lg_store coin_ledger)) [''ab''] = Inr [sample_tx]"
  "transfer_addrs [sample_tx] = [''alice'', ''bob'']"
  "Account_GetBatch demo_provider (c_acc coin_codecs) (bs_db (lg_store coin_ledger)) [''alice'', ''bob''] = Inr [(''alice'', demo_account)]"
     apply (simp add: block_tx_hashes_def coin_block_def BroadcastedBlockToBlock_def demo_block_def AssembleBlock_def persistent_entry_def NewTxEntry_def NewTickEntry_def demo_hash_def Let_def)
    apply (simp add: Tx_GetBatch_def LevelDBProvider_def LevelDB_GetBatch_def mem_level_def coin_contents coin_entries_def coin_codecs_def demo_codecs_def table_codec_def decode_tx_def)
   apply (simp add: transfer_addrs_def sample_tx_def add_new_def)
  apply (simp add: Account_GetBatch_def LevelDBProvider_def LevelDB_GetBatch_def mem_level_def coin_contents coin_entries_def coin_codecs_def table_codec_def)
  done

lemma coin_applied:
  "apply_block_txs coin_lib coin_codecs set_cache False coin_block [sample_tx]
     \<lparr>ps_state = [(''alice'', demo_account)], ps_metas = [], ps_contents = [], ps_related = [], ps_roots = []\<rparr> None =
   Returns (\<lparr>ps_state = [(''alice'', paid_alice), (''bob'', paid_bob)], ps_metas = [(''ab'', demo_meta TxStatusSuccess)], ps_contents = [], ps_related = [], ps_roots = []\<rparr>, None)"
  by (simp add: apply_block_tx_def apply_transfer_def applyTx_def move_amount_def ensure_account_def get_account_def zero_account_def sample_tx_def
      demo_account_def paid_alice_def paid_bob_def untrack_def set_meta_def block_meta_def demo_meta_def Let_def
      coin_codecs_def demo_codecs_def demo_hash_def HashString_def coin_block_def BroadcastedBlockToBlock_def demo_block_simps NewTxMeta_def)

lemma coin_ops:
  "\<exists>ops. finalize_ops coin_codecs coin_block [(''ab'', demo_meta TxStatusSuccess)] [(''alice'', paid_alice), (''bob'', paid_bob)] [] = Inr ops"
  by (simp add: finalize_ops_def meta_put_def account_put_def coin_codecs_def demo_codecs_def table_codec_def coin_block_def)

lemma coin_finalized:
  "\<exists>l. Ledger_FinalizeBlock demo_provider coin_lib coin_codecs set_cache False coin_block coin_ledger = Returns (None, l)"
proof -
  have slot: "b_Slot coin_block = 7" "\<not> b_InvalidPoH coin_block"
    by (simp_all add: coin_block_def BroadcastedBlockToBlock_def demo_block_def AssembleBlock_def Let_def)
  have "\<exists>s. FinalizeBlock demo_provider coin_codecs coin_block [(''ab'', demo_meta TxStatusSuccess)] [(''alice'', paid_alice), (''bob'', paid_bob)] [] (lg_store coin_ledger) = (None, s)"
    using coin_ops
    by (auto simp: FinalizeBlock_def slot HasCompleteBlock_def LevelDBProvider_def mem_level_def mem_update_def coin_ledger_def mem_contents_def coin_entries_def Let_def)
  moreover have "lg_tracker coin_ledger = None" by (simp add: coin_ledger_def)
  ultimately show ?thesis
    by (auto simp: Ledger_FinalizeBlock_def slot coin_txs coin_applied finish_block_def Tx_GetBatch_def [of _ _ _ "[]"] GetBatchLatestVersionContentHash_def Let_def
        simp del: apply_block_txs.simps)
qed

lemma coin_block_txs: "block_txs coin_codecs (mem_contents (bs_db (lg_store coin_ledger))) coin_block = [sample_tx]"
  using database_provider.Tx_GetBatch_sound [OF mem_provider coin_txs(2)] by (simp add: block_txs_def coin_txs(1))

lemma coin_balances: "balances (account_view (c_acc coin_codecs) (mem_contents (bs_db (lg_store coin_ledger)))) = (\<lambda>a. if a = ''alice'' then 9 else 0)"
  unfolding coin_contents coin_view by (auto simp: balances_def balance_in_def demo_account_def)

lemma coin_transfer: "is_transfer sample_tx" "funded sample_tx (\<lambda>a. if a = ''alice'' then 9 else 0)" "\<not> b_InvalidPoH coin_block"
  by (simp_all add: is_transfer_def sample_tx_def funded_def coin_block_def BroadcastedBlockToBlock_def demo_block_def AssembleBlock_def Let_def)

theorem supply_conserved_witness:
  "\<exists>l. Ledger_FinalizeBlock demo_provider coin_lib coin_codecs set_cache False coin_block coin_ledger = Returns (None, l) \<and>
     total_supply (balances (account_view (c_acc coin_codecs) (mem_contents (bs_db (lg_store l))))) =
     total_supply (balances (account_view (c_acc coin_codecs) (mem_contents (bs_db (lg_store coin_ledger)))))"
  using supply_conserved [OF mem_provider coin_codecs_ok coin_ledger_ok] coin_finalized by blast

theorem FinalizeBlock_applies_transfers_witness:
  "\<exists>l. Ledger_FinalizeBlock demo_provider coin_lib coin_codecs set_cache False coin_block coin_ledger = Returns (None, l) \<and>
     balances (account_view (c_acc coin_codecs) (mem_contents (bs_db (lg_store l)))) ''alice'' = 4 \<and>
     balances (account_view (c_acc coin_codecs) (mem_contents (bs_db (lg_store l)))) ''bob'' = 5"
proof -
  obtain l where l: "Ledger_FinalizeBlock demo_provider coin_lib coin_codecs set_cache False coin_block coin_ledger = Returns (None, l)"
    using coin_finalized by blast
  have "unat (the (tx_Amount sample_tx)) = 5" "tx_Sender sample_tx = ''alice''" "tx_Recipient sample_tx = ''bob''" by (simp_all add: sample_tx_def)
  then show ?thesis
    using FinalizeBlock_applies_transfers [OF mem_provider coin_codecs_ok coin_ledger_ok l coin_transfer(3)] l
    by (auto simp: coin_block_txs coin_balances coin_transfer transfer_def Let_def)
qed




section \<open>Reading balances and genesis\<close>

text \<open>Asking for the balance of an address without account panics.\<close>

lemma Balance_of_missing_panics:
  assumes "p_Get p d (account_key addr) = Inr None"
  shows "Balance p ca d addr = Panics"
  using assms by (simp add: Balance_def GetByAddr_def)

text \<open>The sender's nonce is not checked: a transfer that was applied can be applied again while there are funds.\<close>

lemma replay_accepted:
  "\<exists>st. applyTx [(''alice'', demo_account\<lparr>acc_Nonce := 7\<rparr>)] (Some sample_tx) = Returns st"
  by (simp add: applyTx_def sample_tx_def demo_account_def ensure_account_def get_account_def zero_account_def move_amount_def Let_def)

end
