(* ===== verification/Mempools.thy ===== *)
theory Mempools
  imports Ledgers
begin

text \<open>
  The mempool of \<open>mempool/mempool.go\<close> and the duplicate filter of \<open>mempool/dedup_service.go\<close>: admission of
  transactions, pulling batches in arrival order, and clean-up after a block. What the pool asks of other
  components is the record \<open>PoolEnv\<close>: hashes and signature check of transactions, accounts of the ledger, and the
  transaction store. The Go maps and sets are association lists and lists without duplicates. An operation is split
  where the code releases its lock. Logs, metrics, events and the broadcast are left out.
\<close>

section \<open>State\<close>

abbreviation "NonceWindow \<equiv> 150 :: u64"

abbreviation "MaxMemoCharacters \<equiv> 512 :: nat"

abbreviation "DedupSlotGap \<equiv> 200 :: u64"

datatype pool_error =
    InvalidAmount
  | MemoTooLong nat
  | MempoolFull
  | NonceTooLow
  | NonceTooHigh
  | InvalidSignature
  | DuplicateTransaction
  | DedupError string
  | InvalidUserContent
  | ContentFieldsMissing
  | InvalidTransactionAddress
  | Internal
  | ParentNotFound
  | RootNotFound
  | VersionConflict
  | AccountNotFound
  | InsufficientFunds

record PoolEnv =
  pe_hash :: "Transaction \<Rightarrow> string"
  pe_dedup :: "Transaction \<Rightarrow> string"
  pe_verify :: "Transaction \<Rightarrow> bool"
  pe_account :: "string \<Rightarrow> Account option res"
  pe_txs :: "string list \<Rightarrow> Transaction list res"
  pe_tx :: "string \<Rightarrow> Transaction res"
  pe_latest :: "string \<Rightarrow> string res"
  pe_lib :: Lib

record ('c, 't) Mempool =
  mp_txs :: "(string \<times> Transaction) list"
  mp_txOrder :: "string list"
  mp_dedupTxHashSet :: "string list"
  mp_senderTotalAmount :: "(string \<times> u256) list"
  mp_max :: int
  mp_netCurrentSlot :: u64
  mp_dedup :: 'c
  mp_tracker :: "'t Tracker option"

text \<open>The environment a node sets up: the ledger and the transaction store over one database.\<close>

definition node_env :: "'db DatabaseProvider \<Rightarrow> Codecs \<Rightarrow> Lib \<Rightarrow> (Transaction \<Rightarrow> string) \<Rightarrow> (Transaction \<Rightarrow> bool) \<Rightarrow> 'db \<Rightarrow> PoolEnv" where
  "node_env p c lib dedup verify d = \<lparr>pe_hash = (\<lambda>tx. c_hash c (Some tx)), pe_dedup = dedup, pe_verify = verify,
     pe_account = GetByAddr p (c_acc c) d, pe_txs = Tx_GetBatch p (c_tx c) d, pe_tx = Tx_GetByHash p (c_tx c) d,
     pe_latest = GetLatestVersionContentHash p d, pe_lib = lib\<rparr>"

section \<open>The duplicate filter\<close>

definition IsDuplicate :: "'c RemovedCache \<Rightarrow> 'c \<Rightarrow> string \<Rightarrow> bool res" where
  "IsDuplicate rc cache txDedupHash =
     (case rc_Get rc cache txDedupHash of CacheFound \<Rightarrow> Inr True | CacheMissing \<Rightarrow> Inr False | CacheError e \<Rightarrow> Inl e)"

fun Dedup_Add :: "'c RemovedCache \<Rightarrow> string list \<Rightarrow> 'c \<Rightarrow> 'c" where
  "Dedup_Add rc [] cache = cache"
| "Dedup_Add rc (txDedupHash # txDedupHashes) cache = Dedup_Add rc txDedupHashes (snd (rc_Set rc txDedupHash cache))"

text \<open>The slots read at the start: the last 200, from slot 1 on. The slots are below the largest 64 bit number.\<close>

definition load_slots :: "u64 \<Rightarrow> u64 list" where
  "load_slots latestSlot =
     (let startSlot = (if latestSlot > DedupSlotGap then latestSlot - DedupSlotGap + 1 else 1) in
      map of_nat [unat startSlot ..< unat latestSlot + 1])"

fun block_dedup_hashes :: "PoolEnv \<Rightarrow> (u64 \<times> Block) list \<Rightarrow> string list" where
  "block_dedup_hashes env [] = []"
| "block_dedup_hashes env ((slot, blk) # blocks) =
     (case pe_txs env (concat (map pe_TxHashes (b_Entries blk))) of
        Inl e \<Rightarrow> block_dedup_hashes env blocks
      | Inr txs \<Rightarrow> map (pe_dedup env) txs @ block_dedup_hashes env blocks)"

definition LoadTxHashes :: "'c RemovedCache \<Rightarrow> PoolEnv \<Rightarrow> (u64 list \<Rightarrow> (u64 \<times> Block) list res) \<Rightarrow> u64 \<Rightarrow> 'c \<Rightarrow> 'c" where
  "LoadTxHashes rc env getBlocks latestSlot cache =
     (if latestSlot < 1 then cache
      else case getBlocks (load_slots latestSlot) of
        Inl e \<Rightarrow> cache
      | Inr mapSlotBlock \<Rightarrow> Dedup_Add rc (block_dedup_hashes env mapSlotBlock) cache)"

section \<open>Admission\<close>

definition validateNonce1 :: "u64 \<Rightarrow> Transaction \<Rightarrow> pool_error option" where
  "validateNonce1 netCurrentSlot tx =
     (let minNonce = (if netCurrentSlot > NonceWindow then netCurrentSlot - NonceWindow else 1) in
      if tx_Nonce tx < minNonce then Some NonceTooLow
      else if tx_Nonce tx > netCurrentSlot then Some NonceTooHigh else None)"

fun validateNonce :: "u64 \<Rightarrow> Transaction list \<Rightarrow> pool_error option" where
  "validateNonce netCurrentSlot [] = None"
| "validateNonce netCurrentSlot (tx # txs) =
     (case validateNonce1 netCurrentSlot tx of Some e \<Rightarrow> Some e | None \<Rightarrow> validateNonce netCurrentSlot txs)"

fun validateDuplicateTxs :: "'c RemovedCache \<Rightarrow> PoolEnv \<Rightarrow> 'c \<Rightarrow> Transaction list \<Rightarrow> pool_error option" where
  "validateDuplicateTxs rc env cache [] = None"
| "validateDuplicateTxs rc env cache (tx # txs) =
     (case IsDuplicate rc cache (pe_dedup env tx) of
        Inl e \<Rightarrow> Some (DedupError e)
      | Inr True \<Rightarrow> Some DuplicateTransaction
      | Inr False \<Rightarrow> validateDuplicateTxs rc env cache txs)"

definition validateBalance :: "PoolEnv \<Rightarrow> ('c, 't) Mempool \<Rightarrow> Transaction \<Rightarrow> (pool_error, pool_error option) outcome" where
  "validateBalance env mp tx =
     (if tx_Sender tx = tx_Recipient tx then Returns None
      else case pe_account env (tx_Sender tx) of
        Inl e \<Rightarrow> Returns (Some AccountNotFound)
      | Inr None \<Rightarrow> Returns (Some AccountNotFound)
      | Inr (Some senderAccount) \<Rightarrow>
          (case acc_Balance senderAccount of
             None \<Rightarrow> Returns (Some AccountNotFound)
           | Some balance \<Rightarrow>
               let available = (case map_of (mp_senderTotalAmount mp) (tx_Sender tx) of None \<Rightarrow> balance | Some totalAmount \<Rightarrow> balance - totalAmount) in
               case tx_Amount tx of
                 None \<Rightarrow> Panics
               | Some amount \<Rightarrow> Returns (if available < amount then Some InsufficientFunds else None)))"

definition pool_validateUserContent :: "PoolEnv \<Rightarrow> Transaction \<Rightarrow> pool_error option" where
  "pool_validateUserContent env tx =
     (case lib_parse (pe_lib env) (tx_ExtraInfo tx) of
        (Some e, _) \<Rightarrow> Some InvalidUserContent
      | (None, content) \<Rightarrow>
          if blank (uc_Type content) \<or> blank (uc_Title content) \<or> blank (uc_Description content) then Some ContentFieldsMissing
          else if ShouldValidateAddress (uc_Type content) \<and> \<not> ValidateTxAddress (pe_lib env) (tx_Recipient tx) then Some InvalidTransactionAddress
          else let refs = uc_ReferenceTxHashes content in
            if length refs > MaxReferenceTxs then Some InvalidUserContent
            else case (if refs = [] then Inr [] else pe_txs env refs) of
              Inl e \<Rightarrow> Some Internal
            | Inr referenceTxs \<Rightarrow>
                if length referenceTxs \<noteq> length refs then Some InvalidUserContent
                else if uc_ParentHash content = '''' \<and> uc_RootHash content = '''' then None
                else if uc_ParentHash content = '''' \<or> uc_RootHash content = '''' then Some InvalidUserContent
                else case pe_tx env (uc_ParentHash content) of
                  Inl e \<Rightarrow> Some ParentNotFound
                | Inr parentTx \<Rightarrow>
                    if tx_Type parentTx \<noteq> TxTypeUserContent \<or> tx_Sender parentTx \<noteq> tx_Sender tx \<or> tx_Recipient parentTx \<noteq> tx_Recipient tx
                      then Some InvalidUserContent
                    else case pe_latest env (uc_RootHash content) of
                      Inl e \<Rightarrow> Some RootNotFound
                    | Inr latest \<Rightarrow> if latest \<noteq> uc_ParentHash content then Some VersionConflict else None)"

definition cheapValidateTransaction :: "PoolEnv \<Rightarrow> Transaction \<Rightarrow> ('c, 't) Mempool \<Rightarrow> pool_error option" where
  "cheapValidateTransaction env tx mp =
     (if (tx_Amount tx = None \<or> tx_Amount tx = Some 0) \<and> tx_Type tx \<noteq> TxTypeUserContent then Some InvalidAmount
      else if length (tx_TextData tx) > MaxMemoCharacters then Some (MemoTooLong (length (tx_TextData tx)))
      else if int (length (mp_txs mp)) \<ge> mp_max mp then Some MempoolFull
      else case validateNonce (mp_netCurrentSlot mp) [tx] of
        Some e \<Rightarrow> Some e
      | None \<Rightarrow> if \<not> pe_verify env tx then Some InvalidSignature else None)"

definition validateTransaction :: "'c RemovedCache \<Rightarrow> PoolEnv \<Rightarrow> Transaction \<Rightarrow> ('c, 't) Mempool \<Rightarrow> (pool_error, pool_error option) outcome" where
  "validateTransaction rc env tx mp =
     (if pe_dedup env tx \<in> set (mp_dedupTxHashSet mp) then Returns (Some DuplicateTransaction)
      else case validateDuplicateTxs rc env (mp_dedup mp) [tx] of
        Some e \<Rightarrow> Returns (Some e)
      | None \<Rightarrow>
          if tx_Type tx = TxTypeUserContent then Returns (pool_validateUserContent env tx)
          else validateBalance env mp tx)"

text \<open>
  The total of a sender. The amount is read through a pointer: nil panics. A transfer that was let in has an amount.
\<close>

definition add_total :: "Transaction \<Rightarrow> (string \<times> u256) list \<Rightarrow> (string \<times> u256) list option" where
  "add_total tx totals =
     (if tx_Type tx = TxTypeUserContent then Some totals
      else case tx_Amount tx of
        None \<Rightarrow> None
      | Some amount \<Rightarrow>
          Some (AList.update (tx_Sender tx) ((case map_of totals (tx_Sender tx) of None \<Rightarrow> 0 | Some t \<Rightarrow> t) + amount) totals))"

text \<open>What \<open>AddTx\<close> does under the lock, and the whole of it.\<close>

definition AddTx_locked :: "'c RemovedCache \<Rightarrow> PoolEnv \<Rightarrow> Transaction \<Rightarrow> ('c, 't) Mempool \<Rightarrow> (pool_error, pool_error option \<times> ('c, 't) Mempool) outcome" where
  "AddTx_locked rc env tx mp =
     (case validateTransaction rc env tx mp of
        Returns (Some e) \<Rightarrow> Returns (Some e, mp)
      | Returns None \<Rightarrow>
          (case add_total tx (mp_senderTotalAmount mp) of
             None \<Rightarrow> Panics
           | Some totals \<Rightarrow>
               Returns (None, mp\<lparr>mp_txs := AList.update (pe_hash env tx) tx (mp_txs mp), mp_txOrder := mp_txOrder mp @ [pe_hash env tx],
                 mp_dedupTxHashSet := add_new (pe_dedup env tx) (mp_dedupTxHashSet mp), mp_senderTotalAmount := totals\<rparr>))
      | _ \<Rightarrow> Panics)"

definition AddTx :: "'c RemovedCache \<Rightarrow> PoolEnv \<Rightarrow> Transaction \<Rightarrow> ('c, 't) Mempool \<Rightarrow> (pool_error, (pool_error + string) \<times> ('c, 't) Mempool) outcome" where
  "AddTx rc env tx mp =
     (case cheapValidateTransaction env tx mp of
        Some e \<Rightarrow> Returns (Inl e, mp)
      | None \<Rightarrow>
          (case AddTx_locked rc env tx mp of
             Returns (Some e, mp') \<Rightarrow> Returns (Inl e, mp')
           | Returns (None, mp') \<Rightarrow> Returns (Inr (pe_hash env tx), mp')
           | _ \<Rightarrow> Panics))"

section \<open>Taking transactions out\<close>

definition sub_total :: "Transaction \<Rightarrow> (string \<times> u256) list \<Rightarrow> (string \<times> u256) list option" where
  "sub_total tx totals =
     (case map_of totals (tx_Sender tx) of
        None \<Rightarrow> Some totals
      | Some totalAmount \<Rightarrow>
          (case tx_Amount tx of
             None \<Rightarrow> None
           | Some amount \<Rightarrow>
               Some (if totalAmount - amount = 0 then AList.delete (tx_Sender tx) totals
                     else AList.update (tx_Sender tx) (totalAmount - amount) totals)))"

definition take_out :: "PoolEnv \<Rightarrow> string \<Rightarrow> Transaction \<Rightarrow> ('c, 't) Mempool \<Rightarrow> ('c, 't) Mempool option" where
  "take_out env txHash tx mp =
     (case sub_total tx (mp_senderTotalAmount mp) of
        None \<Rightarrow> None
      | Some totals \<Rightarrow>
          Some (mp\<lparr>mp_senderTotalAmount := totals, mp_txs := AList.delete txHash (mp_txs mp),
            mp_dedupTxHashSet := removeAll (pe_dedup env tx) (mp_dedupTxHashSet mp)\<rparr>))"

fun take_out_all :: "PoolEnv \<Rightarrow> string list \<Rightarrow> Transaction list \<Rightarrow> ('c, 't) Mempool \<Rightarrow> (Transaction list \<times> ('c, 't) Mempool) option" where
  "take_out_all env [] result mp = Some (result, mp)"
| "take_out_all env (txHash # selected) result mp =
     (case map_of (mp_txs mp) txHash of
        None \<Rightarrow> take_out_all env selected result mp
      | Some tx \<Rightarrow>
          (case take_out env txHash tx mp of
             None \<Rightarrow> None
           | Some mp' \<Rightarrow> take_out_all env selected (result @ [tx]) mp'))"

text \<open>\<open>PullBatch\<close> under the lock, and what it does after it released the lock. A negative size panics.\<close>

definition PullBatch_locked :: "PoolEnv \<Rightarrow> int \<Rightarrow> ('c, 't) Mempool \<Rightarrow> (pool_error, Transaction list \<times> ('c, 't) Mempool) outcome" where
  "PullBatch_locked env batchSize mp =
     (let n = min batchSize (int (length (mp_txOrder mp))) in
      if n < 0 then Panics
      else case take_out_all env (take (nat n) (mp_txOrder mp)) [] (mp\<lparr>mp_txOrder := drop (nat n) (mp_txOrder mp)\<rparr>) of
        None \<Rightarrow> Panics
      | Some r \<Rightarrow> Returns r)"

fun track_all :: "'t RemovedCache \<Rightarrow> PoolEnv \<Rightarrow> Transaction list \<Rightarrow> 't Tracker \<Rightarrow> (string, 't Tracker) outcome" where
  "track_all rt env [] tr = Returns tr"
| "track_all rt env (tx # txs) tr =
     (case TrackProcessingTransaction rt (\<lambda>t. pe_hash env (the t)) tx tr of Returns tr' \<Rightarrow> track_all rt env txs tr' | _ \<Rightarrow> Panics)"

definition PullBatch_publish :: "'c RemovedCache \<Rightarrow> 't RemovedCache \<Rightarrow> PoolEnv \<Rightarrow> Transaction list \<Rightarrow> ('c, 't) Mempool \<Rightarrow> (pool_error, ('c, 't) Mempool) outcome" where
  "PullBatch_publish rc rt env result mp =
     (let mp1 = mp\<lparr>mp_dedup := Dedup_Add rc (map (pe_dedup env) result) (mp_dedup mp)\<rparr> in
      case mp_tracker mp1 of
        None \<Rightarrow> Returns mp1
      | Some tr \<Rightarrow> (case track_all rt env result tr of Returns tr' \<Rightarrow> Returns (mp1\<lparr>mp_tracker := Some tr'\<rparr>) | _ \<Rightarrow> Panics))"

definition PullBatch :: "'c RemovedCache \<Rightarrow> 't RemovedCache \<Rightarrow> PoolEnv \<Rightarrow> int \<Rightarrow> ('c, 't) Mempool \<Rightarrow> (pool_error, Transaction list \<times> ('c, 't) Mempool) outcome" where
  "PullBatch rc rt env batchSize mp =
     (case PullBatch_locked env batchSize mp of
        Returns (result, mp1) \<Rightarrow> (case PullBatch_publish rc rt env result mp1 of Returns mp2 \<Rightarrow> Returns (result, mp2) | _ \<Rightarrow> Panics)
      | _ \<Rightarrow> Panics)"

text \<open>The set of hashes of \<open>BlockCleanup\<close> is a list without duplicates, in the order a loop visits it.\<close>

definition BlockCleanup :: "PoolEnv \<Rightarrow> string list \<Rightarrow> ('c, 't) Mempool \<Rightarrow> (pool_error, ('c, 't) Mempool) outcome" where
  "BlockCleanup env txHashSet mp =
     (case take_out_all env txHashSet [] mp of
        None \<Rightarrow> Panics
      | Some (_, mp1) \<Rightarrow> Returns (mp1\<lparr>mp_txOrder := filter (\<lambda>hash. hash \<notin> set txHashSet) (mp_txOrder mp1)\<rparr>))"

section \<open>Reading and the current slot\<close>

definition Pool_Size :: "('c, 't) Mempool \<Rightarrow> nat" where
  "Pool_Size mp = length (mp_txs mp)"

definition Pool_GetTransaction :: "string \<Rightarrow> ('c, 't) Mempool \<Rightarrow> Transaction option" where
  "Pool_GetTransaction txHash mp = map_of (mp_txs mp) txHash"

definition SetCurrentSlot :: "u64 \<Rightarrow> ('c, 't) Mempool \<Rightarrow> ('c, 't) Mempool" where
  "SetCurrentSlot slot mp = (if slot \<le> mp_netCurrentSlot mp then mp else mp\<lparr>mp_netCurrentSlot := slot\<rparr>)"

definition VerifyBlockTransactions :: "'c RemovedCache \<Rightarrow> PoolEnv \<Rightarrow> Transaction list \<Rightarrow> ('c, 't) Mempool \<Rightarrow> pool_error option" where
  "VerifyBlockTransactions rc env txs mp =
     (case validateNonce (mp_netCurrentSlot mp) txs of Some e \<Rightarrow> Some e | None \<Rightarrow> validateDuplicateTxs rc env (mp_dedup mp) txs)"

section \<open>Pending amounts\<close>

definition amount_of :: "Transaction \<Rightarrow> nat" where
  "amount_of tx = (case tx_Amount tx of None \<Rightarrow> 0 | Some a \<Rightarrow> unat a)"

definition pending :: "(string \<times> Transaction) list \<Rightarrow> string \<Rightarrow> nat" where
  "pending txs s = (\<Sum>(h, tx) \<leftarrow> txs. if tx_Sender tx = s then amount_of tx else 0)"

lemma pending_simps [simp]:
  "pending [] s = 0"
  "pending ((h, tx) # txs) s = (if tx_Sender tx = s then amount_of tx else 0) + pending txs s"
  by (simp_all add: pending_def)

lemma pending_add: "map_of txs h = None \<Longrightarrow> pending (AList.update h tx txs) s = pending txs s + (if tx_Sender tx = s then amount_of tx else 0)"
  by (induction txs) (auto split: if_splits)

lemma pending_delete:
  "distinct (map fst txs) \<Longrightarrow> map_of txs h = Some tx \<Longrightarrow>
     pending (AList.delete h txs) s + (if tx_Sender tx = s then amount_of tx else 0) = pending txs s"
proof (induction txs)
  case (Cons x txs)
  show ?case
  proof (cases "fst x = h")
    case True
    then have "AList.delete h txs = txs" using Cons.prems(1) by (intro delete_id) (cases x; auto)
    then show ?thesis using True Cons.prems(2) by (cases x) simp
  next
    case False
    then show ?thesis using Cons by (cases x) auto
  qed
qed simp

text \<open>
  Transactions for which the pool keeps its books: user content carries the amount 0, and a transfer goes to
  somebody else.
\<close>

definition plain :: "Transaction \<Rightarrow> bool" where
  "plain tx \<longleftrightarrow> (if tx_Type tx = TxTypeUserContent then tx_Amount tx = Some 0 else tx_Sender tx \<noteq> tx_Recipient tx \<and> amount_of tx \<noteq> 0)"

text \<open>Equal hashes mean equal transactions, as far as the pool can tell.\<close>

definition hash_ok :: "PoolEnv \<Rightarrow> bool" where
  "hash_ok env \<longleftrightarrow> (\<forall>t t'. pe_hash env t = pe_hash env t' \<longrightarrow> pe_dedup env t = pe_dedup env t')"

text \<open>The totals are the pending amounts.\<close>

fun total_ok :: "nat \<Rightarrow> u256 option \<Rightarrow> bool" where
  "total_ok n None \<longleftrightarrow> n = 0"
| "total_ok n (Some t) \<longleftrightarrow> unat t = n \<and> n \<noteq> 0"

definition totals_ok :: "(string \<times> Transaction) list \<Rightarrow> (string \<times> u256) list \<Rightarrow> bool" where
  "totals_ok txs totals \<longleftrightarrow> (\<forall>s. total_ok (pending txs s) (map_of totals s))"

lemma totals_okD: "totals_ok txs totals \<Longrightarrow> total_ok (pending txs s) (map_of totals s)"
  by (simp add: totals_ok_def)

definition books :: "PoolEnv \<Rightarrow> (string \<times> Transaction) list \<Rightarrow> string list \<Rightarrow> (string \<times> u256) list \<Rightarrow> bool" where
  "books env txs dedup totals \<longleftrightarrow> distinct (map fst txs) \<and>
     (\<forall>h tx. map_of txs h = Some tx \<longrightarrow> pe_hash env tx = h \<and> plain tx) \<and>
     (\<forall>d. d \<in> set dedup \<longleftrightarrow> (\<exists>h tx. map_of txs h = Some tx \<and> pe_dedup env tx = d)) \<and>
     (\<forall>h h' tx tx'. map_of txs h = Some tx \<longrightarrow> map_of txs h' = Some tx' \<longrightarrow> pe_dedup env tx = pe_dedup env tx' \<longrightarrow> h = h') \<and>
     totals_ok txs totals"

abbreviation "books_ok env mp \<equiv> books env (mp_txs mp) (mp_dedupTxHashSet mp) (mp_senderTotalAmount mp)"

lemma booksD:
  assumes "books env txs dedup totals"
  shows "distinct (map fst txs)" "\<And>h tx. map_of txs h = Some tx \<Longrightarrow> pe_hash env tx = h \<and> plain tx"
    and "\<And>d. d \<in> set dedup \<longleftrightarrow> (\<exists>h tx. map_of txs h = Some tx \<and> pe_dedup env tx = d)"
    and "\<And>h h' tx tx'. map_of txs h = Some tx \<Longrightarrow> map_of txs h' = Some tx' \<Longrightarrow> pe_dedup env tx = pe_dedup env tx' \<Longrightarrow> h = h'"
    and "totals_ok txs totals"
  using assms unfolding books_def by blast+

lemma sub_total_ok:
  assumes "totals_ok txs totals" "distinct (map fst txs)" "map_of txs h = Some tx" "plain tx"
  shows "\<exists>totals'. sub_total tx totals = Some totals' \<and> totals_ok (AList.delete h txs) totals'"
proof -
  define s where "s = tx_Sender tx"
  have d: "pending (AList.delete h txs) a = pending txs a - (if s = a then amount_of tx else 0)" for a
    using pending_delete [OF assms(2,3), of a] by (simp add: s_def)
  show ?thesis
  proof (cases "map_of totals s")
    case None
    then have "pending txs s = 0" using totals_okD [OF assms(1), of s] by simp
    then have "pending (AList.delete h txs) = pending txs" using d by (auto simp: fun_eq_iff)
    then have "totals_ok (AList.delete h txs) totals" using assms(1) by (simp add: totals_ok_def)
    then show ?thesis using None by (simp add: sub_total_def s_def)
  next
    case (Some t)
    then have t: "unat t = pending txs s" using totals_okD [OF assms(1), of s] by simp
    obtain a where a: "tx_Amount tx = Some a" using assms(4) by (auto simp: plain_def amount_of_def split: if_splits option.splits)
    then have le: "unat a \<le> unat t"
      using pending_delete [OF assms(2,3), of s] t by (simp add: s_def amount_of_def)
    then have sub: "unat (t - a) = unat t - unat a" by (simp add: unat_sub_le word_le_nat_alt)
    have ds: "pending (AList.delete h txs) s = unat (t - a)" using d [of s] a t sub by (simp add: amount_of_def)
    have do: "pending (AList.delete h txs) b = pending txs b" if "b \<noteq> s" for b using d [of b] that by simp
    let ?totals = "if t - a = 0 then AList.delete s totals else AList.update s (t - a) totals"
    have "total_ok (pending (AList.delete h txs) b) (map_of ?totals b)" for b
      using totals_okD [OF assms(1), of b] ds do by (cases "b = s") (auto simp: delete_conv' update_conv' unat_eq_zero)
    then have "totals_ok (AList.delete h txs) ?totals" by (simp add: totals_ok_def)
    then show ?thesis using Some a by (intro exI [of _ ?totals]) (simp add: sub_total_def s_def)
  qed
qed

lemma books_delete:
  assumes "books env txs dedup totals" "map_of txs h = Some tx" "totals_ok (AList.delete h txs) totals'"
  shows "books env (AList.delete h txs) (removeAll (pe_dedup env tx) dedup) totals'"
proof -
  note b = booksD [OF assms(1)]
  have m: "map_of (AList.delete h txs) h' = Some tx' \<longleftrightarrow> h' \<noteq> h \<and> map_of txs h' = Some tx'" for h' tx'
    by (simp add: delete_conv')
  have "d \<in> set (removeAll (pe_dedup env tx) dedup) \<longleftrightarrow> (\<exists>h' tx'. (h' \<noteq> h \<and> map_of txs h' = Some tx') \<and> pe_dedup env tx' = d)" for d
    using b(3) [of d] b(4) assms(2) by (metis Diff_iff insertCI insertE empty_iff option.inject set_removeAll)
  moreover have "h' = h''" if "map_of txs h' = Some t'" "map_of txs h'' = Some t''" "pe_dedup env t' = pe_dedup env t''" for h' h'' t' t''
    using b(4) that by blast
  ultimately show ?thesis
    unfolding books_def m using b(2) distinct_delete [OF b(1)] assms(3) by blast
qed

lemma take_out_ok:
  assumes "books_ok env mp" "map_of (mp_txs mp) h = Some tx"
  shows "\<exists>mp'. take_out env h tx mp = Some mp' \<and> books_ok env mp' \<and> mp_txs mp' = AList.delete h (mp_txs mp) \<and>
    mp_txOrder mp' = mp_txOrder mp \<and> mp_dedup mp' = mp_dedup mp \<and> mp_tracker mp' = mp_tracker mp \<and> mp_max mp' = mp_max mp \<and>
    mp_netCurrentSlot mp' = mp_netCurrentSlot mp"
proof -
  note b = booksD [OF assms(1)]
  obtain totals where t: "sub_total tx (mp_senderTotalAmount mp) = Some totals" "totals_ok (AList.delete h (mp_txs mp)) totals"
    using sub_total_ok [OF b(5,1) assms(2)] b(2) [OF assms(2)] by blast
  show ?thesis using t(1) books_delete [OF assms t(2)] by (simp add: take_out_def)
qed

lemma take_out_all_ok:
  assumes "books_ok env mp" "distinct hs"
  shows "\<exists>mp'. take_out_all env hs res mp = Some (res @ List.map_filter (map_of (mp_txs mp)) hs, mp') \<and> books_ok env mp' \<and>
    (\<forall>h. map_of (mp_txs mp') h = (if h \<in> set hs then None else map_of (mp_txs mp) h)) \<and>
    length (mp_txs mp') \<le> length (mp_txs mp) \<and> (\<forall>s. pending (mp_txs mp') s \<le> pending (mp_txs mp) s) \<and>
    mp_txOrder mp' = mp_txOrder mp \<and> mp_dedup mp' = mp_dedup mp \<and> mp_tracker mp' = mp_tracker mp \<and> mp_max mp' = mp_max mp \<and>
    mp_netCurrentSlot mp' = mp_netCurrentSlot mp"
  using assms
proof (induction hs arbitrary: mp res)
  case (Cons h hs)
  show ?case
  proof (cases "map_of (mp_txs mp) h")
    case None
    then show ?thesis using Cons.IH [OF Cons.prems(1), of res] Cons.prems(2) by (auto simp: List.map_filter_simps)
  next
    case (Some tx)
    obtain mp1 where m1: "take_out env h tx mp = Some mp1" "books_ok env mp1" "mp_txs mp1 = AList.delete h (mp_txs mp)"
        "mp_txOrder mp1 = mp_txOrder mp" "mp_dedup mp1 = mp_dedup mp" "mp_tracker mp1 = mp_tracker mp" "mp_max mp1 = mp_max mp"
        "mp_netCurrentSlot mp1 = mp_netCurrentSlot mp"
      using take_out_ok [OF Cons.prems(1) Some] by blast
    have m: "map_of (mp_txs mp1) = (map_of (mp_txs mp))(h := None)" by (simp add: m1(3) delete_conv')
    have le: "length (mp_txs mp1) \<le> length (mp_txs mp)" "pending (mp_txs mp1) s \<le> pending (mp_txs mp) s" for s
      using length_delete_le [of h "mp_txs mp"] pending_delete [OF booksD(1) [OF Cons.prems(1)] Some, of s] by (simp_all add: m1(3))
    have mf: "List.map_filter (map_of (mp_txs mp1)) hs = List.map_filter (map_of (mp_txs mp)) hs"
      using Cons.prems(2) by (induction hs) (auto simp: List.map_filter_simps m split: option.splits)
    obtain mp2 where m2: "take_out_all env hs (res @ [tx]) mp1 = Some ((res @ [tx]) @ List.map_filter (map_of (mp_txs mp)) hs, mp2)"
        "books_ok env mp2" "\<forall>h. map_of (mp_txs mp2) h = (if h \<in> set hs then None else map_of (mp_txs mp1) h)"
        "length (mp_txs mp2) \<le> length (mp_txs mp1)" "\<forall>s. pending (mp_txs mp2) s \<le> pending (mp_txs mp1) s"
        "mp_txOrder mp2 = mp_txOrder mp1" "mp_dedup mp2 = mp_dedup mp1" "mp_tracker mp2 = mp_tracker mp1" "mp_max mp2 = mp_max mp1"
        "mp_netCurrentSlot mp2 = mp_netCurrentSlot mp1"
      using Cons.IH [OF m1(2), of "res @ [tx]"] Cons.prems(2) unfolding mf by auto
    have "\<forall>h'. map_of (mp_txs mp2) h' = (if h' \<in> set (h # hs) then None else map_of (mp_txs mp) h')"
      using m2(3) by (simp add: m)
    moreover have "length (mp_txs mp2) \<le> length (mp_txs mp)" using m2(4) le(1) by (rule order_trans)
    moreover have "\<forall>s. pending (mp_txs mp2) s \<le> pending (mp_txs mp) s" using m2(5) le(2) order_trans by blast
    ultimately show ?thesis using m1 m2 Some by (simp add: List.map_filter_simps)
  qed
qed (simp add: List.map_filter_simps)

text \<open>Every sender with pending transfers has an account whose balance covers them.\<close>

definition funds_ok :: "PoolEnv \<Rightarrow> (string \<times> Transaction) list \<Rightarrow> bool" where
  "funds_ok env txs \<longleftrightarrow> (\<forall>s. pending txs s \<noteq> 0 \<longrightarrow>
     (\<exists>acc b. pe_account env s = Inr (Some acc) \<and> acc_Balance acc = Some b \<and> pending txs s \<le> unat b))"

lemma funds_ok_mono: "funds_ok env txs \<Longrightarrow> \<forall>s. pending txs' s \<le> pending txs s \<Longrightarrow> funds_ok env txs'"
  unfolding funds_ok_def by (metis le_zero_eq order_trans)

lemma validateBalance_covers:
  assumes "validateBalance env mp tx = Returns None" "tx_Sender tx \<noteq> tx_Recipient tx"
    and "funds_ok env (mp_txs mp)" "totals_ok (mp_txs mp) (mp_senderTotalAmount mp)"
  shows "\<exists>acc b a. pe_account env (tx_Sender tx) = Inr (Some acc) \<and> acc_Balance acc = Some b \<and> tx_Amount tx = Some a \<and>
    pending (mp_txs mp) (tx_Sender tx) + unat a \<le> unat b"
proof -
  let ?s = "tx_Sender tx"
  obtain acc b a where a: "pe_account env ?s = Inr (Some acc)" "acc_Balance acc = Some b" "tx_Amount tx = Some a"
      "\<not> (case map_of (mp_senderTotalAmount mp) ?s of None \<Rightarrow> b | Some t \<Rightarrow> b - t) < a"
    using assms(1,2) by (auto simp: validateBalance_def Let_def split: sum.splits option.splits if_splits)
  note t = totals_okD [OF assms(4), of ?s]
  have "pending (mp_txs mp) ?s + unat a \<le> unat b"
  proof (cases "map_of (mp_senderTotalAmount mp) ?s")
    case None
    then show ?thesis using a(4) t by (simp add: not_less word_le_nat_alt)
  next
    case (Some w)
    then have w: "unat w = pending (mp_txs mp) ?s" "pending (mp_txs mp) ?s \<noteq> 0" using t by simp_all
    then have "unat w \<le> unat b" using spec [OF assms(3) [unfolded funds_ok_def], of ?s] a(1,2) by auto
    then have "unat (b - w) = unat b - unat w" by (simp add: unat_sub_le word_le_nat_alt)
    moreover have "unat a \<le> unat (b - w)" using a(4) Some by (simp add: not_less word_le_nat_alt)
    ultimately show ?thesis using w \<open>unat w \<le> unat b\<close> by simp
  qed
  then show ?thesis using a by blast
qed

lemma add_total_ok:
  assumes "totals_ok txs totals" "map_of txs h = None" "plain tx" "tx_Type tx \<noteq> TxTypeUserContent \<longrightarrow> pending txs (tx_Sender tx) + amount_of tx < 2 ^ 256"
  shows "\<exists>totals'. add_total tx totals = Some totals' \<and> totals_ok (AList.update h tx txs) totals'"
proof (cases "tx_Type tx = TxTypeUserContent")
  case True
  then have "amount_of tx = 0" using assms(3) by (simp add: plain_def amount_of_def)
  then show ?thesis using True assms(1) pending_add [OF assms(2), of tx] by (simp add: add_total_def totals_ok_def)
next
  case False
  define s where "s = tx_Sender tx"
  obtain a where a: "tx_Amount tx = Some a" "unat a \<noteq> 0"
    using assms(3) False by (auto simp: plain_def amount_of_def split: option.splits)
  let ?t = "case map_of totals s of None \<Rightarrow> 0 | Some t \<Rightarrow> t"
  have t: "unat ?t = pending txs s" using totals_okD [OF assms(1), of s] by (cases "map_of totals s") simp_all
  have sum: "unat (?t + a) = pending txs s + unat a"
    using assms(4) False a t by (subst unat_add_bounded) (simp_all add: s_def amount_of_def)
  have "total_ok (pending (AList.update h tx txs) b) (map_of (AList.update s (?t + a) totals) b)" for b
    using totals_okD [OF assms(1), of b] pending_add [OF assms(2), of tx b] sum a by (cases "b = s") (auto simp: update_conv' s_def amount_of_def)
  then have "totals_ok (AList.update h tx txs) (AList.update s (?t + a) totals)" by (simp add: totals_ok_def)
  then show ?thesis using False a by (simp add: add_total_def s_def)
qed

lemma books_update:
  assumes "books env txs dedup totals" "map_of txs (pe_hash env tx) = None" "pe_dedup env tx \<notin> set dedup" "plain tx"
    and "totals_ok (AList.update (pe_hash env tx) tx txs) totals'"
  shows "books env (AList.update (pe_hash env tx) tx txs) (add_new (pe_dedup env tx) dedup) totals'"
proof -
  note b = booksD [OF assms(1)]
  have m: "map_of (AList.update (pe_hash env tx) tx txs) h = Some t \<longleftrightarrow> (if h = pe_hash env tx then t = tx else map_of txs h = Some t)" for h t
    by (auto simp: update_conv')
  let ?m = "\<lambda>h t. if h = pe_hash env tx then t = tx else map_of txs h = Some t"
  have old: "t \<noteq> tx \<and> pe_dedup env t \<noteq> pe_dedup env tx \<and> h \<noteq> pe_hash env tx" if "map_of txs h = Some t" for h t
    using that assms(2,3) b(3) [of "pe_dedup env t"] by (metis option.distinct(1))
  have "d \<in> set (add_new (pe_dedup env tx) dedup) \<longleftrightarrow> (\<exists>h t. ?m h t \<and> pe_dedup env t = d)" for d
  proof (cases "d = pe_dedup env tx")
    case True
    then show ?thesis by (auto simp: add_new_def intro: exI [of _ "pe_hash env tx"])
  next
    case False
    then have "d \<in> set (add_new (pe_dedup env tx) dedup) \<longleftrightarrow> d \<in> set dedup" by (simp add: add_new_def)
    also have "\<dots> \<longleftrightarrow> (\<exists>h t. map_of txs h = Some t \<and> pe_dedup env t = d)" by (rule b(3))
    also have "\<dots> \<longleftrightarrow> (\<exists>h t. ?m h t \<and> pe_dedup env t = d)" proof
      assume "\<exists>h t. map_of txs h = Some t \<and> pe_dedup env t = d"
      then obtain h t where "map_of txs h = Some t" "pe_dedup env t = d" by blast
      then show "\<exists>h t. ?m h t \<and> pe_dedup env t = d" using old by (intro exI [of _ h] exI [of _ t]) simp
    next
      assume "\<exists>h t. ?m h t \<and> pe_dedup env t = d"
      then obtain h t where "?m h t" "pe_dedup env t = d" by blast
      then show "\<exists>h t. map_of txs h = Some t \<and> pe_dedup env t = d"
        using False by (intro exI [of _ h] exI [of _ t]) (simp split: if_splits)
    qed
    finally show ?thesis .
  qed
  moreover have "h = h'" if m': "?m h t" "?m h' t'" and d: "pe_dedup env t = pe_dedup env t'" for h h' t t'
  proof -
    have c: "h = pe_hash env tx \<and> t = tx \<or> map_of txs h = Some t" "h' = pe_hash env tx \<and> t' = tx \<or> map_of txs h' = Some t'"
      using m' by (auto split: if_split_asm)
    show ?thesis using c old [of h t] old [of h' t'] d b(4) [of h t h' t'] by metis
  qed
  moreover have "pe_hash env t = h \<and> plain t" if "?m h t" for h t
    using b(2) [of h t] assms(4) that by (auto split: if_split_asm)
  ultimately show ?thesis
    unfolding books_def m using distinct_update [OF b(1)] assms(5) by blast
qed

text \<open>The invariant of the pool.\<close>

definition pool_ok :: "PoolEnv \<Rightarrow> ('c, 't) Mempool \<Rightarrow> bool" where
  "pool_ok env mp \<longleftrightarrow> books_ok env mp \<and> distinct (mp_txOrder mp) \<and> set (mp_txOrder mp) = dom (map_of (mp_txs mp)) \<and>
     funds_ok env (mp_txs mp) \<and> int (length (mp_txs mp)) \<le> mp_max mp"

lemma AddTx_locked_adds:
  assumes "pool_ok env mp" "hash_ok env" "plain tx" "AddTx_locked rc env tx mp = Returns (None, mp')"
  shows "map_of (mp_txs mp) (pe_hash env tx) = None" "mp_txs mp' = AList.update (pe_hash env tx) tx (mp_txs mp)"
    and "mp_txOrder mp' = mp_txOrder mp @ [pe_hash env tx]" "books_ok env mp'" "funds_ok env (mp_txs mp')" "mp_max mp' = mp_max mp"
proof -
  have b: "books_ok env mp" and f: "funds_ok env (mp_txs mp)" using assms(1) by (simp_all add: pool_ok_def)
  note bd = booksD [OF b]
  obtain totals where v: "validateTransaction rc env tx mp = Returns None" "add_total tx (mp_senderTotalAmount mp) = Some totals"
      and mp': "mp' = mp\<lparr>mp_txs := AList.update (pe_hash env tx) tx (mp_txs mp), mp_txOrder := mp_txOrder mp @ [pe_hash env tx],
        mp_dedupTxHashSet := add_new (pe_dedup env tx) (mp_dedupTxHashSet mp), mp_senderTotalAmount := totals\<rparr>"
    using assms(4) by (auto simp: AddTx_locked_def split: outcome.splits option.splits)
  have nd: "pe_dedup env tx \<notin> set (mp_dedupTxHashSet mp)" using v(1) by (auto simp: validateTransaction_def)
  show fresh: "map_of (mp_txs mp) (pe_hash env tx) = None"
  proof (rule ccontr)
    assume "map_of (mp_txs mp) (pe_hash env tx) \<noteq> None"
    then obtain t where t: "map_of (mp_txs mp) (pe_hash env tx) = Some t" by blast
    then have "pe_dedup env t = pe_dedup env tx" using bd(2) [OF t] assms(2) unfolding hash_ok_def by blast
    then show False using nd bd(3) t by blast
  qed
  have covered: "\<exists>acc b a. pe_account env (tx_Sender tx) = Inr (Some acc) \<and> acc_Balance acc = Some b \<and> tx_Amount tx = Some a \<and>
      pending (mp_txs mp) (tx_Sender tx) + unat a \<le> unat b" if "tx_Type tx \<noteq> TxTypeUserContent"
  proof (rule validateBalance_covers [OF _ _ f bd(5)])
    show "validateBalance env mp tx = Returns None"
      using v(1) that by (auto simp: validateTransaction_def split: if_splits option.splits)
    show "tx_Sender tx \<noteq> tx_Recipient tx" using assms(3) that by (simp add: plain_def)
  qed
  have "pending (mp_txs mp) (tx_Sender tx) + amount_of tx < 2 ^ 256" if transfers: "tx_Type tx \<noteq> TxTypeUserContent"
  proof -
    obtain b :: u256 and a where "tx_Amount tx = Some a" "pending (mp_txs mp) (tx_Sender tx) + unat a \<le> unat b" using covered [OF transfers] by blast
    then show ?thesis using unat_bound [of b] by (simp add: amount_of_def)
  qed
  then have "totals_ok (AList.update (pe_hash env tx) tx (mp_txs mp)) totals"
    using add_total_ok [OF bd(5) fresh assms(3)] v(2) by auto
  then show "books_ok env mp'" using books_update [OF b fresh nd assms(3)] by (simp add: mp')
  have "funds_ok env (AList.update (pe_hash env tx) tx (mp_txs mp))"
    unfolding funds_ok_def
  proof (intro allI impI)
    fix s
    assume p: "pending (AList.update (pe_hash env tx) tx (mp_txs mp)) s \<noteq> 0"
    show "\<exists>acc b. pe_account env s = Inr (Some acc) \<and> acc_Balance acc = Some b \<and> pending (AList.update (pe_hash env tx) tx (mp_txs mp)) s \<le> unat b"
    proof (cases "s = tx_Sender tx \<and> tx_Type tx \<noteq> TxTypeUserContent")
      case True
      then show ?thesis using covered pending_add [OF fresh, of tx s] by (auto simp: amount_of_def)
    next
      case False
      then have "pending (AList.update (pe_hash env tx) tx (mp_txs mp)) s = pending (mp_txs mp) s"
        using pending_add [OF fresh, of tx s] assms(3) by (auto simp: plain_def amount_of_def)
      then show ?thesis using f p by (simp add: funds_ok_def)
    qed
  qed
  then show "funds_ok env (mp_txs mp')" by (simp add: mp')
qed (use assms(4) in \<open>auto simp: AddTx_locked_def split: outcome.splits option.splits\<close>)

lemma AddTx_pool_ok:
  assumes "pool_ok env mp" "hash_ok env" "plain tx" "AddTx rc env tx mp = Returns (r, mp')"
  shows "pool_ok env mp'"
proof (cases r)
  case (Inl e)
  then have "mp' = mp" using assms(4) by (auto simp: AddTx_def AddTx_locked_def split: option.splits outcome.splits)
  then show ?thesis using assms(1) by simp
next
  case (Inr h)
  then have l: "AddTx_locked rc env tx mp = Returns (None, mp')" and room: "int (length (mp_txs mp)) < mp_max mp"
    using assms(4) by (auto simp: AddTx_def cheapValidateTransaction_def split: option.splits outcome.splits if_splits)
  note a = AddTx_locked_adds [OF assms(1-3) l]
  have ord: "distinct (mp_txOrder mp)" "set (mp_txOrder mp) = dom (map_of (mp_txs mp))" using assms(1) by (simp_all add: pool_ok_def)
  have "pe_hash env tx \<notin> set (mp_txOrder mp)" using ord(2) a(1) by (simp add: domIff)
  moreover have "int (length (mp_txs mp')) \<le> mp_max mp'" using room a(1) by (simp add: a(2,6) length_update_new)
  moreover have "dom (map_of (mp_txs mp')) = insert (pe_hash env tx) (dom (map_of (mp_txs mp)))" by (simp add: a(2) update_conv')
  ultimately show ?thesis unfolding pool_ok_def a(3) using a(4,5) ord by simp
qed

text \<open>Taking transactions out keeps the invariant when the order loses what the map loses.\<close>

lemma pool_ok_taken:
  assumes "pool_ok env mp" "books_ok env mp'" "\<forall>h. map_of (mp_txs mp') h = (if h \<in> H then None else map_of (mp_txs mp) h)"
    and "length (mp_txs mp') \<le> length (mp_txs mp)" "\<forall>s. pending (mp_txs mp') s \<le> pending (mp_txs mp) s"
    and "mp_max mp' = mp_max mp" "distinct (mp_txOrder mp')" "set (mp_txOrder mp') = set (mp_txOrder mp) - H"
  shows "pool_ok env mp'"
proof -
  have "dom (map_of (mp_txs mp')) = dom (map_of (mp_txs mp)) - H" using assms(3) by (auto simp: dom_def split: if_splits)
  then show ?thesis using assms funds_ok_mono [OF _ assms(5), of env] by (simp add: pool_ok_def)
qed

lemma distinct_take_drop: "distinct xs \<Longrightarrow> set (drop n xs) = set xs - set (take n xs)"
  by (metis Diff_cancel Diff_triv Un_Diff Un_commute Un_empty_left append_take_drop_id distinct_append inf_commute set_append)

lemma map_filter_known: "set hs \<subseteq> dom m \<Longrightarrow> List.map_filter m hs = map (\<lambda>h. the (m h)) hs"
  by (induction hs) (auto simp: List.map_filter_simps)

text \<open>\<open>PullBatch\<close> under the lock takes the oldest transactions, in the order of their arrival.\<close>

lemma PullBatch_locked_ok:
  assumes "pool_ok env mp" "0 \<le> n"
  shows "\<exists>mp'. PullBatch_locked env n mp = Returns (map (\<lambda>h. the (map_of (mp_txs mp) h)) (take (nat n) (mp_txOrder mp)), mp') \<and> pool_ok env mp' \<and>
    mp_txOrder mp' = drop (nat n) (mp_txOrder mp) \<and> mp_dedup mp' = mp_dedup mp \<and> mp_tracker mp' = mp_tracker mp \<and>
    (\<forall>h. map_of (mp_txs mp') h = (if h \<in> set (take (nat n) (mp_txOrder mp)) then None else map_of (mp_txs mp) h))"
proof -
  let ?ord = "mp_txOrder mp" and ?k = "nat (min n (int (length (mp_txOrder mp))))"
  have k: "take ?k ?ord = take (nat n) ?ord" "drop ?k ?ord = drop (nat n) ?ord"
    by (cases "n \<le> int (length ?ord)"; simp add: min_def)+
  let ?mp = "mp\<lparr>mp_txOrder := drop (nat n) ?ord\<rparr>" and ?hs = "take (nat n) ?ord"
  have d: "distinct ?ord" "set ?ord = dom (map_of (mp_txs mp))" "books_ok env ?mp" using assms(1) by (simp_all add: pool_ok_def)
  obtain mp' where t: "take_out_all env ?hs [] ?mp = Some (List.map_filter (map_of (mp_txs mp)) ?hs, mp')" "books_ok env mp'"
      "\<forall>h. map_of (mp_txs mp') h = (if h \<in> set ?hs then None else map_of (mp_txs mp) h)"
      "length (mp_txs mp') \<le> length (mp_txs mp)" "\<forall>s. pending (mp_txs mp') s \<le> pending (mp_txs mp) s"
      "mp_txOrder mp' = drop (nat n) ?ord" "mp_dedup mp' = mp_dedup mp" "mp_tracker mp' = mp_tracker mp" "mp_max mp' = mp_max mp"
    using take_out_all_ok [OF d(3) distinct_take [OF d(1), of "nat n"], of "[]"] by auto
  have "pool_ok env mp'"
    using pool_ok_taken [OF assms(1) t(2-5,9)] d(1) distinct_take_drop [OF d(1)] by (simp add: t(6))
  moreover have "List.map_filter (map_of (mp_txs mp)) ?hs = map (\<lambda>h. the (map_of (mp_txs mp) h)) ?hs"
    by (rule map_filter_known) (use d(2) set_take_subset in fast)
  ultimately show ?thesis using t assms(2) by (simp add: PullBatch_locked_def Let_def k)
qed

lemma track_all_returns: "\<forall>tx \<in> set txs. 8 \<le> length (tx_Sender tx) \<Longrightarrow> \<exists>tr'. track_all rt env txs tr = Returns tr'"
proof (induction txs arbitrary: tr)
  case (Cons tx txs)
  have "\<exists>tr1. TrackProcessingTransaction rt (\<lambda>t. pe_hash env (the t)) tx tr = Returns tr1"
    using Cons.prems by (cases "rc_Get rt (tk_removed tr) (pe_hash env tx)") (simp_all add: TrackProcessingTransaction_def log_sender_def Let_def)
  then obtain tr1 where "TrackProcessingTransaction rt (\<lambda>t. pe_hash env (the t)) tx tr = Returns tr1" by blast
  then show ?case using Cons by simp
qed simp

lemma PullBatch_publish_returns:
  assumes "\<forall>tx \<in> set txs. 8 \<le> length (tx_Sender tx)"
  shows "\<exists>mp'. PullBatch_publish rc rt env txs mp = Returns mp'"
proof (cases "mp_tracker mp")
  case (Some tr)
  then show ?thesis using track_all_returns [OF assms, of rt env tr] by (auto simp: PullBatch_publish_def Let_def)
qed (simp add: PullBatch_publish_def Let_def)

lemma PullBatch_split:
  assumes "PullBatch rc rt env n mp = Returns (txs, mp')"
  shows "\<exists>mp1. PullBatch_locked env n mp = Returns (txs, mp1) \<and> mp_txs mp' = mp_txs mp1 \<and> mp_txOrder mp' = mp_txOrder mp1 \<and>
    mp_dedupTxHashSet mp' = mp_dedupTxHashSet mp1 \<and> mp_senderTotalAmount mp' = mp_senderTotalAmount mp1 \<and> mp_max mp' = mp_max mp1 \<and>
    mp_dedup mp' = Dedup_Add rc (map (pe_dedup env) txs) (mp_dedup mp1)"
  using assms by (auto simp: PullBatch_def PullBatch_publish_def Let_def split: outcome.splits option.splits)

lemma PullBatch_pool_ok:
  assumes "pool_ok env mp" "PullBatch rc rt env n mp = Returns (txs, mp')"
  shows "pool_ok env mp'"
proof -
  obtain mp1 where m: "PullBatch_locked env n mp = Returns (txs, mp1)" "mp_txs mp' = mp_txs mp1" "mp_txOrder mp' = mp_txOrder mp1"
      "mp_dedupTxHashSet mp' = mp_dedupTxHashSet mp1" "mp_senderTotalAmount mp' = mp_senderTotalAmount mp1" "mp_max mp' = mp_max mp1"
    using PullBatch_split [OF assms(2)] by blast
  have "0 \<le> n" using m(1) by (auto simp: PullBatch_locked_def Let_def split: if_splits)
  then have "pool_ok env mp1" using PullBatch_locked_ok [OF assms(1)] m(1) by fastforce
  then show ?thesis by (simp add: m pool_ok_def)
qed

lemma BlockCleanup_ok:
  assumes "pool_ok env mp" "distinct hs"
  shows "\<exists>mp'. BlockCleanup env hs mp = Returns mp' \<and> pool_ok env mp' \<and> mp_txOrder mp' = filter (\<lambda>h. h \<notin> set hs) (mp_txOrder mp) \<and>
    (\<forall>h. map_of (mp_txs mp') h = (if h \<in> set hs then None else map_of (mp_txs mp) h))"
proof -
  have b: "books_ok env mp" using assms(1) by (simp add: pool_ok_def)
  obtain res mp1 where t: "take_out_all env hs [] mp = Some (res, mp1)" "books_ok env mp1"
      "\<forall>h. map_of (mp_txs mp1) h = (if h \<in> set hs then None else map_of (mp_txs mp) h)"
      "length (mp_txs mp1) \<le> length (mp_txs mp)" "\<forall>s. pending (mp_txs mp1) s \<le> pending (mp_txs mp) s"
      "mp_txOrder mp1 = mp_txOrder mp" "mp_max mp1 = mp_max mp"
    using take_out_all_ok [OF b assms(2), of "[]"] by blast
  let ?mp = "mp1\<lparr>mp_txOrder := filter (\<lambda>h. h \<notin> set hs) (mp_txOrder mp)\<rparr>"
  have "pool_ok env ?mp"
    by (rule pool_ok_taken [OF assms(1), of _ "set hs"]) (use t assms(1) in \<open>auto simp: pool_ok_def\<close>)
  then show ?thesis using t by (simp add: BlockCleanup_def)
qed

section \<open>Runs of the pool\<close>

definition NewMempool :: "int \<Rightarrow> 'c \<Rightarrow> 't Tracker option \<Rightarrow> ('c, 't) Mempool" where
  "NewMempool maxSize dedupService txTracker = \<lparr>mp_txs = [], mp_txOrder = [], mp_dedupTxHashSet = [], mp_senderTotalAmount = [], mp_max = maxSize,
     mp_netCurrentSlot = 0, mp_dedup = dedupService, mp_tracker = txTracker\<rparr>"

text \<open>
  Every operation is one step. The ledger may change under the pool; the rule asks that the senders can still pay for
  what is pending.
\<close>

inductive pool_step :: "'c RemovedCache \<Rightarrow> 't RemovedCache \<Rightarrow> PoolEnv \<times> ('c, 't) Mempool \<Rightarrow> PoolEnv \<times> ('c, 't) Mempool \<Rightarrow> bool" for rc rt where
  pool_add: "plain tx \<Longrightarrow> AddTx rc env tx mp = Returns (r, mp') \<Longrightarrow> pool_step rc rt (env, mp) (env, mp')"
| pool_pull: "PullBatch rc rt env n mp = Returns (txs, mp') \<Longrightarrow> pool_step rc rt (env, mp) (env, mp')"
| pool_clean: "distinct hs \<Longrightarrow> BlockCleanup env hs mp = Returns mp' \<Longrightarrow> pool_step rc rt (env, mp) (env, mp')"
| pool_slot: "pool_step rc rt (env, mp) (env, SetCurrentSlot slot mp)"
| pool_ledger: "pe_hash env' = pe_hash env \<Longrightarrow> pe_dedup env' = pe_dedup env \<Longrightarrow> funds_ok env' (mp_txs mp) \<Longrightarrow> pool_step rc rt (env, mp) (env', mp)"

lemma pool_ok_New: "0 \<le> m \<Longrightarrow> pool_ok env (NewMempool m c t)"
  by (simp add: pool_ok_def NewMempool_def books_def totals_ok_def funds_ok_def)

lemma pool_step_ok:
  assumes "pool_step rc rt x y" "pool_ok (fst x) (snd x)" "hash_ok (fst x)"
  shows "pool_ok (fst y) (snd y) \<and> hash_ok (fst y)"
  using assms
proof cases
  case (pool_clean hs env mp mp')
  then show ?thesis using BlockCleanup_ok [of env mp hs] assms by auto
next
  case (pool_ledger env' env mp)
  then have "books env' txs d t = books env txs d t" "hash_ok env' = hash_ok env" for txs d t by (simp_all add: books_def hash_ok_def)
  then show ?thesis using pool_ledger assms by (simp add: pool_ok_def)
next
  case (pool_add tx env mp r mp')
  then show ?thesis using AddTx_pool_ok [of env mp tx rc r mp'] assms by simp
next
  case (pool_pull env n mp txs mp')
  then show ?thesis using PullBatch_pool_ok [of env mp rc rt n txs mp'] assms by simp
next
  case (pool_slot env mp slot)
  then show ?thesis using assms by (simp add: pool_ok_def SetCurrentSlot_def)
qed

lemma pool_run_ok:
  assumes "(pool_step rc rt)\<^sup>*\<^sup>* x y" "pool_ok (fst x) (snd x)" "hash_ok (fst x)"
  shows "pool_ok (fst y) (snd y) \<and> hash_ok (fst y)"
  using assms by (induction rule: rtranclp_induct) (blast dest: pool_step_ok)+

text \<open>A pool over accounts that all hold 100.\<close>

definition pool_env :: PoolEnv where
  "pool_env = \<lparr>pe_hash = tx_TextData, pe_dedup = tx_TextData, pe_verify = (\<lambda>_. True),
     pe_account = (\<lambda>a. Inr (Some \<lparr>acc_Address = a, acc_Balance = Some 100, acc_Nonce = 0\<rparr>)), pe_txs = (\<lambda>_. Inr []),
     pe_tx = (\<lambda>_. Inl ''none''), pe_latest = (\<lambda>_. Inl ''none''), pe_lib = coin_lib\<rparr>"

definition pay :: "string \<Rightarrow> u256 \<Rightarrow> Transaction" where
  "pay memo amount = sample_tx\<lparr>tx_Type := TxTypeTransferByKey, tx_Sender := ''aliceandbob'', tx_Recipient := ''caroline'', tx_Amount := Some amount,
     tx_TextData := memo, tx_Nonce := 1\<rparr>"

definition paid_pool :: "(string set, string set) Mempool" where
  "paid_pool = (SetCurrentSlot 5 (NewMempool 10 {} None))\<lparr>mp_txs := [(''a'', pay ''a'' 60)], mp_txOrder := [''a''], mp_dedupTxHashSet := [''a''],
     mp_senderTotalAmount := [(''aliceandbob'', 60)]\<rparr>"

lemma pay_added: "AddTx set_cache pool_env (pay ''a'' 60) (SetCurrentSlot 5 (NewMempool 10 {} None)) = Returns (Inr ''a'', paid_pool)"
  by (simp add: AddTx_def cheapValidateTransaction_def AddTx_locked_def validateTransaction_def validateBalance_def validateNonce1_def
      IsDuplicate_def set_cache_def pool_env_def pay_def paid_pool_def NewMempool_def SetCurrentSlot_def add_total_def add_new_def)

lemma pay_plain: "plain (pay ''a'' 60)" "hash_ok pool_env"
  by (simp_all add: plain_def pay_def amount_of_def hash_ok_def pool_env_def)

lemma paid_pool_ok: "pool_ok pool_env paid_pool"
proof (rule AddTx_pool_ok [OF _ pay_plain(2,1) pay_added])
  show "pool_ok pool_env (SetCurrentSlot 5 (NewMempool 10 {} None))"
    using pool_ok_New [of 10 pool_env "{}" None] by (simp add: SetCurrentSlot_def pool_ok_def)
qed





text \<open>What was put into the filter is found there.\<close>

context removed_cache
begin

lemma Dedup_Add_found:
  assumes "\<forall>h c. fst (rc_Set rc h c) = None" "h \<in> set hs \<or> rc_Get rc c h = CacheFound"
  shows "rc_Get rc (Dedup_Add rc hs c) h = CacheFound"
  using assms(2)
proof (induction hs arbitrary: c)
  case (Cons h' hs)
  have s: "rc_Set rc h' c = (None, snd (rc_Set rc h' c))" using assms(1) by (metis prod.collapse)
  have "h \<in> set hs \<or> rc_Get rc (snd (rc_Set rc h' c)) h = CacheFound"
    using Cons.prems Set_found [OF s] Set_other [OF s, of h] by (cases "h = h'") auto
  then show ?case using Cons.IH by simp
qed simp

lemma validateDuplicateTxs_found:
  "rc_Get rc c (pe_dedup env tx) = CacheFound \<Longrightarrow> validateDuplicateTxs rc env c [tx] = Some DuplicateTransaction"
  by (simp add: IsDuplicate_def)

end

text \<open>
  C14: Once a batch is pulled, none of its transactions can be submitted again: whoever signs it anew, \<open>AddTx\<close> refuses a
  transaction with the same contents and leaves the pool alone, as long as the filter of duplicates keeps its entries.
\<close>

theorem pulled_not_resubmitted:
  fixes mp :: "('c, 't) Mempool"
  assumes "removed_cache rc" "\<forall>h c. fst (rc_Set rc h c) = None"
    and "PullBatch rc rt env n mp = Returns (txs, mp')" "tx \<in> set txs" "pe_dedup env tx' = pe_dedup env tx"
  shows "\<exists>e. AddTx rc env tx' mp' = Returns (Inl e, mp')"
proof -
  obtain mp1 :: "('c, 't) Mempool" where "mp_dedup mp' = Dedup_Add rc (map (pe_dedup env) txs) (mp_dedup mp1)" using PullBatch_split [OF assms(3)] by blast
  then have "rc_Get rc (mp_dedup mp') (pe_dedup env tx') = CacheFound"
    using removed_cache.Dedup_Add_found [OF assms(1,2), of "pe_dedup env tx'" "map (pe_dedup env) txs"] assms(4,5) by simp
  then have "validateTransaction rc env tx' mp' = Returns (Some DuplicateTransaction)"
    using removed_cache.validateDuplicateTxs_found [OF assms(1)] by (simp add: validateTransaction_def del: validateDuplicateTxs.simps)
  then show ?thesis by (simp add: AddTx_def AddTx_locked_def split: option.split)
qed

theorem pulled_not_resubmitted_witness:
  "\<exists>mp' e. PullBatch set_cache set_cache pool_env 1 paid_pool = Returns ([pay ''a'' 60], mp') \<and>
    AddTx set_cache pool_env ((pay ''a'' 60)\<lparr>tx_Signature := ''other''\<rparr>) mp' = Returns (Inl e, mp')"
proof -
  have "\<exists>mp'. PullBatch set_cache set_cache pool_env 1 paid_pool = Returns ([pay ''a'' 60], mp')"
    using PullBatch_locked_ok [OF paid_pool_ok, of 1] by (auto simp: PullBatch_def PullBatch_publish_def paid_pool_def NewMempool_def SetCurrentSlot_def Let_def)
  then obtain mp' where p: "PullBatch set_cache set_cache pool_env 1 paid_pool = Returns ([pay ''a'' 60], mp')" by blast
  have "\<forall>h c. fst (rc_Set set_cache h c) = None" by (simp add: set_cache_def)
  then show ?thesis
    using pulled_not_resubmitted [OF set_cache.removed_cache_axioms _ p, of "pay ''a'' 60" "(pay ''a'' 60)\<lparr>tx_Signature := ''other''\<rparr>"] p
    by (auto simp: pool_env_def)
qed

section \<open>Where the books break\<close>

lemmas pool_eval =
  AddTx_def cheapValidateTransaction_def AddTx_locked_def validateTransaction_def validateBalance_def validateNonce1_def
  IsDuplicate_def set_cache_def pool_env_def pay_def NewMempool_def SetCurrentSlot_def add_total_def add_new_def

text \<open>
  A transfer to oneself is not checked against the balance but counts in the total. Of 100, after such a transfer of
  200, the subtraction wraps, and a transfer of a million to somebody else is let in.
\<close>

definition self_paid :: "(string set, string set) Mempool" where
  "self_paid = (SetCurrentSlot 5 (NewMempool 10 {} None))\<lparr>mp_txs := [(''s'', (pay ''s'' 200)\<lparr>tx_Recipient := ''aliceandbob''\<rparr>)], mp_txOrder := [''s''],
     mp_dedupTxHashSet := [''s''], mp_senderTotalAmount := [(''aliceandbob'', 200)]\<rparr>"

lemma self_transfer_opens_balance:
  "AddTx set_cache pool_env ((pay ''s'' 200)\<lparr>tx_Recipient := ''aliceandbob''\<rparr>) (SetCurrentSlot 5 (NewMempool 10 {} None)) = Returns (Inr ''s'', self_paid)"
  "\<exists>mp. AddTx set_cache pool_env (pay ''m'' 1000000) self_paid = Returns (Inr ''m'', mp)"
  "AddTx set_cache pool_env (pay ''m'' 1000000) (SetCurrentSlot 5 (NewMempool 10 {} None)) =
     Returns (Inl InsufficientFunds, SetCurrentSlot 5 (NewMempool 10 {} None))"
  by (simp_all add: pool_eval self_paid_def)

text \<open>
  Content is not added to the total but subtracted from it when it leaves the pool: content of amount 70 turns the total
  of 60 into a number close to the largest. Content without an amount makes \<open>PullBatch\<close> panic under the lock.
\<close>

lemma content_spoils_total:
  "sub_total ((pay ''c'' 70)\<lparr>tx_Type := TxTypeUserContent\<rparr>) (mp_senderTotalAmount paid_pool) = Some [(''aliceandbob'', - 10)]"
  "add_total ((pay ''c'' 70)\<lparr>tx_Type := TxTypeUserContent\<rparr>) (mp_senderTotalAmount paid_pool) = Some (mp_senderTotalAmount paid_pool)"
  by (simp_all add: sub_total_def add_total_def paid_pool_def pay_def)

lemma content_without_amount_panics:
  "PullBatch_locked pool_env 1 (paid_pool\<lparr>mp_txs := (''c'', (pay ''c'' 0)\<lparr>tx_Type := TxTypeUserContent, tx_Amount := None\<rparr>) # mp_txs paid_pool,
     mp_txOrder := [''c'', ''a'']\<rparr>) = Panics"
  by (simp add: PullBatch_locked_def paid_pool_def take_out_def sub_total_def pay_def Let_def)

text \<open>
  Between the release of the lock and the call of the filter, a transaction just pulled is let in again.
\<close>

lemma pulled_let_in_before_publish:
  "\<exists>mp1. PullBatch_locked pool_env 1 paid_pool = Returns ([pay ''a'' 60], mp1) \<and>
     AddTx set_cache pool_env (pay ''a'' 60) mp1 = Returns (Inr ''a'', paid_pool)"
  by (simp add: PullBatch_locked_def paid_pool_def take_out_def sub_total_def Let_def pool_eval)

text \<open>The size is checked before the lock is taken: of two callers that pass the check, both add.\<close>

lemma size_exceeded:
  fixes mp :: "(string set, string set) Mempool"
  defines "mp \<equiv> SetCurrentSlot 5 (NewMempool 1 {} None)"
  shows "cheapValidateTransaction pool_env (pay ''a'' 1) mp = None" "cheapValidateTransaction pool_env (pay ''b'' 1) mp = None"
    "\<exists>mp1 mp2. AddTx_locked set_cache pool_env (pay ''a'' 1) mp = Returns (None, mp1) \<and>
       AddTx_locked set_cache pool_env (pay ''b'' 1) mp1 = Returns (None, mp2) \<and> int (Pool_Size mp2) > mp_max mp2"
  by (simp_all add: mp_def pool_eval Pool_Size_def)

end
