(* ===== verification/Nodes.thy ===== *)
theory Nodes
  imports Mempools Collectors Leader_Schedules
begin

text \<open>
  What a node does with what it receives: the callbacks of \<open>p2p/pubsub.go\<close>, \<open>ProcessVote\<close> of \<open>p2p/vote.go\<close>, the check of
  a block's transactions of \<open>p2p/block.go\<close> and the ordering of synchronized blocks of \<open>p2p/block_ordering.go\<close>. A node
  composes the ledger with its block store, the vote collector and the mempool over one database. A callback is one
  step on the state \<open>Node\<close>. Cryptography, clocks and the libraries are fields of \<open>NodeEnv\<close>; what a callback sends to the
  network or to the clock is appended to \<open>nd_out\<close>. Logs and metrics are left out.
\<close>

section \<open>State\<close>

record ('db, 'c, 't) NodeEnv =
  ne_p :: "'db DatabaseProvider"
  ne_codecs :: Codecs
  ne_lib :: Lib
  ne_dedupCache :: "'c RemovedCache"
  ne_trackerCache :: "'t RemovedCache"
  ne_sha :: "string \<Rightarrow> string"
  ne_base58 :: "string \<Rightarrow> string option"
  ne_edVerify :: "string \<Rightarrow> string \<Rightarrow> string \<Rightarrow> bool"
  ne_edSign :: "string \<Rightarrow> string \<Rightarrow> string"
  ne_marshalTx :: "Transaction option \<Rightarrow> string"
  ne_marshalVote :: "u64 \<times> string \<times> string \<Rightarrow> string"
  ne_txVerify :: "Transaction \<Rightarrow> bool"
  ne_txDedup :: "Transaction \<Rightarrow> string"
  ne_now :: "u64 \<Rightarrow> u64"
  ne_publish :: "Vote \<Rightarrow> string option"
  ne_router :: bool
  ne_isListener :: bool
  ne_selfPubKey :: string
  ne_selfPrivKey :: string
  ne_leaderSchedule :: LeaderSchedule
  ne_TicksPerSlot :: u64
  ne_HashesPerTick :: u64

datatype node_out =
    SyncPoh string u64
  | SendVote Vote
  | SendEmptyBlocks "BroadcastedBlock list"
  | SendBlock BroadcastedBlock
  | StartCoreServices string u64

text \<open>The tracker of the ledger and the one of the mempool are the same object.\<close>

record ('db, 'c, 't) Node =
  nd_ledger :: "('db, 't) Ledger"
  nd_collector :: Collector
  nd_mempool :: "('c, 't) Mempool"
  nd_blockOrderingQueue :: "(u64 \<times> BroadcastedBlock) list"
  nd_nextExpectedSlot :: u64
  nd_worldLatestSlot :: u64
  nd_worldLatestPohSlot :: u64
  nd_ready :: bool
  nd_out :: "node_out list"

datatype node_error =
    NilBlockReceived
  | InvalidLeader
  | InvalidBlockSignature
  | InvalidTransaction string
  | RejectedTransactions pool_error
  | StoreFailed store_error
  | LedgerFailed ledger_error
  | VoteFailed vote_error
  | BlockNotFound u64
  | PublishFailed string
  | EncodeFailed string

abbreviation nd_store :: "('db, 'c, 't) Node \<Rightarrow> 'db BlockStore" where
  "nd_store nd \<equiv> lg_store (nd_ledger nd)"

abbreviation nd_set_store :: "'db BlockStore \<Rightarrow> ('db, 'c, 't) Node \<Rightarrow> ('db, 'c, 't) Node" where
  "nd_set_store s nd \<equiv> nd\<lparr>nd_ledger := (nd_ledger nd)\<lparr>lg_store := s\<rparr>\<rparr>"

text \<open>The mempool's view of the ledger and the stores, and the ledger's part of the state.\<close>

definition pool_view :: "('db, 'c, 't) NodeEnv \<Rightarrow> ('db, 'c, 't) Node \<Rightarrow> PoolEnv" where
  "pool_view env nd = node_env (ne_p env) (ne_codecs env) (ne_lib env) (ne_txDedup env) (ne_txVerify env) (bs_db (nd_store nd))"

definition set_ledger :: "('db, 't) Ledger \<Rightarrow> ('db, 'c, 't) Node \<Rightarrow> ('db, 'c, 't) Node" where
  "set_ledger l nd = nd\<lparr>nd_ledger := l, nd_mempool := (nd_mempool nd)\<lparr>mp_tracker := lg_tracker l\<rparr>\<rparr>"

section \<open>Checking a block\<close>

fun verify_txs :: "('db, 'c, 't) NodeEnv \<Rightarrow> Transaction option list \<Rightarrow> node_error option" where
  "verify_txs env [] = None"
| "verify_txs env (None # txs) = verify_txs env txs"
| "verify_txs env (Some tx # txs) =
     (if \<not> ne_txVerify env tx then Some (InvalidTransaction (c_hash (ne_codecs env) (Some tx))) else verify_txs env txs)"

definition verifyBlockTransactions :: "('db, 'c, 't) NodeEnv \<Rightarrow> BroadcastedBlock \<Rightarrow> node_error option" where
  "verifyBlockTransactions env blk = verify_txs env (concat (map e_Transactions (bb_Entries blk)))"

definition mark_PoH :: "('db, 'c, 't) NodeEnv \<Rightarrow> BroadcastedBlock \<Rightarrow> BroadcastedBlock" where
  "mark_PoH env blk = (case VerifyPoH (ne_sha env) (ne_marshalTx env) blk of None \<Rightarrow> blk | Some e \<Rightarrow> blk\<lparr>b_InvalidPoH := True\<rparr>)"

section \<open>Votes\<close>

definition applyDataToBlock :: "('db, 'c, 't) NodeEnv \<Rightarrow> Vote \<Rightarrow> ('db, 'c, 't) Node \<Rightarrow> (unit, node_error option \<times> ('db, 'c, 't) Node) outcome" where
  "applyDataToBlock env vote nd =
     (if IsApplied (ne_p env) (v_Slot vote) (nd_store nd) then Returns (None, nd)
      else case get_block (ne_p env) (ne_codecs env) (v_Slot vote) (nd_store nd) of
        None \<Rightarrow> Returns (Some (BlockNotFound (v_Slot vote)), nd)
      | Some b \<Rightarrow>
          (let nd1 = nd\<lparr>nd_mempool := SetCurrentSlot (v_Slot vote) (nd_mempool nd)\<rparr> in
           case Ledger_FinalizeBlock (ne_p env) (ne_lib env) (ne_codecs env) (ne_trackerCache env) (ne_isListener env) b (nd_ledger nd1) of
             Returns (Some e, l) \<Rightarrow> Returns (Some (LedgerFailed e), set_ledger l nd1)
           | Returns (None, l) \<Rightarrow> Returns (None, set_ledger l nd1)
           | _ \<Rightarrow> Panics))"

definition ProcessVote :: "('db, 'c, 't) NodeEnv \<Rightarrow> Vote \<Rightarrow> ('db, 'c, 't) Node \<Rightarrow> (unit, node_error option \<times> ('db, 'c, 't) Node) outcome" where
  "ProcessVote env vote nd =
     (case AddVote (Vote_Validate (ne_marshalVote env) (ne_base58 env) (ne_edVerify env)) vote (nd_collector nd) of
        (Inl e, c) \<Rightarrow> Returns (Some (VoteFailed e), nd\<lparr>nd_collector := c\<rparr>)
      | (Inr (committed, needApply), c) \<Rightarrow>
          (let nd1 = nd\<lparr>nd_collector := c\<rparr> in
           if \<not> HasCompleteBlock (ne_p env) (v_Slot vote) (nd_store nd1) then Returns (None, nd1)
           else if committed \<and> needApply then applyDataToBlock env vote nd1
           else Returns (None, nd1)))"

section \<open>Blocks from the network\<close>

definition self_vote :: "('db, 'c, 't) NodeEnv \<Rightarrow> BroadcastedBlock \<Rightarrow> Vote" where
  "self_vote env blk = Vote_Sign (ne_marshalVote env) (ne_edSign env) (ne_selfPrivKey env)
     \<lparr>v_Slot = b_Slot blk, v_BlockHash = b_Hash blk, v_VoterID = ne_selfPubKey env, v_Signature = ''''\<rparr>"

definition vote_for :: "('db, 'c, 't) NodeEnv \<Rightarrow> BroadcastedBlock \<Rightarrow> ('db, 'c, 't) Node \<Rightarrow> (unit, node_error option \<times> ('db, 'c, 't) Node) outcome" where
  "vote_for env blk nd =
     (let vote = self_vote env blk in
      case ProcessVote env vote nd of
        Returns (None, nd1) \<Rightarrow>
          (case ne_publish env vote of
             None \<Rightarrow> Returns (None, nd1\<lparr>nd_out := nd_out nd1 @ [SendVote vote]\<rparr>)
           | Some e \<Rightarrow> Returns (Some (PublishFailed e), nd1))
      | r \<Rightarrow> r)"

definition clean_mempool :: "('db, 'c, 't) NodeEnv \<Rightarrow> BroadcastedBlock \<Rightarrow> Transaction list \<Rightarrow> ('db, 'c, 't) Node \<Rightarrow> (pool_error, ('c, 't) Mempool) outcome" where
  "clean_mempool env blk txs nd =
     (let mp = nd_mempool nd in
      if b_InvalidPoH blk then Returns mp
      else BlockCleanup (pool_view env nd) (remdups (map (\<lambda>tx. c_hash (ne_codecs env) (Some tx)) txs))
             (mp\<lparr>mp_dedup := Dedup_Add (ne_dedupCache env) (map (ne_txDedup env) txs) (mp_dedup mp)\<rparr>))"

text \<open>After the block is stored: synchronize the clock, clean up the mempool, vote.\<close>

definition received_stored :: "('db, 'c, 't) NodeEnv \<Rightarrow> BroadcastedBlock \<Rightarrow> Transaction list \<Rightarrow> ('db, 'c, 't) Node \<Rightarrow> (unit, node_error option \<times> ('db, 'c, 't) Node) outcome" where
  "received_stored env blk txs nd =
     (let nd1 = (if b_Slot blk > bs_latestStore (nd_store nd) then nd\<lparr>nd_out := nd_out nd @ [SyncPoh (Broadcasted_LastEntryHash blk) (b_Slot blk)]\<rparr> else nd) in
      if ne_isListener env then Returns (None, nd1)
      else case clean_mempool env blk txs nd1 of
        Returns mp \<Rightarrow> vote_for env blk (nd1\<lparr>nd_mempool := mp\<rparr>)
      | _ \<Rightarrow> Panics)"

definition OnBlockReceived :: "('db, 'c, 't) NodeEnv \<Rightarrow> BroadcastedBlock \<Rightarrow> ('db, 'c, 't) Node \<Rightarrow> (unit, node_error option \<times> ('db, 'c, 't) Node) outcome" where
  "OnBlockReceived env blk nd =
     (if get_block (ne_p env) (ne_codecs env) (b_Slot blk) (nd_store nd) \<noteq> None then Returns (None, nd)
      else case IsLeaderAt (b_Slot blk) (b_LeaderID blk) (ne_leaderSchedule env) of
        Returns False \<Rightarrow> Returns (Some InvalidLeader, nd)
      | Returns True \<Rightarrow>
          (if \<not> VerifySignature (ne_base58 env) (ne_edVerify env) blk then Returns (Some InvalidBlockSignature, nd)
           else case verifyBlockTransactions env blk of
             Some e \<Rightarrow> Returns (Some e, nd)
           | None \<Rightarrow>
               (let all = concat (map e_Transactions (bb_Entries blk)) in
                if None \<in> set all then Panics
                else case VerifyBlockTransactions (ne_dedupCache env) (pool_view env nd) (map the all) (nd_mempool nd) of
                  Some e \<Rightarrow> Returns (Some (RejectedTransactions e), nd)
                | None \<Rightarrow>
                    (let blk1 = mark_PoH env blk in
                     case AddBlockPending (ne_p env) (ne_codecs env) (ne_router env) (Some blk1) (nd_store nd) of
                       (Some e, s) \<Rightarrow> Returns (Some (StoreFailed e), nd_set_store s nd)
                     | (None, s) \<Rightarrow> received_stored env blk1 (map the all) (nd_set_store s nd))))
      | _ \<Rightarrow> Panics)"

fun OnEmptyBlockReceived :: "('db, 'c, 't) NodeEnv \<Rightarrow> BroadcastedBlock option list \<Rightarrow> ('db, 'c, 't) Node \<Rightarrow> ('db, 'c, 't) Node" where
  "OnEmptyBlockReceived env [] nd = nd"
| "OnEmptyBlockReceived env (None # blocks) nd = OnEmptyBlockReceived env blocks nd"
| "OnEmptyBlockReceived env (Some blk # blocks) nd =
     (if HasCompleteBlock (ne_p env) (b_Slot blk) (nd_store nd) then OnEmptyBlockReceived env blocks nd
      else OnEmptyBlockReceived env blocks
        (nd_set_store (snd (AddBlockPending (ne_p env) (ne_codecs env) (ne_router env) (Some blk) (nd_store nd))) nd))"

definition OnTransactionReceived :: "('db, 'c, 't) NodeEnv \<Rightarrow> Transaction \<Rightarrow> ('db, 'c, 't) Node \<Rightarrow> (unit, ('db, 'c, 't) Node) outcome" where
  "OnTransactionReceived env tx nd =
     (case AddTx (ne_dedupCache env) (pool_view env nd) tx (nd_mempool nd) of Returns (_, mp) \<Rightarrow> Returns (nd\<lparr>nd_mempool := mp\<rparr>) | _ \<Rightarrow> Panics)"

definition OnLatestSlotReceived :: "u64 \<Rightarrow> u64 \<Rightarrow> ('db, 'c, 't) Node \<Rightarrow> ('db, 'c, 't) Node" where
  "OnLatestSlotReceived latestSlot latestPohSlot nd =
     (let nd1 = (if nd_worldLatestSlot nd < latestSlot then nd\<lparr>nd_worldLatestSlot := latestSlot\<rparr> else nd) in
      if nd_worldLatestPohSlot nd1 < latestPohSlot then nd1\<lparr>nd_worldLatestPohSlot := latestPohSlot\<rparr> else nd1)"

section \<open>Ordering of synchronized blocks\<close>

definition isLeaderOfSlot :: "('db, 'c, 't) NodeEnv \<Rightarrow> u64 \<Rightarrow> (unit, bool) outcome" where
  "isLeaderOfSlot env slot =
     (case LeaderAt slot (ne_leaderSchedule env) of
        Returns (Some leader) \<Rightarrow> Returns (leader = ne_selfPubKey env)
      | Returns None \<Rightarrow> Returns False
      | _ \<Rightarrow> Panics)"

definition getPrevHashForSlot :: "('db, 'c, 't) NodeEnv \<Rightarrow> u64 \<Rightarrow> 'db BlockStore \<Rightarrow> BroadcastedBlock list \<Rightarrow> string" where
  "getPrevHashForSlot env slot bs processedBlocks =
     (let prevSlot = slot - 1 in
      if prevSlot = 0 then zero32
      else if processedBlocks \<noteq> [] then
        (let lastProcessedBlock = last processedBlocks in
         if b_Slot lastProcessedBlock = prevSlot then Broadcasted_LastEntryHash lastProcessedBlock else zero32)
      else case get_block (ne_p env) (ne_codecs env) prevSlot bs of Some prevBlock \<Rightarrow> Block_LastEntryHash prevBlock | None \<Rightarrow> zero32)"

definition empty_block :: "('db, 'c, 't) NodeEnv \<Rightarrow> u64 \<Rightarrow> string \<Rightarrow> BroadcastedBlock" where
  "empty_block env slot prevHash =
     Block_Sign (ne_edSign env) (ne_selfPrivKey env)
       (AssembleBlock (ne_sha env) (ne_now env slot) slot prevHash (ne_selfPubKey env)
          (GenerateTickOnlyEntries (ne_sha env) prevHash (sint (ne_TicksPerSlot env)) (ne_HashesPerTick env)))"

text \<open>
  The loop that finds the consecutive blocks: the next expected slot, the queue, the blocks found and the empty blocks
  made. It need not end when the latest slot of the network is the largest 64 bit number.
\<close>

record Found =
  f_next :: u64
  f_queue :: "(u64 \<times> BroadcastedBlock) list"
  f_processed :: "BroadcastedBlock list"
  f_empty :: "BroadcastedBlock list"

text \<open>One round: the loop ends with a result, or goes on.\<close>

definition find_round :: "('db, 'c, 't) NodeEnv \<Rightarrow> u64 \<Rightarrow> 'db BlockStore \<Rightarrow> Found \<Rightarrow> (unit, Found) outcome + Found" where
  "find_round env world bs f =
     (if f_next f > world then Inl (Returns f)
      else case map_of (f_queue f) (f_next f) of
        Some blk \<Rightarrow> Inr (f\<lparr>f_processed := f_processed f @ [blk], f_queue := AList.delete (f_next f) (f_queue f), f_next := f_next f + 1\<rparr>)
      | None \<Rightarrow>
          (case isLeaderOfSlot env (f_next f) of
             Returns True \<Rightarrow>
               (let emptyBlock = empty_block env (f_next f) (getPrevHashForSlot env (f_next f) bs (f_processed f)) in
                Inr (f\<lparr>f_processed := f_processed f @ [emptyBlock], f_empty := f_empty f @ [emptyBlock], f_next := f_next f + 1\<rparr>))
           | Returns False \<Rightarrow> Inl (Returns f)
           | _ \<Rightarrow> Inl Panics))"

partial_function (option) find_consecutive :: "('db, 'c, 't) NodeEnv \<Rightarrow> u64 \<Rightarrow> 'db BlockStore \<Rightarrow> Found \<Rightarrow> (unit, Found) outcome option" where
  "find_consecutive env world bs f =
     (case find_round env world bs f of
        Inl r \<Rightarrow> Some r
      | Inr f1 \<Rightarrow> find_consecutive env world bs f1)"

definition processBlock :: "('db, 'c, 't) NodeEnv \<Rightarrow> BroadcastedBlock \<Rightarrow> ('db, 'c, 't) Node \<Rightarrow> (unit, node_error option \<times> ('db, 'c, 't) Node) outcome" where
  "processBlock env blk nd =
     (if \<not> VerifySignature (ne_base58 env) (ne_edVerify env) blk then Returns (Some InvalidBlockSignature, nd)
      else case verifyBlockTransactions env blk of
        Some e \<Rightarrow> Returns (Some e, nd)
      | None \<Rightarrow>
          (let blk1 = mark_PoH env blk in
           case AddBlockPending (ne_p env) (ne_codecs env) (ne_router env) (Some blk1) (nd_store nd) of
             (Some e, s) \<Rightarrow> Returns (Some (StoreFailed e), nd_set_store s nd)
           | (None, s) \<Rightarrow>
               (let nd1 = nd_set_store s nd in
                case Ledger_FinalizeBlock (ne_p env) (ne_lib env) (ne_codecs env) (ne_trackerCache env) (ne_isListener env)
                       (BroadcastedBlockToBlock (c_hash (ne_codecs env)) blk1) (nd_ledger nd1) of
                  Returns (Some e, l) \<Rightarrow> Returns (Some (LedgerFailed e), set_ledger l nd1)
                | Returns (None, l) \<Rightarrow> Returns (None, set_ledger l nd1)
                | _ \<Rightarrow> Panics)))"

text \<open>A block that fails is skipped.\<close>

fun process_all :: "('db, 'c, 't) NodeEnv \<Rightarrow> BroadcastedBlock list \<Rightarrow> ('db, 'c, 't) Node \<Rightarrow> (unit, ('db, 'c, 't) Node) outcome" where
  "process_all env [] nd = Returns nd"
| "process_all env (blk # blks) nd =
     (case processBlock env blk nd of Returns (_, nd1) \<Rightarrow> process_all env blks nd1 | _ \<Rightarrow> Panics)"

definition processConsecutiveBlocks :: "('db, 'c, 't) NodeEnv \<Rightarrow> ('db, 'c, 't) Node \<Rightarrow> (unit, BroadcastedBlock option \<times> ('db, 'c, 't) Node) outcome option" where
  "processConsecutiveBlocks env nd =
     (case find_consecutive env (nd_worldLatestSlot nd) (nd_store nd)
             \<lparr>f_next = nd_nextExpectedSlot nd, f_queue = nd_blockOrderingQueue nd, f_processed = [], f_empty = []\<rparr> of
        None \<Rightarrow> None
      | Some (Returns f) \<Rightarrow>
          Some (case process_all env (f_processed f) (nd\<lparr>nd_nextExpectedSlot := f_next f, nd_blockOrderingQueue := f_queue f\<rparr>) of
            Returns nd1 \<Rightarrow>
              (let nd2 = (if f_empty f \<noteq> [] then nd1\<lparr>nd_out := nd_out nd1 @ [SendEmptyBlocks (f_empty f)]\<rparr> else nd1) in
               Returns (if f_processed f = [] then None else Some (last (f_processed f)), nd2))
          | _ \<Rightarrow> Panics)
      | Some _ \<Rightarrow> Some Panics)"

definition AddBlockToOrderingQueue :: "('db, 'c, 't) NodeEnv \<Rightarrow> BroadcastedBlock option \<Rightarrow> ('db, 'c, 't) Node \<Rightarrow>
    (unit, (node_error + BroadcastedBlock option) \<times> ('db, 'c, 't) Node) outcome option" where
  "AddBlockToOrderingQueue env bo nd =
     (case bo of
        None \<Rightarrow> Some (Returns (Inl NilBlockReceived, nd))
      | Some blk \<Rightarrow>
          if HasCompleteBlock (ne_p env) (b_Slot blk) (nd_store nd) then Some (Returns (Inr None, nd))
          else map_option (\<lambda>r. case r of Returns (rs, nd1) \<Rightarrow> Returns (Inr rs, nd1) | _ \<Rightarrow> Panics)
            (processConsecutiveBlocks env (nd\<lparr>nd_blockOrderingQueue := AList.update (b_Slot blk) blk (nd_blockOrderingQueue nd)\<rparr>)))"

definition SetNextExpectedSlot :: "u64 \<Rightarrow> ('db, 'c, 't) Node \<Rightarrow> ('db, 'c, 't) Node" where
  "SetNextExpectedSlot slot nd = nd\<lparr>nd_nextExpectedSlot := slot\<rparr>"

text \<open>A node that is not ready starts its services when it has caught up.\<close>

definition OnSyncResponseReceived :: "('db, 'c, 't) NodeEnv \<Rightarrow> BroadcastedBlock option \<Rightarrow> ('db, 'c, 't) Node \<Rightarrow> (unit, ('db, 'c, 't) Node) outcome option" where
  "OnSyncResponseReceived env bo nd =
     (if bo = None then Some (Returns nd)
      else map_option (\<lambda>r. case r of
          Returns (Inr (Some latestProcessed), nd1) \<Rightarrow>
            (let gap = (if nd_worldLatestSlot nd1 > b_Slot latestProcessed then nd_worldLatestSlot nd1 - b_Slot latestProcessed else 0) in
             Returns (if \<not> nd_ready nd1 \<and> gap \<le> 0 then
               nd1\<lparr>nd_ready := True, nd_out := nd_out nd1 @ [StartCoreServices (Broadcasted_LastEntryHash latestProcessed) (b_Slot latestProcessed)]\<rparr> else nd1))
        | Returns (_, nd1) \<Rightarrow> Returns nd1
        | _ \<Rightarrow> Panics)
        (AddBlockToOrderingQueue env bo nd))"

section \<open>What the callbacks do to the database\<close>

definition finalized :: "(string \<rightharpoonup> string) \<Rightarrow> u64 set" where
  "finalized m = {slot. m (slotToFinalizedKey slot) \<noteq> None}"

text \<open>
  The database of a node: the ledger is well formed, a finalized slot has a block, and a block is stored under its slot.
\<close>

definition chain_ok :: "Codecs \<Rightarrow> (string \<rightharpoonup> string) \<Rightarrow> bool" where
  "chain_ok c m \<longleftrightarrow> ledger_ok c m \<and> (\<forall>slot \<in> finalized m. m (slotToBlockKey slot) \<noteq> None) \<and>
     (\<forall>slot b. block_view c m slot = Some b \<longrightarrow> b_Slot b = slot)"

abbreviation supply_in :: "Codecs \<Rightarrow> (string \<rightharpoonup> string) \<Rightarrow> nat" where
  "supply_in c m \<equiv> total_supply (balances (account_view (c_acc c) m))"

text \<open>
  A database advances: it remains well formed, no money is made or lost, what is finalized stays so, and accounts change
  only along with a slot that becomes finalized.
\<close>

definition advances :: "Codecs \<Rightarrow> (string \<rightharpoonup> string) \<Rightarrow> (string \<rightharpoonup> string) \<Rightarrow> bool" where
  "advances c m m' \<longleftrightarrow> chain_ok c m' \<and> supply_in c m' = supply_in c m \<and> finalized m \<subseteq> finalized m' \<and>
     (finalized m' = finalized m \<longrightarrow> account_view (c_acc c) m' = account_view (c_acc c) m)"

lemma advances_refl: "chain_ok c m \<Longrightarrow> advances c m m"
  by (simp add: advances_def)

lemma advances_trans [trans]: "advances c m m1 \<Longrightarrow> advances c m1 m2 \<Longrightarrow> advances c m m2"
  unfolding advances_def by (metis subset_antisym subset_trans)

lemma advances_chain: "advances c m m' \<Longrightarrow> chain_ok c m'"
  by (simp add: advances_def)

lemma chain_ok_not_finalized: "chain_ok c m \<Longrightarrow> m (slotToBlockKey slot) = None \<Longrightarrow> slot \<notin> finalized m"
  by (auto simp: chain_ok_def)

lemma chain_ok_cong:
  assumes "chain_ok c m" "account_view (c_acc c) m' = account_view (c_acc c) m" "finalized m' = finalized m"
    and "\<And>slot. m (slotToBlockKey slot) \<noteq> None \<Longrightarrow> m' (slotToBlockKey slot) \<noteq> None"
    and "\<And>slot b. block_view c m' slot = Some b \<Longrightarrow> b_Slot b = slot"
  shows "advances c m m'"
  using assms unfolding advances_def chain_ok_def ledger_ok_def by auto

context database_provider
begin

lemma AddBlockPending_advances:
  assumes "AddBlockPending p c r (Some b) s = (e, s')" "codecs_ok c" "chain_ok c (contents (bs_db s))"
  shows "advances c (contents (bs_db s)) (contents (bs_db s'))"
    and "e = None \<Longrightarrow> contents (bs_db s) (slotToBlockKey (b_Slot b)) = None"
    and "finalized (contents (bs_db s')) = finalized (contents (bs_db s))"
proof -
  have "advances c (contents (bs_db s)) (contents (bs_db s')) \<and> finalized (contents (bs_db s')) = finalized (contents (bs_db s))"
  proof (cases e)
    case (Some x)
    then show ?thesis using AddBlockPending_error [of c r "Some b" s x s'] assms(1,3) advances_refl by simp
  next
    case None
    obtain v opss where d: "enc (c_blk c) (BroadcastedBlockToBlock (c_hash c) b) = Inr v"
        "mapE (pending_tx_ops c b) (entry_txs (bb_Entries b)) = Inr opss"
        "contents (bs_db s') = apply_batch (concat opss)
          (if bs_latestStore s < b_Slot b then ((contents (bs_db s))(slotToBlockKey (b_Slot b) \<mapsto> v))(latest_store_key \<mapsto> be64 (b_Slot b))
           else (contents (bs_db s))(slotToBlockKey (b_Slot b) \<mapsto> v))"
      using AddBlockPending_done assms(1) None by blast
    have other: "contents (bs_db s') (slotToBlockKey slot) = (if slot = b_Slot b then Some v else contents (bs_db s) (slotToBlockKey slot))"
        "contents (bs_db s') (account_key a) = contents (bs_db s) (account_key a)"
        "contents (bs_db s') (slotToFinalizedKey slot) = contents (bs_db s) (slotToFinalizedKey slot)" for slot a
      unfolding d(3) by (subst pending_other [OF d(2)]; auto)+
    have "view (c_blk c) (Some v) = Some (BroadcastedBlockToBlock (c_hash c) b)"
      using assms(2) d(1) by (simp add: codecs_ok_def view_encoded)
    then have "b_Slot b' = slot" if "block_view c (contents (bs_db s')) slot = Some b'" for slot b'
      using that assms(3) by (auto simp: block_view_def other chain_ok_def BroadcastedBlockToBlock_def split: if_splits)
    moreover have "finalized (contents (bs_db s')) = finalized (contents (bs_db s))" by (simp add: finalized_def other)
    moreover note view_cong(1) [of "contents (bs_db s')" "contents (bs_db s)", OF other(2)]
    ultimately show ?thesis using assms(3) chain_ok_cong [of c "contents (bs_db s)" "contents (bs_db s')"] by (simp add: other)
  qed
  then show "advances c (contents (bs_db s)) (contents (bs_db s'))" "finalized (contents (bs_db s')) = finalized (contents (bs_db s))" by simp_all
  show "e = None \<Longrightarrow> contents (bs_db s) (slotToBlockKey (b_Slot b)) = None"
    using AddBlockPending_done assms(1) by blast
qed

text \<open>The block keys and the markers after a finalization.\<close>

lemma FinalizeBlock_slots:
  assumes "FinalizeBlock p c blk metas accs latest s = (None, s')" "codecs_ok c"
  shows "contents (bs_db s) (slotToBlockKey (b_Slot blk)) \<noteq> None"
    and "finalized (contents (bs_db s')) = insert (b_Slot blk) (finalized (contents (bs_db s)))"
    and "block_view c (contents (bs_db s')) = (block_view c (contents (bs_db s)))(b_Slot blk \<mapsto> blk\<lparr>b_Status := BlockFinalized\<rparr>)"
    and "contents (bs_db s') (slotToBlockKey slot) = None \<Longrightarrow> contents (bs_db s) (slotToBlockKey slot) = None"
proof -
  obtain ops where o: "contents (bs_db s) (slotToBlockKey (b_Slot blk)) \<noteq> None" "finalize_ops c blk metas accs latest = Inr ops"
      "contents (bs_db s') = (if bs_latestFinalized s < b_Slot blk
        then (apply_batch ops (contents (bs_db s)))(latest_finalized_key \<mapsto> be64 (b_Slot blk)) else apply_batch ops (contents (bs_db s)))"
    using FinalizeBlock_done [OF assms(1)] by blast
  obtain v mo ao co where v: "enc (c_blk c) (blk\<lparr>b_Status := BlockFinalized\<rparr>) = Inr v"
      "ops = BPut (slotToBlockKey (b_Slot blk)) v # mo @ ao @ co @ [BPut (slotToFinalizedKey (b_Slot blk)) [CHR 0x01]]"
    and frame: "\<And>m k. k \<notin> range tx_meta_key \<Longrightarrow> apply_batch mo m k = m k" "\<And>m k. k \<notin> range account_key \<Longrightarrow> apply_batch ao m k = m k"
      "\<And>m k. k \<notin> range content_key \<Longrightarrow> apply_batch co m k = m k"
    using finalize_ops_parts [OF o(2)] by blast
  have blk: "contents (bs_db s') (slotToBlockKey slot) = (if slot = b_Slot blk then Some v else contents (bs_db s) (slotToBlockKey slot))" for slot
    by (simp add: o(3) v(2) frame)
  show "contents (bs_db s) (slotToBlockKey (b_Slot blk)) \<noteq> None" by (rule o(1))
  show "finalized (contents (bs_db s')) = insert (b_Slot blk) (finalized (contents (bs_db s)))"
    by (auto simp: finalized_def o(3) finalize_ops_frame(1) [OF o(2)])
  show "block_view c (contents (bs_db s')) = (block_view c (contents (bs_db s)))(b_Slot blk \<mapsto> blk\<lparr>b_Status := BlockFinalized\<rparr>)"
    using view_encoded [OF _ v(1)] assms(2) by (auto simp: block_view_def blk codecs_ok_def)
  show "contents (bs_db s') (slotToBlockKey slot) = None \<Longrightarrow> contents (bs_db s) (slotToBlockKey slot) = None"
    by (simp add: blk split: if_splits)
qed

lemma Ledger_FinalizeBlock_advances:
  assumes "Ledger_FinalizeBlock p lib c rc isListener b l = Returns (e, l')" "codecs_ok c" "hex_hashes c"
    and "chain_ok c (contents (bs_db (lg_store l)))" "b_Slot b \<notin> finalized (contents (bs_db (lg_store l)))"
  shows "advances c (contents (bs_db (lg_store l))) (contents (bs_db (lg_store l')))"
proof -
  let ?m = "contents (bs_db (lg_store l))" and ?m' = "contents (bs_db (lg_store l'))"
  consider "?m' = ?m" | "e = None" "\<not> b_InvalidPoH b"
    using assms(1) Ledger_FinalizeBlock_failed [of lib c rc isListener b l _ l'] Ledger_FinalizeBlock_invalid [of b p lib c rc isListener l]
    by (cases e; cases "b_InvalidPoH b") auto
  then show ?thesis
  proof cases
    case 1
    then show ?thesis using assms(4) advances_refl by simp
  next
    case 2
    obtain ps :: Pass and metas latest' s' where f: "FinalizeBlock p c b metas (ps_state ps) latest' (lg_store l) = (None, s')" "bs_db (lg_store l') = bs_db s'"
      using Ledger_FinalizeBlock_done [OF assms(1) [unfolded 2(1)] 2(2)] by blast
    note fs = FinalizeBlock_slots [OF f(1) assms(2)]
    have lo: "ledger_ok c ?m" using assms(4) by (simp add: chain_ok_def)
    have k: "ledger_ok c ?m'" "supply_in c ?m' = supply_in c ?m"
      using finalize_keeps_ledger [OF assms(2,3) lo assms(1)] by simp_all
    have "contents (bs_db s') (slotToBlockKey slot) \<noteq> None" if "slot \<in> insert (b_Slot b) (finalized ?m)" for slot
      using that fs(1) fs(4) [of slot] assms(4) unfolding chain_ok_def by blast
    moreover have "b_Slot b' = slot" if "block_view c (contents (bs_db s')) slot = Some b'" for slot b'
      using that assms(4) by (auto simp: fs(3) chain_ok_def split: if_splits)
    ultimately have "chain_ok c ?m'" unfolding chain_ok_def f(2) fs(2) using k(1) by (simp add: f(2))
    then show ?thesis using k(2) fs(2) assms(5) by (auto simp: advances_def f(2))
  qed
qed

end

text \<open>A node over a provider: the encodings are sound, and the existence of a key can always be read.\<close>

definition node_db :: "('db \<Rightarrow> string \<rightharpoonup> string) \<Rightarrow> ('db, 'c, 't) NodeEnv \<Rightarrow> bool" where
  "node_db contents env \<longleftrightarrow> database_provider (ne_p env) contents \<and> codecs_ok (ne_codecs env) \<and> hex_hashes (ne_codecs env) \<and>
     (\<forall>d k. \<exists>b. p_Has (ne_p env) d k = Inr b)"

abbreviation nd_contents :: "('db \<Rightarrow> string \<rightharpoonup> string) \<Rightarrow> ('db, 'c, 't) Node \<Rightarrow> string \<rightharpoonup> string" where
  "nd_contents contents nd \<equiv> contents (bs_db (nd_store nd))"

text \<open>The step from one node state to the next advances the database.\<close>

abbreviation node_advances :: "('db \<Rightarrow> string \<rightharpoonup> string) \<Rightarrow> ('db, 'c, 't) NodeEnv \<Rightarrow> ('db, 'c, 't) Node \<Rightarrow> ('db, 'c, 't) Node \<Rightarrow> bool" where
  "node_advances contents env nd nd' \<equiv> advances (ne_codecs env) (nd_contents contents nd) (nd_contents contents nd')"

abbreviation node_ok :: "('db \<Rightarrow> string \<rightharpoonup> string) \<Rightarrow> ('db, 'c, 't) NodeEnv \<Rightarrow> ('db, 'c, 't) Node \<Rightarrow> bool" where
  "node_ok contents env nd \<equiv> chain_ok (ne_codecs env) (nd_contents contents nd)"

lemma set_ledger_simps [simp]:
  "nd_ledger (set_ledger l nd) = l" "nd_collector (set_ledger l nd) = nd_collector nd"
  "nd_blockOrderingQueue (set_ledger l nd) = nd_blockOrderingQueue nd" "nd_nextExpectedSlot (set_ledger l nd) = nd_nextExpectedSlot nd"
  "nd_worldLatestSlot (set_ledger l nd) = nd_worldLatestSlot nd" "nd_out (set_ledger l nd) = nd_out nd" "nd_ready (set_ledger l nd) = nd_ready nd"
  by (simp_all add: set_ledger_def)

lemma mark_PoH_simps [simp]: "b_Slot (mark_PoH env blk) = b_Slot blk" "bb_Entries (mark_PoH env blk) = bb_Entries blk"
  by (simp_all add: mark_PoH_def split: option.splits)

lemma applyDataToBlock_advances:
  assumes "applyDataToBlock env vote nd = Returns (e, nd')" "node_db contents env" "node_ok contents env nd"
  shows "node_advances contents env nd nd'"
proof (cases "nd_contents contents nd' = nd_contents contents nd")
  case True
  then show ?thesis using assms(3) advances_refl by simp
next
  case False
  then obtain b e' l where a: "\<not> IsApplied (ne_p env) (v_Slot vote) (nd_store nd)"
      "get_block (ne_p env) (ne_codecs env) (v_Slot vote) (nd_store nd) = Some b"
      "Ledger_FinalizeBlock (ne_p env) (ne_lib env) (ne_codecs env) (ne_trackerCache env) (ne_isListener env) b (nd_ledger nd) = Returns (e', l)"
      "nd_ledger nd' = l"
    using assms(1) by (auto simp: applyDataToBlock_def Let_def split: if_splits option.splits outcome.splits)
  have d: "database_provider (ne_p env) contents" "codecs_ok (ne_codecs env)" "hex_hashes (ne_codecs env)" "\<And>d k. \<exists>b. p_Has (ne_p env) d k = Inr b"
    using assms(2) by (simp_all add: node_db_def)
  obtain h where h: "p_Has (ne_p env) (bs_db (nd_store nd)) (slotToFinalizedKey (v_Slot vote)) = Inr h" using d(4) by blast
  then have nf: "v_Slot vote \<notin> finalized (nd_contents contents nd)"
    using a(1) database_provider.Has_sound [OF d(1) h] by (simp add: IsApplied_def finalized_def)
  have "block_view (ne_codecs env) (nd_contents contents nd) (v_Slot vote) = Some b"
    using a(2) database_provider.Get_sound [OF d(1)]
    by (auto simp: get_block_def block_view_def view_def split: sum.splits option.splits)
  then have "b_Slot b = v_Slot vote" using assms(3) by (simp add: chain_ok_def)
  then show ?thesis
    using database_provider.Ledger_FinalizeBlock_advances [OF d(1) a(3) d(2,3) assms(3)] nf a(4) by simp
qed

lemma ProcessVote_advances:
  assumes "ProcessVote env vote nd = Returns (e, nd')" "node_db contents env" "node_ok contents env nd"
  shows "node_advances contents env nd nd'"
proof -
  obtain c where "nd' = nd\<lparr>nd_collector := c\<rparr> \<or> applyDataToBlock env vote (nd\<lparr>nd_collector := c\<rparr>) = Returns (e, nd')"
    using assms(1) by (auto simp: ProcessVote_def Let_def split: prod.splits sum.splits if_splits)
  then show ?thesis
    using applyDataToBlock_advances [OF _ assms(2), of vote "nd\<lparr>nd_collector := c\<rparr>" e nd'] assms(3) advances_refl by auto
qed

lemma vote_for_advances:
  assumes "vote_for env blk nd = Returns (e, nd')" "node_db contents env" "node_ok contents env nd"
  shows "node_advances contents env nd nd'"
proof -
  obtain e1 nd1 where "ProcessVote env (self_vote env blk) nd = Returns (e1, nd1)" "nd_ledger nd' = nd_ledger nd1"
    using assms(1) by (auto simp: vote_for_def Let_def split: outcome.splits option.splits prod.splits)
  then show ?thesis using ProcessVote_advances [OF _ assms(2,3)] by simp
qed

lemma received_stored_advances:
  assumes "received_stored env blk txs nd = Returns (e, nd')" "node_db contents env" "node_ok contents env nd"
  shows "node_advances contents env nd nd'"
proof -
  define nd1 where "nd1 = (if b_Slot blk > bs_latestStore (nd_store nd) then nd\<lparr>nd_out := nd_out nd @ [SyncPoh (Broadcasted_LastEntryHash blk) (b_Slot blk)]\<rparr> else nd)"
  have l: "nd_ledger nd1 = nd_ledger nd" by (simp add: nd1_def)
  consider "nd' = nd1" | mp where "vote_for env blk (nd1\<lparr>nd_mempool := mp\<rparr>) = Returns (e, nd')"
    using assms(1) by (auto simp: received_stored_def nd1_def [symmetric] Let_def split: if_splits outcome.splits)
  then show ?thesis
  proof cases
    case 1
    then show ?thesis using assms(3) advances_refl by (simp add: l)
  next
    case 2
    then show ?thesis using vote_for_advances [OF 2 assms(2)] assms(3) by (simp add: l)
  qed
qed

lemma stored_advances:
  assumes "AddBlockPending (ne_p env) (ne_codecs env) r (Some blk) (nd_store nd) = (e, s)" "node_db contents env" "node_ok contents env nd"
  shows "node_advances contents env nd (nd_set_store s nd)"
    and "e = None \<Longrightarrow> b_Slot blk \<notin> finalized (nd_contents contents nd)"
    and "finalized (contents (bs_db s)) = finalized (nd_contents contents nd)"
proof -
  have d: "database_provider (ne_p env) contents" "codecs_ok (ne_codecs env)" using assms(2) by (simp_all add: node_db_def)
  note a = database_provider.AddBlockPending_advances [OF d(1) assms(1) d(2) assms(3)]
  show "node_advances contents env nd (nd_set_store s nd)" using a(1) by simp
  show "e = None \<Longrightarrow> b_Slot blk \<notin> finalized (nd_contents contents nd)" using chain_ok_not_finalized [OF assms(3)] a(2) by blast
  show "finalized (contents (bs_db s)) = finalized (nd_contents contents nd)" by (rule a(3))
qed

lemma OnBlockReceived_split:
  assumes "OnBlockReceived env blk nd = Returns (e, nd')"
    and "AddBlockPending (ne_p env) (ne_codecs env) (ne_router env) (Some (mark_PoH env blk)) (nd_store nd) = (e1, s)"
  shows "nd' = nd \<or> nd' = nd_set_store s nd \<or> (e1 = None \<and> IsLeaderAt (b_Slot blk) (b_LeaderID blk) (ne_leaderSchedule env) = Returns True \<and>
    VerifySignature (ne_base58 env) (ne_edVerify env) blk \<and> verifyBlockTransactions env blk = None \<and>
    (\<exists>txs. received_stored env (mark_PoH env blk) txs (nd_set_store s nd) = Returns (e, nd')))"
  using assms(1) unfolding OnBlockReceived_def assms(2) Let_def
  by (simp split: if_split_asm outcome.split_asm bool.split_asm option.split_asm) blast+

lemma OnBlockReceived_advances:
  assumes "OnBlockReceived env blk nd = Returns (e, nd')" "node_db contents env" "node_ok contents env nd"
  shows "node_advances contents env nd nd'"
proof -
  obtain e1 s where a: "AddBlockPending (ne_p env) (ne_codecs env) (ne_router env) (Some (mark_PoH env blk)) (nd_store nd) = (e1, s)" by force
  note s = stored_advances(1) [OF a assms(2,3)]
  consider "nd' = nd" | "nd' = nd_set_store s nd" | txs where "received_stored env (mark_PoH env blk) txs (nd_set_store s nd) = Returns (e, nd')"
    using OnBlockReceived_split [OF assms(1) a] by blast
  then show ?thesis
  proof cases
    case 1
    then show ?thesis using assms(3) advances_refl by simp
  next
    case 2
    then show ?thesis using s by simp
  next
    case 3
    have "node_advances contents env (nd_set_store s nd) nd'" by (rule received_stored_advances [OF 3 assms(2) advances_chain [OF s]])
    then show ?thesis by (rule advances_trans [OF s])
  qed
qed

lemma OnEmptyBlockReceived_advances:
  assumes "node_db contents env" "node_ok contents env nd"
  shows "node_advances contents env nd (OnEmptyBlockReceived env blocks nd)"
proof (insert assms(2), induction blocks arbitrary: nd)
  case (Cons bo blocks)
  show ?case
  proof (cases bo)
    case (Some blk)
    obtain e s where a: "AddBlockPending (ne_p env) (ne_codecs env) (ne_router env) (Some blk) (nd_store nd) = (e, s)" by force
    note st = stored_advances(1) [OF a assms(1) Cons.prems]
    show ?thesis
      using Some a Cons.IH [OF Cons.prems] advances_trans [OF st Cons.IH [OF advances_chain [OF st]]] by simp
  qed (use Cons in simp)
qed (simp add: advances_refl)

lemma processBlock_advances:
  assumes "processBlock env blk nd = Returns (e, nd')" "node_db contents env" "node_ok contents env nd"
  shows "node_advances contents env nd nd'"
proof -
  let ?blk = "mark_PoH env blk"
  obtain e1 s where a: "AddBlockPending (ne_p env) (ne_codecs env) (ne_router env) (Some ?blk) (nd_store nd) = (e1, s)" by force
  note st = stored_advances [OF a assms(2,3)]
  have d: "database_provider (ne_p env) contents" "codecs_ok (ne_codecs env)" "hex_hashes (ne_codecs env)"
    using assms(2) by (simp_all add: node_db_def)
  consider "nd' = nd" | "nd' = nd_set_store s nd" | e2 l where "e1 = None" "Ledger_FinalizeBlock (ne_p env) (ne_lib env) (ne_codecs env) (ne_trackerCache env) (ne_isListener env)
      (BroadcastedBlockToBlock (c_hash (ne_codecs env)) ?blk) ((nd_ledger nd)\<lparr>lg_store := s\<rparr>) = Returns (e2, l)" "nd_ledger nd' = l"
    using assms(1) a by (auto simp: processBlock_def Let_def split: if_splits outcome.splits option.splits prod.splits)
  then show ?thesis
  proof cases
    case 1
    then show ?thesis using assms(3) advances_refl by simp
  next
    case 2
    then show ?thesis using st(1) by simp
  next
    case 3
    let ?l = "(nd_ledger nd)\<lparr>lg_store := s\<rparr>"
    have "chain_ok (ne_codecs env) (contents (bs_db (lg_store ?l)))" using advances_chain [OF st(1)] by simp
    moreover have "b_Slot (BroadcastedBlockToBlock (c_hash (ne_codecs env)) ?blk) \<notin> finalized (contents (bs_db (lg_store ?l)))"
      using st(2) [OF 3(1)] st(3) by (simp add: BroadcastedBlockToBlock_def)
    ultimately have "advances (ne_codecs env) (contents (bs_db s)) (contents (bs_db (lg_store l)))"
      using database_provider.Ledger_FinalizeBlock_advances [OF d(1) 3(2) d(2,3)] by simp
    then show ?thesis using st(1) advances_trans by (fastforce simp: 3(3))
  qed
qed

lemma process_all_advances:
  assumes "process_all env blks nd = Returns nd'" "node_db contents env" "node_ok contents env nd"
  shows "node_advances contents env nd nd'"
  using assms(1,3)
proof (induction blks arbitrary: nd)
  case (Cons blk blks)
  then obtain e nd1 where "processBlock env blk nd = Returns (e, nd1)" "process_all env blks nd1 = Returns nd'"
    by (auto split: outcome.splits)
  moreover from this(1) have "node_advances contents env nd nd1" using processBlock_advances assms(2) Cons.prems(2) by blast
  ultimately show ?case using Cons.IH advances_trans advances_chain by blast
qed (simp add: advances_refl)

lemma processConsecutiveBlocks_split:
  fixes nd :: "('db, 'c, 't) Node"
  assumes "processConsecutiveBlocks env nd = Some (Returns (r, nd'))"
  shows "\<exists>f nd1. find_consecutive env (nd_worldLatestSlot nd) (nd_store nd)
      \<lparr>f_next = nd_nextExpectedSlot nd, f_queue = nd_blockOrderingQueue nd, f_processed = [], f_empty = []\<rparr> = Some (Returns f) \<and>
    process_all env (f_processed f) (nd\<lparr>nd_nextExpectedSlot := f_next f, nd_blockOrderingQueue := f_queue f\<rparr>) = Returns nd1 \<and>
    nd' = (if f_empty f \<noteq> [] then nd1\<lparr>nd_out := nd_out nd1 @ [SendEmptyBlocks (f_empty f)]\<rparr> else nd1) \<and>
    r = (if f_processed f = [] then None else Some (last (f_processed f)))"
proof -
  obtain f where f: "find_consecutive env (nd_worldLatestSlot nd) (nd_store nd)
      \<lparr>f_next = nd_nextExpectedSlot nd, f_queue = nd_blockOrderingQueue nd, f_processed = [], f_empty = []\<rparr> = Some (Returns f)"
    using assms by (auto simp: processConsecutiveBlocks_def split: option.splits outcome.splits)
  obtain nd1 where "process_all env (f_processed f) (nd\<lparr>nd_nextExpectedSlot := f_next f, nd_blockOrderingQueue := f_queue f\<rparr>) = Returns nd1"
    using assms f by (simp add: processConsecutiveBlocks_def split: outcome.splits)
  then show ?thesis using assms f by (simp add: processConsecutiveBlocks_def Let_def)
qed

lemma processConsecutiveBlocks_advances:
  fixes nd :: "('db, 'c, 't) Node"
  assumes "processConsecutiveBlocks env nd = Some (Returns (r, nd'))" "node_db contents env" "node_ok contents env nd"
  shows "node_advances contents env nd nd'"
proof -
  obtain f :: Found and nd1 :: "('db, 'c, 't) Node"
    where p: "process_all env (f_processed f) (nd\<lparr>nd_nextExpectedSlot := f_next f, nd_blockOrderingQueue := f_queue f\<rparr>) = Returns nd1"
      "nd' = (if f_empty f \<noteq> [] then nd1\<lparr>nd_out := nd_out nd1 @ [SendEmptyBlocks (f_empty f)]\<rparr> else nd1)"
    using processConsecutiveBlocks_split [OF assms(1)] by blast
  have "nd_ledger nd' = nd_ledger nd1" by (simp add: p(2))
  then show ?thesis using process_all_advances [OF p(1) assms(2)] assms(3) by simp
qed

lemma AddBlockToOrderingQueue_split:
  assumes "AddBlockToOrderingQueue env (Some blk) nd = Some (Returns (r, nd'))" "\<not> HasCompleteBlock (ne_p env) (b_Slot blk) (nd_store nd)"
  shows "\<exists>rs. r = Inr rs \<and> processConsecutiveBlocks env (nd\<lparr>nd_blockOrderingQueue := AList.update (b_Slot blk) blk (nd_blockOrderingQueue nd)\<rparr>) = Some (Returns (rs, nd'))"
proof -
  let ?nd = "nd\<lparr>nd_blockOrderingQueue := AList.update (b_Slot blk) blk (nd_blockOrderingQueue nd)\<rparr>"
  obtain out where o: "processConsecutiveBlocks env ?nd = Some out" using assms by (auto simp: AddBlockToOrderingQueue_def)
  show ?thesis
  proof (cases out)
    case (Returns x)
    then show ?thesis using assms o by (cases x) (simp add: AddBlockToOrderingQueue_def)
  qed (use assms o in \<open>simp_all add: AddBlockToOrderingQueue_def\<close>)
qed

lemma AddBlockToOrderingQueue_advances:
  assumes "AddBlockToOrderingQueue env bo nd = Some (Returns (r, nd'))" "node_db contents env" "node_ok contents env nd"
  shows "node_advances contents env nd nd'"
proof (cases "nd' = nd")
  case True
  then show ?thesis using assms(3) advances_refl by simp
next
  case False
  then obtain blk where blk: "bo = Some blk" "\<not> HasCompleteBlock (ne_p env) (b_Slot blk) (nd_store nd)"
    using assms(1) by (cases bo) (auto simp: AddBlockToOrderingQueue_def split: if_splits)
  then obtain rs where "processConsecutiveBlocks env (nd\<lparr>nd_blockOrderingQueue := AList.update (b_Slot blk) blk (nd_blockOrderingQueue nd)\<rparr>) = Some (Returns (rs, nd'))"
    using AddBlockToOrderingQueue_split assms(1) by blast
  from processConsecutiveBlocks_advances [OF this assms(2)] show ?thesis using assms(3) by simp
qed

lemma OnSyncResponseReceived_split:
  assumes "OnSyncResponseReceived env (Some blk) nd = Some (Returns nd')"
  shows "\<exists>r nd1. AddBlockToOrderingQueue env (Some blk) nd = Some (Returns (r, nd1)) \<and> nd_ledger nd' = nd_ledger nd1 \<and>
    nd_nextExpectedSlot nd' = nd_nextExpectedSlot nd1 \<and> nd_blockOrderingQueue nd' = nd_blockOrderingQueue nd1"
proof -
  obtain out where o: "AddBlockToOrderingQueue env (Some blk) nd = Some out" using assms by (auto simp: OnSyncResponseReceived_def)
  obtain r nd1 where "out = Returns (r, nd1)" using assms o by (cases out) (auto simp: OnSyncResponseReceived_def)
  then show ?thesis using assms o by (auto simp: OnSyncResponseReceived_def Let_def split: sum.splits option.splits if_splits)
qed

lemma OnSyncResponseReceived_advances:
  assumes "OnSyncResponseReceived env bo nd = Some (Returns nd')" "node_db contents env" "node_ok contents env nd"
  shows "node_advances contents env nd nd'"
proof (cases bo)
  case None
  then show ?thesis using assms advances_refl by (simp add: OnSyncResponseReceived_def)
next
  case (Some blk)
  then show ?thesis
    using OnSyncResponseReceived_split [of env blk nd nd'] AddBlockToOrderingQueue_advances [OF _ assms(2,3)] assms(1) by force
qed

section \<open>Runs of a node\<close>

inductive node_step :: "('db, 'c, 't) NodeEnv \<Rightarrow> ('db, 'c, 't) Node \<Rightarrow> ('db, 'c, 't) Node \<Rightarrow> bool" for env where
  step_block: "OnBlockReceived env blk nd = Returns (e, nd') \<Longrightarrow> node_step env nd nd'"
| step_empty: "node_step env nd (OnEmptyBlockReceived env blocks nd)"
| step_vote: "ProcessVote env vote nd = Returns (e, nd') \<Longrightarrow> node_step env nd nd'"
| step_transaction: "OnTransactionReceived env tx nd = Returns nd' \<Longrightarrow> node_step env nd nd'"
| step_sync: "OnSyncResponseReceived env bo nd = Some (Returns nd') \<Longrightarrow> node_step env nd nd'"
| step_latest: "node_step env nd (OnLatestSlotReceived latestSlot latestPohSlot nd)"

lemma node_step_advances:
  assumes "node_step env nd nd'" "node_db contents env" "node_ok contents env nd"
  shows "node_advances contents env nd nd'"
  using assms(1)
proof cases
  case (step_transaction tx)
  then have "nd_ledger nd' = nd_ledger nd" by (auto simp: OnTransactionReceived_def split: outcome.splits)
  then show ?thesis using assms(3) advances_refl by simp
next
  case step_latest
  then have "nd_ledger nd' = nd_ledger nd" by (simp add: OnLatestSlotReceived_def Let_def)
  then show ?thesis using assms(3) advances_refl by simp
next
  case (step_block blk e)
  then show ?thesis by (rule OnBlockReceived_advances [OF _ assms(2,3)])
next
  case (step_empty blocks)
  then show ?thesis using OnEmptyBlockReceived_advances [OF assms(2,3)] by simp
next
  case (step_vote vote e)
  then show ?thesis by (rule ProcessVote_advances [OF _ assms(2,3)])
next
  case (step_sync bo)
  then show ?thesis by (rule OnSyncResponseReceived_advances [OF _ assms(2,3)])
qed

lemma node_run_advances:
  assumes "(node_step env)\<^sup>*\<^sup>* nd nd'" "node_db contents env" "node_ok contents env nd"
  shows "node_advances contents env nd nd'"
  using assms(1)
proof (induction rule: rtranclp_induct)
  case base
  show ?case by (rule advances_refl [OF assms(3)])
next
  case (step nd1 nd2)
  have "node_advances contents env nd1 nd2" by (rule node_step_advances [OF step(2) assms(2) advances_chain [OF step.IH]])
  with step.IH show ?case by (rule advances_trans)
qed

section \<open>The consecutive slots\<close>

text \<open>Every block of the queue is filed under its slot.\<close>

definition queue_ok :: "(u64 \<times> BroadcastedBlock) list \<Rightarrow> bool" where
  "queue_ok q \<longleftrightarrow> (\<forall>slot blk. map_of q slot = Some blk \<longrightarrow> b_Slot blk = slot)"

lemma queue_ok_update: "queue_ok q \<Longrightarrow> queue_ok (AList.update (b_Slot blk) blk q)"
  by (auto simp: queue_ok_def update_conv')

lemma queue_ok_delete: "queue_ok q \<Longrightarrow> queue_ok (AList.delete slot q)"
  by (auto simp: queue_ok_def delete_conv')

lemma empty_block_slot [simp]: "b_Slot (empty_block env slot h) = slot" "b_PrevHash (empty_block env slot h) = h"
    "b_LeaderID (empty_block env slot h) = ne_selfPubKey env"
  by (simp_all add: empty_block_def Block_Sign_def AssembleBlock_def Let_def)

text \<open>
  What holds of the loop's state: the blocks found so far have the slots from the first to the one before the next, each
  was in the queue or is an own empty block linked to the block before it, and the rest of the queue is untouched.
\<close>

definition own_block :: "('db, 'c, 't) NodeEnv \<Rightarrow> 'db BlockStore \<Rightarrow> BroadcastedBlock list \<Rightarrow> BroadcastedBlock \<Rightarrow> bool" where
  "own_block env bs before blk \<longleftrightarrow> isLeaderOfSlot env (b_Slot blk) = Returns True \<and> blk = empty_block env (b_Slot blk) (getPrevHashForSlot env (b_Slot blk) bs before)"

definition found_ok :: "('db, 'c, 't) NodeEnv \<Rightarrow> 'db BlockStore \<Rightarrow> u64 \<Rightarrow> (u64 \<times> BroadcastedBlock) list \<Rightarrow> Found \<Rightarrow> bool" where
  "found_ok env bs start q f \<longleftrightarrow> start \<le> f_next f \<and> map b_Slot (f_processed f) = map of_nat [unat start ..< unat (f_next f)] \<and>
     (\<forall>i < length (f_processed f). map_of q (start + of_nat i) = Some (f_processed f ! i) \<or>
        map_of q (start + of_nat i) = None \<and> own_block env bs (take i (f_processed f)) (f_processed f ! i)) \<and>
     (\<forall>slot. map_of (f_queue f) slot = (if start \<le> slot \<and> slot < f_next f then None else map_of q slot))"

lemma isLeaderOfSlot_returns: "ls_maxSlot (ne_leaderSchedule env) \<noteq> 0 \<Longrightarrow> \<exists>b. isLeaderOfSlot env slot = Returns b"
  by (auto simp: isLeaderOfSlot_def LeaderAt_def Let_def split: option.splits)

lemma found_ok_start: "found_ok env bs start q \<lparr>f_next = start, f_queue = q, f_processed = [], f_empty = []\<rparr>"
  by (auto simp: found_ok_def)

lemma unat_next:
  assumes "(x :: u64) \<le> world" "world < - 1"
  shows "unat (x + 1) = unat x + 1"
proof -
  have "unat x < unat (- 1 :: u64)" using assms by (simp add: word_le_nat_alt word_less_nat_alt)
  then have "unat x + unat (1 :: u64) < 2 ^ 64" by (simp add: unsigned_minus_1_eq_mask mask_eq_exp_minus_1)
  then show ?thesis by (subst unat_add_bounded) simp_all
qed

lemma found_ok_length:
  assumes "found_ok env bs start q f"
  shows "length (f_processed f) = unat (f_next f) - unat start" "start + of_nat (length (f_processed f)) = f_next f"
proof -
  have "length (map b_Slot (f_processed f)) = length (map of_nat [unat start ..< unat (f_next f)] :: u64 list)"
    using assms unfolding found_ok_def by metis
  then show l: "length (f_processed f) = unat (f_next f) - unat start" by simp
  have "unat start \<le> unat (f_next f)" using assms by (simp add: found_ok_def word_le_nat_alt)
  then have "start + of_nat (unat (f_next f) - unat start) = f_next f" by (simp add: of_nat_diff)
  then show "start + of_nat (length (f_processed f)) = f_next f" by (simp add: l)
qed

text \<open>Appending the block of the next slot keeps the invariant.\<close>

lemma found_ok_append:
  assumes "found_ok env bs start q f" "unat (f_next f + 1) = unat (f_next f) + 1" "b_Slot blk = f_next f"
    and "map_of q (f_next f) = Some blk \<or> map_of q (f_next f) = None \<and> own_block env bs (f_processed f) blk"
    and "\<And>slot. map_of q' slot = (if slot = f_next f then None else map_of (f_queue f) slot)"
  shows "found_ok env bs start q \<lparr>f_next = f_next f + 1, f_queue = q', f_processed = f_processed f @ [blk], f_empty = e\<rparr>"
proof -
  note l = found_ok_length [OF assms(1)]
  have le: "unat start \<le> unat (f_next f)" using assms(1) by (simp add: found_ok_def word_le_nat_alt)
  have lt: "slot < f_next f + 1 \<longleftrightarrow> slot < f_next f \<or> slot = f_next f" for slot
    unfolding word_less_nat_alt word_unat_eq_iff assms(2) by auto
  have "map b_Slot (f_processed f @ [blk]) = map of_nat [unat start ..< unat (f_next f + 1)]"
    using assms(1,3) le by (simp add: found_ok_def assms(2))
  moreover have "map_of q (start + of_nat i) = Some ((f_processed f @ [blk]) ! i) \<or>
      map_of q (start + of_nat i) = None \<and> own_block env bs (take i (f_processed f @ [blk])) ((f_processed f @ [blk]) ! i)"
    if "i < length (f_processed f @ [blk])" for i
  proof (cases "i = length (f_processed f)")
    case True
    then show ?thesis using assms(4) l(2) by simp
  next
    case False
    then have "i < length (f_processed f)" using that by simp
    then show ?thesis using assms(1) by (simp add: found_ok_def nth_append)
  qed
  moreover have "start \<le> f_next f + 1" using le by (simp add: word_le_nat_alt assms(2))
  moreover have "map_of q' slot = (if start \<le> slot \<and> slot < f_next f + 1 then None else map_of q slot)" for slot
    using assms(1) le by (auto simp: assms(5) found_ok_def lt)
  ultimately show ?thesis by (simp add: found_ok_def)
qed

lemma find_round_ok:
  assumes "find_round env world bs f = Inr f'" "found_ok env bs start q f" "queue_ok q" "world < - 1"
  shows "found_ok env bs start q f' \<and> f_next f' = f_next f + 1 \<and> f_next f \<le> world"
proof -
  have w: "f_next f \<le> world" using assms(1) by (auto simp: find_round_def split: if_splits)
  note n = unat_next [OF w assms(4)]
  have qf: "map_of (f_queue f) (f_next f) = map_of q (f_next f)" using assms(2) by (simp add: found_ok_def)
  show ?thesis
  proof (cases "map_of (f_queue f) (f_next f)")
    case (Some blk)
    then have f': "f' = \<lparr>f_next = f_next f + 1, f_queue = AList.delete (f_next f) (f_queue f), f_processed = f_processed f @ [blk], f_empty = f_empty f\<rparr>"
      using assms(1) w by (cases f) (simp add: find_round_def leD)
    have "b_Slot blk = f_next f" using assms(3) Some qf by (simp add: queue_ok_def)
    then show ?thesis
      unfolding f' using found_ok_append [OF assms(2) n, of blk] Some qf w by (simp add: delete_conv')
  next
    case None
    let ?blk = "empty_block env (f_next f) (getPrevHashForSlot env (f_next f) bs (f_processed f))"
    have lead: "isLeaderOfSlot env (f_next f) = Returns True"
        and f': "f' = \<lparr>f_next = f_next f + 1, f_queue = f_queue f, f_processed = f_processed f @ [?blk], f_empty = f_empty f @ [?blk]\<rparr>"
      using assms(1) w None by (cases f; simp add: find_round_def Let_def leD split: outcome.splits bool.splits)+
    have "own_block env bs (f_processed f) ?blk" using lead by (simp add: own_block_def)
    then show ?thesis
      unfolding f' using found_ok_append [OF assms(2) n, of ?blk "f_queue f"] None qf w by simp
  qed
qed

lemma find_consecutive_returns:
  assumes "found_ok env bs start q f" "queue_ok q" "world < - 1" "ls_maxSlot (ne_leaderSchedule env) \<noteq> 0"
  shows "\<exists>f'. find_consecutive env world bs f = Some (Returns f') \<and> found_ok env bs start q f' \<and>
    (world < f_next f' \<or> map_of (f_queue f') (f_next f') = None \<and> isLeaderOfSlot env (f_next f') = Returns False)"
  using assms(1)
proof (induction "unat world + 1 - unat (f_next f)" arbitrary: f rule: less_induct)
  case less
  show ?case
  proof (cases "find_round env world bs f")
    case (Inl r)
    obtain b where "isLeaderOfSlot env (f_next f) = Returns b" using isLeaderOfSlot_returns [OF assms(4)] by blast
    then have "r = Returns f \<and> (world < f_next f \<or> map_of (f_queue f) (f_next f) = None \<and> isLeaderOfSlot env (f_next f) = Returns False)"
      using Inl by (auto simp: find_round_def Let_def split: if_splits option.splits bool.splits)
    then show ?thesis using less.prems Inl by (simp add: find_consecutive.simps)
  next
    case (Inr f1)
    note r = find_round_ok [OF Inr less.prems assms(2,3)]
    have "unat (f_next f1) = unat (f_next f) + 1" "unat (f_next f) \<le> unat world"
      using r unat_next [of "f_next f" world] assms(3) by (simp_all add: word_le_nat_alt)
    then have "\<exists>f'. find_consecutive env world bs f1 = Some (Returns f') \<and> found_ok env bs start q f' \<and>
        (world < f_next f' \<or> map_of (f_queue f') (f_next f') = None \<and> isLeaderOfSlot env (f_next f') = Returns False)"
      by (intro less.hyps) (use r in auto)
    then show ?thesis using Inr by (subst find_consecutive.simps) simp
  qed
qed

section \<open>Properties of a node\<close>

text \<open>The parts of the claims that several of them share.\<close>

lemma node_dbD:
  assumes "node_db contents env"
  shows "database_provider (ne_p env) contents" "codecs_ok (ne_codecs env)" "hex_hashes (ne_codecs env)" "\<And>d k. \<exists>b. p_Has (ne_p env) d k = Inr b"
  using assms by (simp_all add: node_db_def)

lemma IsApplied_iff: "node_db contents env \<Longrightarrow> IsApplied (ne_p env) slot s \<longleftrightarrow> slot \<in> finalized (contents (bs_db s))"
  using node_dbD(4) [of contents env "bs_db s" "slotToFinalizedKey slot"]
  by (auto simp: IsApplied_def finalized_def dest!: database_provider.Has_sound [OF node_dbD(1)])

lemma HasCompleteBlock_iff: "node_db contents env \<Longrightarrow> HasCompleteBlock (ne_p env) slot s \<longleftrightarrow> contents (bs_db s) (slotToBlockKey slot) \<noteq> None"
  using node_dbD(4) [of contents env "bs_db s" "slotToBlockKey slot"]
  by (auto simp: HasCompleteBlock_def dest!: database_provider.Has_sound [OF node_dbD(1)])

lemma get_block_view: "node_db contents env \<Longrightarrow> get_block (ne_p env) (ne_codecs env) slot s = Some b \<Longrightarrow> block_view (ne_codecs env) (contents (bs_db s)) slot = Some b"
  using database_provider.Get_sound [OF node_dbD(1)]
  by (fastforce simp: get_block_def block_view_def view_def split: sum.splits option.splits)

abbreviation valid_vote :: "('db, 'c, 't) NodeEnv \<Rightarrow> Vote \<Rightarrow> bool" where
  "valid_vote env vote \<equiv> Vote_Validate (ne_marshalVote env) (ne_base58 env) (ne_edVerify env) vote = None"

lemma ProcessVote_counted:
  assumes "valid_vote env vote" "v_VoterID vote \<notin> voters (v_Slot vote) (nd_collector nd)"
    and "HasCompleteBlock (ne_p env) (v_Slot vote) (nd_store nd)"
  shows "\<exists>c. ProcessVote env vote nd =
    (if c_threshold (nd_collector nd) \<le> int (length (slot_votes (v_Slot vote) (nd_collector nd)) + 1)
     then applyDataToBlock env vote (nd\<lparr>nd_collector := c\<rparr>) else Returns (None, nd\<lparr>nd_collector := c\<rparr>))"
  using AddVote_new [of "Vote_Validate (ne_marshalVote env) (ne_base58 env) (ne_edVerify env)" vote "nd_collector nd"] assms
  by (auto simp: ProcessVote_def Let_def)

text \<open>A finalization that succeeded on a valid block of a new slot.\<close>

lemma applyDataToBlock_done:
  assumes "applyDataToBlock env vote nd = Returns (None, nd')" "node_db contents env" "node_ok contents env nd"
    and "v_Slot vote \<notin> finalized (nd_contents contents nd)" "block_view (ne_codecs env) (nd_contents contents nd) (v_Slot vote) = Some b" "\<not> b_InvalidPoH b"
  shows "v_Slot vote \<in> finalized (nd_contents contents nd')"
    and "balances (account_view (c_acc (ne_codecs env)) (nd_contents contents nd')) =
      fold transfer (filter is_transfer (block_txs (ne_codecs env) (nd_contents contents nd) b))
        (balances (account_view (c_acc (ne_codecs env)) (nd_contents contents nd)))"
proof -
  note d = node_dbD [OF assms(2)]
  obtain b' l where a: "get_block (ne_p env) (ne_codecs env) (v_Slot vote) (nd_store nd) = Some b'" "nd_ledger nd' = l"
      "Ledger_FinalizeBlock (ne_p env) (ne_lib env) (ne_codecs env) (ne_trackerCache env) (ne_isListener env) b' (nd_ledger nd) = Returns (None, l)"
    using assms(1,4) IsApplied_iff [OF assms(2)] by (auto simp: applyDataToBlock_def Let_def split: option.splits outcome.splits)
  have b: "b' = b" using get_block_view [OF assms(2) a(1)] assms(5) by simp
  then have slot: "b_Slot b = v_Slot vote" using assms(3,5) by (simp add: chain_ok_def)
  have lo: "ledger_ok (ne_codecs env) (nd_contents contents nd)" using assms(3) by (simp add: chain_ok_def)
  note fa = database_provider.finalized_accounts [OF d(1-3) lo a(3) [unfolded b] assms(6)]
  show "v_Slot vote \<in> finalized (nd_contents contents nd')" using fa by (auto simp: finalized_def slot a(2))
  show "balances (account_view (c_acc (ne_codecs env)) (nd_contents contents nd')) =
      fold transfer (filter is_transfer (block_txs (ne_codecs env) (nd_contents contents nd) b))
        (balances (account_view (c_acc (ne_codecs env)) (nd_contents contents nd)))"
    using fa by (auto simp: a(2))
qed

text \<open>
  Whatever a node receives and in whatever order, blocks, empty blocks, votes, transactions, synchronized blocks and
  slot announcements, the sum of all balances in its database never changes; a finalized slot stays
  finalized; and accounts change only when a slot becomes finalized that was not before: no slot is applied twice.
\<close>

theorem node_conserves_supply:
  assumes "node_db contents env" "node_ok contents env nd" "(node_step env)\<^sup>*\<^sup>* nd nd'"
  shows "total_supply (balances (account_view (c_acc (ne_codecs env)) (nd_contents contents nd'))) =
      total_supply (balances (account_view (c_acc (ne_codecs env)) (nd_contents contents nd))) \<and>
    finalized (nd_contents contents nd) \<subseteq> finalized (nd_contents contents nd') \<and>
    (finalized (nd_contents contents nd') = finalized (nd_contents contents nd) \<longrightarrow>
      account_view (c_acc (ne_codecs env)) (nd_contents contents nd') = account_view (c_acc (ne_codecs env)) (nd_contents contents nd))"
  using node_run_advances [OF assms(3,1,2)] by (simp add: advances_def)


text \<open>
  C11: The loop that orders synchronized blocks ends as long as the announced latest slot is not the largest 64 bit number.
  It hands out the blocks of consecutive slots, from the next expected one on, without a gap and none twice: each is
  the queued block of its slot or, in an own slot without one, an own empty block linked to the block before. It stops
  behind the latest slot or at a slot that is neither queued nor its own, and leaves all other queued blocks alone.
\<close>

theorem ordering_consecutive:
  assumes "queue_ok (nd_blockOrderingQueue nd)" "nd_worldLatestSlot nd < - 1" "ls_maxSlot (ne_leaderSchedule env) \<noteq> 0"
  shows "\<exists>f. find_consecutive env (nd_worldLatestSlot nd) (nd_store nd)
      \<lparr>f_next = nd_nextExpectedSlot nd, f_queue = nd_blockOrderingQueue nd, f_processed = [], f_empty = []\<rparr> = Some (Returns f) \<and>
    found_ok env (nd_store nd) (nd_nextExpectedSlot nd) (nd_blockOrderingQueue nd) f \<and>
    (nd_worldLatestSlot nd < f_next f \<or> map_of (f_queue f) (f_next f) = None \<and> isLeaderOfSlot env (f_next f) = Returns False)"
  by (rule find_consecutive_returns [OF found_ok_start assms])

text \<open>A node over the database of one account, with the block of slot 7 stored and a vote for it.\<close>

definition coin_env :: "(MemDB, string set, string set) NodeEnv" where
  "coin_env = \<lparr>ne_p = demo_provider, ne_codecs = coin_codecs, ne_lib = coin_lib, ne_dedupCache = set_cache, ne_trackerCache = set_cache,
     ne_sha = rev, ne_base58 = (\<lambda>_. Some (replicate 32 (CHR ''k''))), ne_edVerify = (\<lambda>_ _ _. True), ne_edSign = (\<lambda>_ _. replicate 64 (CHR ''s'')),
     ne_marshalTx = (\<lambda>_. ''''), ne_marshalVote = (\<lambda>_. ''''), ne_txVerify = (\<lambda>_. True), ne_txDedup = tx_TextData, ne_now = (\<lambda>s. s),
     ne_publish = (\<lambda>_. None), ne_router = True, ne_isListener = False, ne_selfPubKey = ''self'', ne_selfPrivKey = ''key'',
     ne_leaderSchedule = \<lparr>ls_entries = [], ls_maxSlot = 10\<rparr>, ne_TicksPerSlot = 2, ne_HashesPerTick = 2\<rparr>"

definition coin_node :: "(MemDB, string set, string set) Node" where
  "coin_node = \<lparr>nd_ledger = coin_ledger, nd_collector = NewCollector 1, nd_mempool = NewMempool 10 {} None, nd_blockOrderingQueue = [],
     nd_nextExpectedSlot = 8, nd_worldLatestSlot = 9, nd_worldLatestPohSlot = 9, nd_ready = True, nd_out = []\<rparr>"

definition coin_vote :: Vote where
  "coin_vote = \<lparr>v_Slot = 7, v_BlockHash = ''h'', v_VoterID = ''v'', v_Signature = replicate 64 (CHR ''s'')\<rparr>"

lemma coin_node_db: "node_db mem_contents coin_env"
  using mem_provider coin_codecs_ok by (simp add: node_db_def coin_env_def LevelDBProvider_def mem_level_def)

lemma coin_block_stored: "block_view coin_codecs (nd_contents mem_contents coin_node) slot = (if slot = 7 then Some coin_block else None)"
  by (simp add: block_view_def view_def coin_node_def coin_contents coin_entries_def coin_codecs_def demo_codecs_def table_codec_def coin_block_def)

lemma coin_not_finalized: "finalized (nd_contents mem_contents coin_node) = {}"
  by (auto simp: finalized_def coin_node_def coin_contents coin_entries_def)

lemma coin_node_ok: "node_ok mem_contents coin_env coin_node"
proof -
  have "b_Slot coin_block = 7" by (simp add: coin_block_def BroadcastedBlockToBlock_def demo_block_def AssembleBlock_def Let_def)
  moreover have "ledger_ok coin_codecs (nd_contents mem_contents coin_node)" using coin_ledger_ok by (simp add: coin_node_def)
  ultimately show ?thesis
    using coin_block_stored coin_not_finalized by (simp add: chain_ok_def coin_env_def)
qed

lemma coin_vote_valid: "valid_vote coin_env coin_vote" "v_VoterID coin_vote \<notin> voters (v_Slot coin_vote) (nd_collector coin_node)"
    "c_threshold (nd_collector coin_node) \<le> int (length (slot_votes (v_Slot coin_vote) (nd_collector coin_node)) + 1)"
  by (simp_all add: Vote_Validate_def getPublicKeyFromVoterID_def PublicKeySize_def SignatureSize_def coin_env_def coin_vote_def
      voters_def slot_votes_def coin_node_def NewCollector_def Let_def)

lemma coin_voted: "\<exists>nd'. ProcessVote coin_env coin_vote coin_node = Returns (None, nd')"
proof -
  have h: "HasCompleteBlock (ne_p coin_env) (v_Slot coin_vote) (nd_store coin_node)"
    by (simp add: HasCompleteBlock_def coin_env_def coin_vote_def coin_node_def coin_ledger_def LevelDBProvider_def mem_level_def mem_contents_def coin_entries_def)
  obtain c where p: "ProcessVote coin_env coin_vote coin_node = applyDataToBlock coin_env coin_vote (coin_node\<lparr>nd_collector := c\<rparr>)"
    using ProcessVote_counted [OF coin_vote_valid(1,2) h] coin_vote_valid(3) by auto
  have "\<not> IsApplied demo_provider 7 (lg_store coin_ledger)"
    by (simp add: IsApplied_def coin_ledger_def LevelDBProvider_def mem_level_def mem_contents_def coin_entries_def)
  moreover have "get_block demo_provider coin_codecs 7 (lg_store coin_ledger) = Some coin_block"
    by (simp add: get_block_def coin_ledger_def LevelDBProvider_def LevelDB_Get_def mem_level_def mem_contents_def coin_entries_def
        coin_codecs_def demo_codecs_def table_codec_def coin_block_def)
  ultimately show ?thesis
    unfolding p using coin_finalized by (auto simp: applyDataToBlock_def coin_env_def coin_vote_def coin_node_def Let_def)
qed

theorem node_conserves_supply_witness:
  "\<exists>nd'. ProcessVote coin_env coin_vote coin_node = Returns (None, nd') \<and> total_supply (balances (account_view (c_acc coin_codecs) (nd_contents mem_contents nd'))) =
     total_supply (balances (account_view (c_acc coin_codecs) (nd_contents mem_contents coin_node)))"
proof -
  obtain nd' where nd': "ProcessVote coin_env coin_vote coin_node = Returns (None, nd')" using coin_voted by blast
  then have "(node_step coin_env)\<^sup>*\<^sup>* coin_node nd'" using step_vote by blast
  from node_conserves_supply [OF coin_node_db coin_node_ok this] show ?thesis using nd' by (simp add: coin_env_def)
qed


theorem ordering_consecutive_witness:
  "\<exists>f. find_consecutive coin_env 9 (nd_store coin_node) \<lparr>f_next = 7, f_queue = [(7, demo_block)], f_processed = [], f_empty = []\<rparr> = Some (Returns f) \<and>
     found_ok coin_env (nd_store coin_node) 7 [(7, demo_block)] f \<and> 7 < f_next f"
proof -
  let ?nd = "coin_node\<lparr>nd_nextExpectedSlot := 7, nd_blockOrderingQueue := [(7, demo_block)]\<rparr>"
  have "queue_ok (nd_blockOrderingQueue ?nd)" "nd_worldLatestSlot ?nd < - 1" "ls_maxSlot (ne_leaderSchedule coin_env) \<noteq> 0"
    by (simp_all add: queue_ok_def coin_node_def coin_env_def demo_block_simps)
  from ordering_consecutive [OF this] obtain f where
    f: "find_consecutive coin_env 9 (nd_store coin_node) \<lparr>f_next = 7, f_queue = [(7, demo_block)], f_processed = [], f_empty = []\<rparr> = Some (Returns f)"
      "found_ok coin_env (nd_store coin_node) 7 [(7, demo_block)] f" "9 < f_next f \<or> map_of (f_queue f) (f_next f) = None"
    by (auto simp: coin_node_def)
  have "f_next f \<noteq> 7" using f(2,3) by (auto simp: found_ok_def)
  moreover have "7 \<le> f_next f" using f(2) by (simp add: found_ok_def)
  ultimately have "7 < f_next f" by (simp add: order_less_le)
  then show ?thesis using f by blast
qed

section \<open>What the callbacks let through\<close>

text \<open>
  The clock is never synchronized with the leader: the store has already counted the block when its counter is compared
  with the block's slot.
\<close>

lemma poh_never_synced:
  assumes "AddBlockPending p c r (Some blk) s = (None, s')"
  shows "\<not> b_Slot blk > bs_latestStore s'"
  using assms by (auto simp: AddBlockPending_def Let_def split: sum.splits if_splits prod.splits option.splits)

text \<open>A block from the topic of empty blocks is stored without any check, whatever it contains and whoever signed it.\<close>

lemma empty_block_unchecked:
  assumes "\<not> HasCompleteBlock (ne_p env) (b_Slot blk) (nd_store nd)"
  shows "OnEmptyBlockReceived env [Some blk] nd =
    nd_set_store (snd (AddBlockPending (ne_p env) (ne_codecs env) (ne_router env) (Some blk) (nd_store nd))) nd"
  using assms by simp

text \<open>The leader schedule is not asked when a synchronized block is applied.\<close>

lemma sync_ignores_schedule: "processBlock (env\<lparr>ne_leaderSchedule := ls\<rparr>) blk nd = processBlock env blk nd"
proof -
  let ?env = "env\<lparr>ne_leaderSchedule := ls\<rparr>"
  have "verify_txs ?env txs = verify_txs env txs" for txs by (induction env txs rule: verify_txs.induct) simp_all
  then have "verifyBlockTransactions ?env blk = verifyBlockTransactions env blk" by (simp add: verifyBlockTransactions_def)
  moreover have "mark_PoH ?env blk = mark_PoH env blk" by (simp add: mark_PoH_def)
  moreover have "ne_p ?env = ne_p env" "ne_codecs ?env = ne_codecs env" "ne_router ?env = ne_router env" "ne_lib ?env = ne_lib env"
      "ne_trackerCache ?env = ne_trackerCache env" "ne_isListener ?env = ne_isListener env" "ne_base58 ?env = ne_base58 env" "ne_edVerify ?env = ne_edVerify env"
    by simp_all
  ultimately show ?thesis unfolding processBlock_def by presburger
qed

text \<open>
  When the next expected slot is stored but not finalized, the synchronized block of that slot is dropped, and the
  ordering does not get past it.
\<close>

lemma ordering_stalls:
  assumes "HasCompleteBlock (ne_p env) (b_Slot blk) (nd_store nd)"
  shows "AddBlockToOrderingQueue env (Some blk) nd = Some (Returns (Inr None, nd))"
  using assms by (simp add: AddBlockToOrderingQueue_def)

lemma ordering_stalls_at_gap:
  assumes "map_of (f_queue f) (f_next f) = None" "isLeaderOfSlot env (f_next f) = Returns False"
  shows "find_consecutive env world bs f = Some (Returns f)"
  using assms by (simp add: find_consecutive.simps find_round_def)

text \<open>
  With the largest 64 bit number as latest slot, which any peer can announce, the loop of a node that leads every slot
  does not end.
\<close>

lemma ordering_diverges:
  fixes env :: "('db, 'c, 't) NodeEnv"
  assumes "\<And>slot. isLeaderOfSlot env slot = Returns True"
  shows "find_consecutive env (- 1) bs f = None"
proof -
  have "world = - 1 \<longrightarrow> (\<forall>slot. isLeaderOfSlot env' slot = Returns True) \<longrightarrow> False" if "find_consecutive env' world bs' f' = Some y"
    for env' :: "('db, 'c, 't) NodeEnv" and world bs' f' y
  proof (rule find_consecutive.raw_induct [OF _ that,
        where P = "\<lambda>env' world bs' f' y. world = - 1 \<longrightarrow> (\<forall>slot. isLeaderOfSlot env' slot = Returns True) \<longrightarrow> False"])
    fix rec :: "('db, 'c, 't) NodeEnv \<Rightarrow> u64 \<Rightarrow> 'db BlockStore \<Rightarrow> Found \<Rightarrow> (unit, Found) outcome option" and env' world bs' f' y
    assume IH: "\<And>env' world bs' f' y. rec env' world bs' f' = Some y \<Longrightarrow> world = - 1 \<longrightarrow> (\<forall>slot. isLeaderOfSlot env' slot = Returns True) \<longrightarrow> False"
      and r: "(case find_round env' world bs' f' of Inl r \<Rightarrow> Some r | Inr f1 \<Rightarrow> rec env' world bs' f1) = Some y"
    show "world = - 1 \<longrightarrow> (\<forall>slot. isLeaderOfSlot env' slot = Returns True) \<longrightarrow> False"
    proof (intro impI)
      assume l: "world = - 1" "\<forall>slot. isLeaderOfSlot env' slot = Returns True"
      then have "\<exists>f1. find_round env' world bs' f' = Inr f1" by (auto simp: find_round_def Let_def split: option.splits)
      then obtain f1 where "rec env' world bs' f1 = Some y" using r by auto
      from IH [OF this] show False using l by blast
    qed
  qed
  then show ?thesis using assms by (cases "find_consecutive env (- 1) bs f") blast+
qed

lemma latest_slot_unchecked: "nd_worldLatestSlot nd < slot \<Longrightarrow> nd_worldLatestSlot (OnLatestSlotReceived slot poh nd) = slot"
  by (simp add: OnLatestSlotReceived_def Let_def)

text \<open>A block that fails is not tried again: the next expected slot has moved on when it is processed.\<close>

lemma failed_block_skipped:
  assumes "processBlock env blk nd = Returns (Some e, nd1)"
  shows "process_all env (blk # blks) nd = process_all env blks nd1"
  using assms by simp

end
