(* ===== verification/Validators.thy ===== *)
theory Validators
  imports Nodes Poh_Clock "HOL-Library.Monad_Syntax"
begin

text \<open>
  The validator \<open>validator/validator.go\<close>, which leads its slots: it pulls transactions from the mempool, records them in
  the proof-of-history clock, collects the entries the clock service emits and assembles, signs and broadcasts a block at
  the last tick of each slot it leads. The broadcast is \<open>BroadcastBlockWithProcessing\<close> of \<open>p2p/block.go\<close>. The goroutines
  (clock, clock service, batch loop, role monitor, broadcasts, network callbacks) are the events of \<open>validator_next\<close>
  and \<open>validator_step\<close>; one round of a loop is one event, so is one round of the waiting loop of \<open>onLeaderSlotStart\<close>.
  The tick of the service and the call of \<open>OnEntry\<close> with its entries are one event. \<open>None\<close> stands for a panic. Timers are
  left out: they only decide when an event happens. The channel \<open>stopCh\<close> is never closed by the program.
\<close>

section \<open>State\<close>

record ('db, 'c, 't) ValidatorEnv =
  ve_node :: "('db, 'c, 't) NodeEnv"
  ve_Pubkey :: string
  ve_PrivKey :: string
  ve_Schedule :: LeaderSchedule
  ve_BatchSize :: int
  ve_marshalBlock :: "BroadcastedBlock \<Rightarrow> string + string"
  ve_topicBlocks :: bool
  ve_publishBlock :: "string \<Rightarrow> string option"

text \<open>
  \<open>va_waiting\<close> is the slot for which \<open>onLeaderSlotStart\<close> waits, \<open>va_drained\<close> the local variable of \<open>tickAndFlush\<close> between
  its two calls, \<open>va_spawned\<close> the blocks whose broadcasting goroutine has not run yet, and \<open>va_assembled\<close> all blocks
  assembled so far.
\<close>

record ('db, 'c, 't) Validator =
  va_recorder :: PohRecorder
  va_node :: "('db, 'c, 't) Node"
  va_leaderStartAtSlot :: u64
  va_collectedEntries :: "Entry list"
  va_pendingTxs :: "Transaction list"
  va_waiting :: "u64 option"
  va_drained :: "Entry list option"
  va_spawned :: "BroadcastedBlock list"
  va_assembled :: "BroadcastedBlock list"

abbreviation NoSlot :: u64 where "NoSlot \<equiv> - 1"

abbreviation ve_sha :: "('db, 'c, 't) ValidatorEnv \<Rightarrow> string \<Rightarrow> string" where "ve_sha env \<equiv> ne_sha (ve_node env)"

abbreviation ve_marshalTx :: "('db, 'c, 't) ValidatorEnv \<Rightarrow> Transaction option \<Rightarrow> string" where "ve_marshalTx env \<equiv> ne_marshalTx (ve_node env)"

text \<open>A negative batch size cannot be a capacity.\<close>

definition NewValidator :: "PohRecorder \<Rightarrow> int \<Rightarrow> ('db, 'c, 't) Node \<Rightarrow> ('db, 'c, 't) Validator option" where
  "NewValidator rec batchSize nd =
     (if batchSize < 0 then None
      else Some \<lparr>va_recorder = rec, va_node = nd, va_leaderStartAtSlot = NoSlot, va_collectedEntries = [], va_pendingTxs = [],
        va_waiting = None, va_drained = None, va_spawned = [], va_assembled = []\<rparr>)"

section \<open>Leading\<close>

definition IsLeader :: "('db, 'c, 't) ValidatorEnv \<Rightarrow> u64 \<Rightarrow> bool option" where
  "IsLeader env slot =
     (case LeaderAt slot (ve_Schedule env) of
        Returns (Some leader) \<Rightarrow> Some (leader = ve_Pubkey env)
      | Returns None \<Rightarrow> Some False
      | _ \<Rightarrow> None)"

abbreviation IsFollower :: "('db, 'c, 't) ValidatorEnv \<Rightarrow> u64 \<Rightarrow> bool option" where
  "IsFollower env slot \<equiv> map_option Not (IsLeader env slot)"

definition ReadyToStart :: "('db, 'c, 't) ValidatorEnv \<Rightarrow> u64 \<Rightarrow> ('db, 'c, 't) Validator \<Rightarrow> bool option" where
  "ReadyToStart env slot v = map_option (\<lambda>lead. lead \<and> va_leaderStartAtSlot v \<noteq> NoSlot) (IsLeader env slot)"

definition fastForwardTicks :: "('db, 'c, 't) ValidatorEnv \<Rightarrow> string \<Rightarrow> u64 \<Rightarrow> u64 \<Rightarrow> PohRecorder \<Rightarrow> (u64 \<times> string) \<times> PohRecorder" where
  "fastForwardTicks env seenHash fromSlot toSlot rec =
     (case FastForward (ve_sha env) seenHash fromSlot toSlot rec of (hash, rec') \<Rightarrow> ((toSlot, hash), rec'))"

text \<open>The end of \<open>onLeaderSlotStart\<close>, behind its waiting loop.\<close>

definition leader_ready :: "u64 \<Rightarrow> string \<Rightarrow> ('db, 'c, 't) Validator \<Rightarrow> ('db, 'c, 't) Validator" where
  "leader_ready currentSlot seedHash v =
     v\<lparr>va_recorder := Recorder_Reset seedHash (currentSlot - 1) (va_recorder v), va_collectedEntries := [], va_pendingTxs := [],
       va_leaderStartAtSlot := currentSlot, va_waiting := None\<rparr>"

text \<open>The two timers on which the loop wakes up.\<close>

datatype wake = TickerFires | DeadlineFires

definition onLeaderSlotStart :: "('db, 'c, 't) ValidatorEnv \<Rightarrow> wake \<Rightarrow> u64 \<Rightarrow> ('db, 'c, 't) Validator \<Rightarrow> ('db, 'c, 't) Validator" where
  "onLeaderSlotStart env w currentSlot v =
     (let prevSlot = currentSlot - 1; p = ne_p (ve_node env); c = ne_codecs (ve_node env); bs = nd_store (va_node v) in
      case w of
        TickerFires \<Rightarrow>
          (if HasCompleteBlock p prevSlot bs
           then leader_ready currentSlot (case LastEntryInfoAtSlot p c prevSlot bs of None \<Rightarrow> zero_hash | Some (_, h) \<Rightarrow> h) v
           else v)
      | DeadlineFires \<Rightarrow>
          (let lastSeenSlot = bs_latestStore bs;
               (fromSlot, hash) =
                 (case GetSlotHashFromQueue lastSeenSlot (va_recorder v) of
                    Some hash \<Rightarrow> (lastSeenSlot, hash)
                  | None \<Rightarrow> (case LastEntryInfoAtSlot p c lastSeenSlot bs of None \<Rightarrow> (0, zero_hash) | Some e \<Rightarrow> e));
               (seedSlot, rec) = fastForwardTicks env hash fromSlot prevSlot (va_recorder v) in
           leader_ready currentSlot (snd seedSlot) (v\<lparr>va_recorder := rec\<rparr>)))"

definition onLeaderSlotEnd :: "('db, 'c, 't) Validator \<Rightarrow> ('db, 'c, 't) Validator" where
  "onLeaderSlotEnd v = v\<lparr>va_leaderStartAtSlot := NoSlot\<rparr>"

text \<open>One round of the role monitor; the call of \<open>onLeaderSlotStart\<close> begins to wait.\<close>

definition roleMonitorLoop :: "('db, 'c, 't) ValidatorEnv \<Rightarrow> ('db, 'c, 't) Validator \<Rightarrow> ('db, 'c, 't) Validator option" where
  "roleMonitorLoop env v = do {
     slot \<leftarrow> CurrentSlot (va_recorder v);
     lead \<leftarrow> IsLeader env slot;
     Some (if lead then if va_leaderStartAtSlot v = NoSlot then v\<lparr>va_waiting := Some slot\<rparr> else v
           else if va_leaderStartAtSlot v \<noteq> NoSlot then onLeaderSlotEnd v else v)
   }"

section \<open>Entries\<close>

definition assemble :: "('db, 'c, 't) ValidatorEnv \<Rightarrow> u64 \<Rightarrow> Entry list \<Rightarrow> ('db, 'c, 't) Validator \<Rightarrow> BroadcastedBlock" where
  "assemble env lastSlot es v =
     (let prevHash = GetSlotHash (lastSlot - 1) (va_recorder v) in
      Block_Sign (ne_edSign (ve_node env)) (ve_PrivKey env)
        (AssembleBlock (ve_sha env) (ne_now (ve_node env) lastSlot) lastSlot prevHash (ve_Pubkey env) es))"

definition handleEntry :: "('db, 'c, 't) ValidatorEnv \<Rightarrow> Entry list \<Rightarrow> ('db, 'c, 't) Validator \<Rightarrow> ('db, 'c, 't) Validator option" where
  "handleEntry env es v =
     (if es = [] then None
      else do {
        currentSlot \<leftarrow> CurrentSlot (va_recorder v);
        let lastSlot = currentSlot - 1;
        lastTick \<leftarrow> IsLastTickOfSlot (va_recorder v);
        led \<leftarrow> (if lastTick then IsLeader env lastSlot else Some False);
        if led \<and> e_Tick (last es) \<and> va_collectedEntries v \<noteq> []
        then let blk = assemble env lastSlot (va_collectedEntries v @ es) v in
          Some (v\<lparr>va_collectedEntries := [], va_spawned := va_spawned v @ [blk], va_assembled := va_assembled v @ [blk]\<rparr>)
        else do {
          ready \<leftarrow> ReadyToStart env currentSlot v;
          Some (if ready then v\<lparr>va_collectedEntries := va_collectedEntries v @ es\<rparr> else v)
        }
      })"

section \<open>Resetting the clock\<close>

definition handleResetPohFromLeader :: "('db, 'c, 't) ValidatorEnv \<Rightarrow> string \<Rightarrow> u64 \<Rightarrow> ('db, 'c, 't) Validator \<Rightarrow> ('db, 'c, 't) Validator option" where
  "handleResetPohFromLeader env seedHash slot v = do {
     currentSlot \<leftarrow> CurrentSlot (va_recorder v);
     follows \<leftarrow> IsFollower env currentSlot;
     reset \<leftarrow> (if follows then IsFollower env slot else Some False);
     Some (if reset then v\<lparr>va_recorder := Recorder_Reset seedHash slot (va_recorder v)\<rparr> else v)
   }"

definition ForceResetPoh :: "string \<Rightarrow> u64 \<Rightarrow> ('db, 'c, 't) Validator \<Rightarrow> ('db, 'c, 't) Validator" where
  "ForceResetPoh seedHash slot v = v\<lparr>va_recorder := Recorder_Reset seedHash slot (va_recorder v)\<rparr>"

section \<open>Transactions\<close>

text \<open>The result \<open>Some None\<close> is the nil slice; a negative size cannot be allocated.\<close>

definition peekPendingTxs :: "int \<Rightarrow> ('db, 'c, 't) Validator \<Rightarrow> Transaction list option option" where
  "peekPendingTxs k v =
     (let pending = va_pendingTxs v in
      if pending = [] then Some None
      else let n = (if int (length pending) < k then int (length pending) else k) in
        if n < 0 then None else Some (Some (take (nat n) pending)))"

definition dropPendingTxs :: "nat \<Rightarrow> ('db, 'c, 't) Validator \<Rightarrow> ('db, 'c, 't) Validator" where
  "dropPendingTxs k v =
     (if k \<ge> length (va_pendingTxs v) then v\<lparr>va_pendingTxs := []\<rparr>
      else v\<lparr>va_pendingTxs := drop k (va_pendingTxs v)\<rparr>)"

text \<open>\<open>PullBatch\<close> on the mempool of the node, whose tracker is also the ledger's.\<close>

definition pull_batch :: "('db, 'c, 't) ValidatorEnv \<Rightarrow> ('db, 'c, 't) Node \<Rightarrow> (Transaction list \<times> ('db, 'c, 't) Node) option" where
  "pull_batch env nd =
     (case PullBatch (ne_dedupCache (ve_node env)) (ne_trackerCache (ve_node env)) (pool_view (ve_node env) nd) (ve_BatchSize env) (nd_mempool nd) of
        Returns (batch, mp) \<Rightarrow> Some (batch, nd\<lparr>nd_mempool := mp, nd_ledger := (nd_ledger nd)\<lparr>lg_tracker := mp_tracker mp\<rparr>\<rparr>)
      | _ \<Rightarrow> None)"

text \<open>One round of the batch loop.\<close>

definition record_pending :: "('db, 'c, 't) ValidatorEnv \<Rightarrow> ('db, 'c, 't) Validator \<Rightarrow> ('db, 'c, 't) Validator option" where
  "record_pending env v = do {
     recordTxs \<leftarrow> peekPendingTxs (ve_BatchSize env) v;
     (case recordTxs of
        None \<Rightarrow> Some v
      | Some txs \<Rightarrow>
          (case RecordTxs (ve_sha env) (ve_marshalTx env) (map Some txs) (va_recorder v) of
             (Inl e, rec) \<Rightarrow> Some (v\<lparr>va_recorder := rec\<rparr>)
           | (Inr entry, rec) \<Rightarrow> Some (dropPendingTxs (length txs) (v\<lparr>va_recorder := rec\<rparr>))))
   }"

definition leaderBatchLoop :: "('db, 'c, 't) ValidatorEnv \<Rightarrow> ('db, 'c, 't) Validator \<Rightarrow> ('db, 'c, 't) Validator option" where
  "leaderBatchLoop env v = do {
     slot \<leftarrow> CurrentSlot (va_recorder v);
     lead \<leftarrow> IsLeader env slot;
     ready \<leftarrow> ReadyToStart env slot v;
     if \<not> lead \<or> \<not> ready then Some v
     else do {
       (batch, nd) \<leftarrow> pull_batch env (va_node v);
       if batch = [] \<and> va_pendingTxs v = [] then Some (v\<lparr>va_node := nd\<rparr>)
       else record_pending env (v\<lparr>va_node := nd, va_pendingTxs := va_pendingTxs v @ batch\<rparr>)
     }
   }"

section \<open>Broadcasting\<close>

definition BroadcastBlockWithProcessing :: "('db, 'c, 't) ValidatorEnv \<Rightarrow> BroadcastedBlock \<Rightarrow> ('db, 'c, 't) Node \<Rightarrow> (unit, node_error option \<times> ('db, 'c, 't) Node) outcome" where
  "BroadcastBlockWithProcessing env blk nd =
     (case AddBlockPending (ne_p (ve_node env)) (ne_codecs (ve_node env)) (ne_router (ve_node env)) (Some blk) (nd_store nd) of
        (Some e, s) \<Rightarrow> Returns (Some (StoreFailed e), nd_set_store s nd)
      | (None, s) \<Rightarrow>
          (let nd1 = nd_set_store s nd in
           case ve_marshalBlock env blk of
             Inl e \<Rightarrow> Returns (Some (EncodeFailed e), nd1)
           | Inr data \<Rightarrow>
               (if \<not> ve_topicBlocks env then Returns (None, nd1)
                else case ve_publishBlock env data of
                  Some e \<Rightarrow> Returns (None, nd1)
                | None \<Rightarrow> vote_for (ve_node env) blk (nd1\<lparr>nd_out := nd_out nd1 @ [SendBlock blk]\<rparr>))))"


section \<open>The goroutines\<close>

datatype event =
    EvAutoHash
  | EvDrain
  | EvTick
  | EvBatch
  | EvRole
  | EvWait wake
  | EvSync string u64
  | EvForce string u64
  | EvBroadcast nat

definition clock_of :: "('db, 'c, 't) ValidatorEnv \<Rightarrow> ('db, 'c, 't) Validator \<Rightarrow> ('db, 'c, 't) Validator" where
  "clock_of env v = v\<lparr>va_recorder := (va_recorder v)\<lparr>r_poh := AutoHash (ve_sha env) (r_poh (va_recorder v))\<rparr>\<rparr>"

text \<open>The second half of a round of \<open>tickAndFlush\<close>: the tick and the hand-over.\<close>

definition tick_and_hand_over :: "('db, 'c, 't) ValidatorEnv \<Rightarrow> Entry list \<Rightarrow> ('db, 'c, 't) Validator \<Rightarrow> ('db, 'c, 't) Validator option" where
  "tick_and_hand_over env drained v =
     (case Recorder_Tick (ve_sha env) (va_recorder v) of
        (Returns tickEntry, rec) \<Rightarrow>
          (let es = drained @ (case tickEntry of None \<Rightarrow> [] | Some e \<Rightarrow> [e]);
               v1 = v\<lparr>va_recorder := rec, va_drained := None\<rparr> in
           if es = [] then Some v1 else handleEntry env es v1)
      | _ \<Rightarrow> None)"

fun validator_next :: "('db, 'c, 't) ValidatorEnv \<Rightarrow> event \<Rightarrow> ('db, 'c, 't) Validator \<Rightarrow> ('db, 'c, 't) Validator option" where
  "validator_next env EvAutoHash v = Some (clock_of env v)"
| "validator_next env EvDrain v =
     (if va_drained v \<noteq> None then None
      else case DrainEntries (va_recorder v) of (es, rec) \<Rightarrow> Some (v\<lparr>va_recorder := rec, va_drained := Some es\<rparr>))"
| "validator_next env EvTick v = Option.bind (va_drained v) (\<lambda>es. tick_and_hand_over env es v)"
| "validator_next env EvBatch v = leaderBatchLoop env v"
| "validator_next env EvRole v = (if va_waiting v = None then roleMonitorLoop env v else None)"
| "validator_next env (EvWait w) v = map_option (\<lambda>slot. onLeaderSlotStart env w slot v) (va_waiting v)"
| "validator_next env (EvSync seedHash slot) v = handleResetPohFromLeader env seedHash slot v"
| "validator_next env (EvForce seedHash slot) v = Some (ForceResetPoh seedHash slot v)"
| "validator_next env (EvBroadcast i) v =
     (if i < length (va_spawned v)
      then case BroadcastBlockWithProcessing env (va_spawned v ! i) (va_node v) of
        Returns (e, nd) \<Rightarrow> Some (v\<lparr>va_node := nd, va_spawned := take i (va_spawned v) @ drop (Suc i) (va_spawned v)\<rparr>)
      | _ \<Rightarrow> None
      else None)"

text \<open>A step of a validator: an event of its own, or a callback of the network.\<close>

inductive validator_step :: "('db, 'c, 't) ValidatorEnv \<Rightarrow> ('db, 'c, 't) Validator \<Rightarrow> ('db, 'c, 't) Validator \<Rightarrow> bool" for env where
  own_event: "validator_next env ev v = Some v' \<Longrightarrow> validator_step env v v'"
| network: "node_step (ve_node env) (va_node v) nd \<Longrightarrow> validator_step env v (v\<lparr>va_node := nd\<rparr>)"


section \<open>Helpers on the clock and the queue\<close>

lemma slot_of_next_tick:
  fixes t T :: u64
  assumes "t \<noteq> - 1" "2 \<le> unat T"
  shows "(t + 1) mod T \<noteq> 0 \<Longrightarrow> (t + 1) div T = t div T"
    and "(t + 1) mod T = 0 \<Longrightarrow> (t + 1) div T = t div T + 1"
    and "(t + 1) mod T = 0 \<Longrightarrow> t mod T \<noteq> 0"
    and "unat (t div T + 1) = unat (t div T) + 1"
proof -
  have s: "unat (t + 1) = Suc (unat t)"
    using assms(1) by (metis add.commute add_eq_0_iff unatSuc of_nat_1 Suc_eq_plus1 plus_1_eq_Suc add.inverse_inverse)
  have "unat t div unat T \<le> unat t div 2" by (rule div_le_mono2) (use assms(2) in simp_all)
  then have "unat (t div T) + 1 < 2 ^ 64" using unat_bound [of t] by (simp add: unat_div)
  then show d: "unat (t div T + 1) = unat (t div T) + 1" using unat_add_bounded [of "t div T" 1] by simp
  have z: "(w mod T = 0) = (unat w mod unat T = 0)" for w :: u64 by (metis unat_mod unat_eq_zero)
  show "(t + 1) mod T \<noteq> 0 \<Longrightarrow> (t + 1) div T = t div T"
    unfolding z by (simp add: word_unat_eq_iff unat_div s div_Suc)
  show "(t + 1) mod T = 0 \<Longrightarrow> (t + 1) div T = t div T + 1"
    unfolding z by (simp only: word_unat_eq_iff d) (simp add: unat_div s div_Suc)
  show "(t + 1) mod T = 0 \<Longrightarrow> t mod T \<noteq> 0"
    unfolding z s using assms(2) by (auto simp: mod_Suc split: if_splits)
qed

lemma Queue_Put_keeps_previous:
  assumes "2 \<le> maxSize q" "maxSize q < 2 ^ 64"
  shows "Queue_Get slot (Queue_Put (slot + 1) hash q) = Queue_Get slot q"
proof -
  have "unat (of_nat (maxSize q) :: u64) = maxSize q" using assms(2) by (simp add: unat_of_nat_small)
  then have "(of_nat (maxSize q) :: u64) \<noteq> 1" using assms(1) by auto
  then have "slot + 1 - of_nat (maxSize q) \<noteq> slot" by (simp add: algebra_simps)
  then show ?thesis by (auto simp: Queue_Get_def Queue_Put_def Let_def update_conv' delete_conv')
qed

lemma maxSize_Put [simp]: "maxSize (Queue_Put slot hash q) = maxSize q"
  by (simp add: Queue_Put_def Let_def)

lemma Recorder_Tick_moves:
  assumes "Recorder_Tick sha r = (Returns te, r')"
  shows "case te of
      None \<Rightarrow> r_tickHeight r' = r_tickHeight r \<and> r_slotHashQueue r' = r_slotHashQueue r
    | Some e \<Rightarrow> e_Tick e \<and> e_Transactions e = [] \<and> r_tickHeight r' = r_tickHeight r + 1 \<and>
        r_slotHashQueue r' = (if (r_tickHeight r + 1) mod r_ticksPerSlot r = 0
          then Queue_Put ((r_tickHeight r + 1) div r_ticksPerSlot r) (e_Hash e) (r_slotHashQueue r) else r_slotHashQueue r)"
  using assms
  by (auto simp: Recorder_Tick_def IsLastTickOfSlot_def NewTickEntry_def Let_def split: prod.splits option.splits if_splits)

lemma RecordTxs_moves:
  assumes "RecordTxs sha Marshal txs r = (out, r')"
  shows "r_tickHeight r' = r_tickHeight r" "r_slotHashQueue r' = r_slotHashQueue r" "r_ticksPerSlot r' = r_ticksPerSlot r"
    and "out = Inr e \<Longrightarrow> \<not> e_Tick e \<and> e_Transactions e = txs \<and> r_entries r' = r_entries r @ [e]"
    and "out = Inl err \<Longrightarrow> r_entries r' = r_entries r"
  using assms by (auto simp: RecordTxs_def NewTxEntry_def Let_def split: prod.splits option.splits if_splits)

section \<open>A leader and its window\<close>

definition leads :: "('db, 'c, 't) ValidatorEnv \<Rightarrow> ('db, 'c, 't) Validator \<Rightarrow> bool" where
  "leads env v \<longleftrightarrow> Option.bind (CurrentSlot (va_recorder v)) (IsLeader env) = Some True"

text \<open>The entries of the current slot that were recorded and not yet collected.\<close>

definition uncollected :: "('db, 'c, 't) Validator \<Rightarrow> Entry list" where
  "uncollected v = (case va_drained v of None \<Rightarrow> [] | Some es \<Rightarrow> es) @ r_entries (va_recorder v)"

text \<open>
  The entries of the current slot continue the chain of hashes from the slot before, and the clock continues from them.
\<close>

definition slot_chain :: "('db, 'c, 't) ValidatorEnv \<Rightarrow> string \<Rightarrow> ('db, 'c, 't) Validator \<Rightarrow> bool" where
  "slot_chain env h v \<longleftrightarrow> (let es = va_collectedEntries v @ uncollected v in
     Queue_Get (r_tickHeight (va_recorder v) div r_ticksPerSlot (va_recorder v)) (r_slotHashQueue (va_recorder v)) = Some h \<and>
     chain (ve_sha env) (ve_marshalTx env) h es \<and> linked (ve_sha env) (last_hash h es) (r_poh (va_recorder v)) \<and>
     list_all (entry_fits (ve_marshalTx env)) es)"

definition lead_ok :: "('db, 'c, 't) ValidatorEnv \<Rightarrow> ('db, 'c, 't) Validator \<Rightarrow> bool" where
  "lead_ok env v \<longleftrightarrow> (let r = va_recorder v in
     poh_ok (r_poh r) \<and> 2 \<le> unat (r_ticksPerSlot r) \<and> 2 \<le> maxSize (r_slotHashQueue r) \<and> maxSize (r_slotHashQueue r) < 2 ^ 64 \<and>
     va_leaderStartAtSlot v \<noteq> NoSlot \<and> va_waiting v = None \<and> (va_drained v \<noteq> None \<longrightarrow> r_entries r = []) \<and>
     list_all (\<lambda>e. \<not> e_Tick e) (uncollected v) \<and>
     (leads env v \<longrightarrow> (r_tickHeight r mod r_ticksPerSlot r \<noteq> 0 \<longrightarrow> va_collectedEntries v \<noteq> []) \<and> (\<exists>h. slot_chain env h v)))"

text \<open>All transactions that can be recorded are of the form an entry may hold.\<close>

definition txs_fit :: "('db, 'c, 't) ValidatorEnv \<Rightarrow> ('db, 'c, 't) Validator \<Rightarrow> bool" where
  "txs_fit env v \<longleftrightarrow> list_all (\<lambda>tx. tx_fits (ve_marshalTx env) (Some tx)) (va_pendingTxs v @ map snd (mp_txs (nd_mempool (va_node v))))"

text \<open>
  The events while a validator leads: nothing is recorded between the two halves of a flush, and the clock is not
  forced to another slot.
\<close>

fun led :: "('db, 'c, 't) ValidatorEnv \<Rightarrow> event \<Rightarrow> ('db, 'c, 't) Validator \<Rightarrow> bool" where
  "led env EvBatch v \<longleftrightarrow> leads env v \<and> va_drained v = None \<and> txs_fit env v"
| "led env EvTick v \<longleftrightarrow> leads env v \<and> r_tickHeight (va_recorder v) \<noteq> - 1"
| "led env (EvForce seedHash slot) v \<longleftrightarrow> False"
| "led env _ v \<longleftrightarrow> leads env v"

text \<open>A run of a leader, with the network callbacks in between.\<close>

inductive led_run :: "('db, 'c, 't) ValidatorEnv \<Rightarrow> ('db, 'c, 't) Validator \<Rightarrow> ('db, 'c, 't) Validator \<Rightarrow> bool" for env v0 where
  led_start: "led_run env v0 v0"
| led_event: "led_run env v0 v \<Longrightarrow> led env ev v \<Longrightarrow> validator_next env ev v = Some v' \<Longrightarrow> led_run env v0 v'"
| led_network: "led_run env v0 v \<Longrightarrow> node_step (ve_node env) (va_node v) nd \<Longrightarrow> led_run env v0 (v\<lparr>va_node := nd\<rparr>)"


lemma leads_slot: "leads env v \<longleftrightarrow> r_ticksPerSlot (va_recorder v) \<noteq> 0 \<and>
    IsLeader env (r_tickHeight (va_recorder v) div r_ticksPerSlot (va_recorder v) + 1) = Some True"
  by (simp add: leads_def CurrentSlot_def)

lemma IsLeader_total: "IsLeader env a = Some x \<Longrightarrow> \<exists>y. IsLeader env b = Some y"
  by (auto simp: IsLeader_def LeaderAt_def Let_def split: if_splits option.splits)

lemma handleEntry_assembles:
  assumes "es \<noteq> []" "e_Tick (last es)" "va_collectedEntries v \<noteq> []" "IsLastTickOfSlot (va_recorder v) = Some True"
    and "CurrentSlot (va_recorder v) = Some (slot + 1)" "IsLeader env slot = Some True"
  shows "handleEntry env es v = (let blk = assemble env slot (va_collectedEntries v @ es) v in
    Some (v\<lparr>va_collectedEntries := [], va_spawned := va_spawned v @ [blk], va_assembled := va_assembled v @ [blk]\<rparr>))"
  using assms by (simp add: handleEntry_def)

lemma handleEntry_collects:
  assumes "es \<noteq> []" "IsLastTickOfSlot (va_recorder v) \<noteq> Some True \<or> \<not> e_Tick (last es)" "leads env v" "va_leaderStartAtSlot v \<noteq> NoSlot"
  shows "handleEntry env es v = Some (v\<lparr>va_collectedEntries := va_collectedEntries v @ es\<rparr>)"
proof -
  have T: "r_ticksPerSlot (va_recorder v) \<noteq> 0" and l: "IsLeader env (r_tickHeight (va_recorder v) div r_ticksPerSlot (va_recorder v) + 1) = Some True"
    using assms(3) by (simp_all add: leads_slot)
  obtain y where y: "IsLeader env (r_tickHeight (va_recorder v) div r_ticksPerSlot (va_recorder v)) = Some y"
    using IsLeader_total [OF l] by blast
  show ?thesis
    using assms T l y by (auto simp: handleEntry_def CurrentSlot_def IsLastTickOfSlot_def ReadyToStart_def)
qed

section \<open>Blocks that others accept\<close>

text \<open>The key pair of the validator: what it signs verifies under the key its name encodes.\<close>

definition key_ok :: "('db, 'c, 't) ValidatorEnv \<Rightarrow> bool" where
  "key_ok env \<longleftrightarrow> (\<exists>pk. getPublicKeyFromLeaderID (ne_base58 (ve_node env)) (ve_Pubkey env) = Some pk \<and>
     (\<forall>m. length (ne_edSign (ve_node env) (ve_PrivKey env) m) = ed25519_SignatureSize \<and>
       ne_edVerify (ve_node env) pk m (ne_edSign (ve_node env) (ve_PrivKey env) m)))"

definition block_ok :: "('db, 'c, 't) ValidatorEnv \<Rightarrow> BroadcastedBlock \<Rightarrow> bool" where
  "block_ok env b \<longleftrightarrow> b_LeaderID b = ve_Pubkey env \<and> IsLeaderAt (b_Slot b) (b_LeaderID b) (ve_Schedule env) = Returns True \<and>
     VerifySignature (ne_base58 (ve_node env)) (ne_edVerify (ve_node env)) b \<and>
     (length (bb_Entries b) \<le> 100 \<longrightarrow> VerifyPoH (ve_sha env) (ve_marshalTx env) b = None)"

lemma IsLeader_At: "IsLeader env slot = Some True \<Longrightarrow> IsLeaderAt slot (ve_Pubkey env) (ve_Schedule env) = Returns True"
  by (auto simp: IsLeader_def IsLeaderAt_def split: outcome.splits option.splits)

lemma assemble_fields [simp]:
  "b_Slot (assemble env slot es v) = slot" "b_LeaderID (assemble env slot es v) = ve_Pubkey env"
  "bb_Entries (assemble env slot es v) = es" "b_PrevHash (assemble env slot es v) = GetSlotHash (slot - 1) (va_recorder v)"
  by (simp_all add: assemble_def Block_Sign_def AssembleBlock_def Let_def)

lemma assemble_signed: "key_ok env \<Longrightarrow> VerifySignature (ne_base58 (ve_node env)) (ne_edVerify (ve_node env)) (assemble env slot es v)"
  by (auto simp: key_ok_def VerifySignature_def assemble_def Block_Sign_def AssembleBlock_def Let_def)

lemma assemble_ok:
  assumes "key_ok env" "IsLeader env slot = Some True" "Queue_Get (slot - 1) (r_slotHashQueue (va_recorder v)) = Some h"
    and "chain (ve_sha env) (ve_marshalTx env) h es" "list_all (entry_fits (ve_marshalTx env)) es"
  shows "block_ok env (assemble env slot es v)"
  using assms IsLeader_At [OF assms(2)] assemble_signed [OF assms(1)]
  by (simp add: block_ok_def VerifyPoH_def VerifyEntries_def VerifyEntries_loop_accepts GetSlotHash_def)

section \<open>Steps of a leader\<close>

text \<open>What a step does to the blocks: nothing, or at the end of the slot it adds the block of the slot.\<close>

definition slot_of :: "('db, 'c, 't) Validator \<Rightarrow> u64" where
  "slot_of v = r_tickHeight (va_recorder v) div r_ticksPerSlot (va_recorder v)"

definition adds_block :: "('db, 'c, 't) ValidatorEnv \<Rightarrow> ('db, 'c, 't) Validator \<Rightarrow> ('db, 'c, 't) Validator \<Rightarrow> bool" where
  "adds_block env v v' \<longleftrightarrow> va_assembled v' = va_assembled v \<and> slot_of v' = slot_of v \<or>
     (\<exists>b. va_assembled v' = va_assembled v @ [b] \<and> b_Slot b = slot_of v' \<and> unat (slot_of v') = unat (slot_of v) + 1 \<and> block_ok env b)"

text \<open>The transactions a leader has taken out of the mempool, in the order in which it puts them into blocks.\<close>

definition carried :: "('db, 'c, 't) Validator \<Rightarrow> Transaction option list" where
  "carried v = concat (map e_Transactions (concat (map bb_Entries (va_assembled v)) @ va_collectedEntries v @ uncollected v)) @ map Some (va_pendingTxs v)"

lemma lead_okD:
  assumes "lead_ok env v"
  shows "poh_ok (r_poh (va_recorder v))" "2 \<le> unat (r_ticksPerSlot (va_recorder v))" "r_ticksPerSlot (va_recorder v) \<noteq> 0"
    and "2 \<le> maxSize (r_slotHashQueue (va_recorder v))" "maxSize (r_slotHashQueue (va_recorder v)) < 2 ^ 64"
    and "va_leaderStartAtSlot v \<noteq> NoSlot" "va_waiting v = None" "va_drained v \<noteq> None \<Longrightarrow> r_entries (va_recorder v) = []"
    and "list_all (\<lambda>e. \<not> e_Tick e) (uncollected v)"
    and "leads env v \<Longrightarrow> r_tickHeight (va_recorder v) mod r_ticksPerSlot (va_recorder v) \<noteq> 0 \<Longrightarrow> va_collectedEntries v \<noteq> []"
    and "leads env v \<Longrightarrow> \<exists>h. slot_chain env h v"
  using assms by (auto simp: lead_ok_def Let_def)


text \<open>A flush inside of a slot: the entries are collected.\<close>

lemma lead_ok_collect:
  assumes "lead_ok env v" "leads env v" "va_drained v = Some es" "r_entries r' = []" "poh_ok (r_poh r')"
    and "r_ticksPerSlot r' = r_ticksPerSlot (va_recorder v)" "r_slotHashQueue r' = r_slotHashQueue (va_recorder v)"
    and "r_tickHeight r' div r_ticksPerSlot r' = slot_of v" "r_tickHeight r' = r_tickHeight (va_recorder v) \<or> es' \<noteq> []"
    and "Queue_Get (slot_of v) (r_slotHashQueue r') = Some h"
    and "chain (ve_sha env) (ve_marshalTx env) h (va_collectedEntries v @ es')"
    and "linked (ve_sha env) (last_hash h (va_collectedEntries v @ es')) (r_poh r')"
    and "list_all (entry_fits (ve_marshalTx env)) (va_collectedEntries v @ es')" "concat (map e_Transactions es') = concat (map e_Transactions es)"
  shows "lead_ok env (v\<lparr>va_recorder := r', va_drained := None, va_collectedEntries := va_collectedEntries v @ es'\<rparr>)"
    and "adds_block env v (v\<lparr>va_recorder := r', va_drained := None, va_collectedEntries := va_collectedEntries v @ es'\<rparr>)"
    and "carried (v\<lparr>va_recorder := r', va_drained := None, va_collectedEntries := va_collectedEntries v @ es'\<rparr>) = carried v"
    and "leads env (v\<lparr>va_recorder := r', va_drained := None\<rparr>)"
proof -
  note d = lead_okD [OF assms(1)]
  have "r_tickHeight r' mod r_ticksPerSlot r' \<noteq> 0 \<Longrightarrow> va_collectedEntries v @ es' \<noteq> []"
    using assms(6,9) d(10) [OF assms(2)] by auto
  moreover have "slot_chain env h (v\<lparr>va_recorder := r', va_drained := None, va_collectedEntries := va_collectedEntries v @ es'\<rparr>)"
    using assms(4,8,10-13) by (simp add: slot_chain_def uncollected_def Let_def)
  ultimately show "lead_ok env (v\<lparr>va_recorder := r', va_drained := None, va_collectedEntries := va_collectedEntries v @ es'\<rparr>)"
    using d assms(4-7) by (auto simp: lead_ok_def Let_def uncollected_def)
  show "adds_block env v (v\<lparr>va_recorder := r', va_drained := None, va_collectedEntries := va_collectedEntries v @ es'\<rparr>)"
    using assms(8) by (simp add: adds_block_def slot_of_def)
  show "carried (v\<lparr>va_recorder := r', va_drained := None, va_collectedEntries := va_collectedEntries v @ es'\<rparr>) = carried v"
    using assms(3,4,14) d(8) by (simp add: carried_def uncollected_def)
  show "leads env (v\<lparr>va_recorder := r', va_drained := None\<rparr>)"
    using assms(2,6,8) by (simp add: leads_slot slot_of_def)
qed

lemma va_collected_same:
  "v\<lparr>va_recorder := r, va_drained := None, va_collectedEntries := va_collectedEntries v\<rparr> = v\<lparr>va_recorder := r, va_drained := None\<rparr>"
  by (cases v) simp

text \<open>A flush at the end of a slot: the block is assembled, and the chain starts anew from its last entry.\<close>

lemma slot_end_ok:
  assumes "key_ok env" "lead_ok env v" "leads env v" "r_tickHeight (va_recorder v) \<noteq> - 1" "va_drained v = Some es" "e_Tick e \<and> e_Transactions e = []"
    and lt: "(r_tickHeight (va_recorder v) + 1) mod r_ticksPerSlot (va_recorder v) = 0"
    and r': "r_ticksPerSlot r' = r_ticksPerSlot (va_recorder v)" "r_tickHeight r' = r_tickHeight (va_recorder v) + 1" "r_entries r' = []"
      "poh_ok (r_poh r')" "r_slotHashQueue r' = Queue_Put (r_tickHeight r' div r_ticksPerSlot r') (e_Hash e) (r_slotHashQueue (va_recorder v))"
    and "Queue_Get (slot_of v) (r_slotHashQueue (va_recorder v)) = Some h" "linked (ve_sha env) (e_Hash e) (r_poh r')"
    and "chain (ve_sha env) (ve_marshalTx env) h (va_collectedEntries v @ es @ [e])"
    and "list_all (entry_fits (ve_marshalTx env)) (va_collectedEntries v @ es @ [e])"
  shows "\<exists>v'. handleEntry env (es @ [e]) (v\<lparr>va_recorder := r', va_drained := None\<rparr>) = Some v' \<and> lead_ok env v' \<and> adds_block env v v' \<and> carried v' = carried v"
proof -
  note d = lead_okD [OF assms(2)] and s = slot_of_next_tick [OF assms(4) lead_okD(2) [OF assms(2)]]
  let ?v1 = "v\<lparr>va_recorder := r', va_drained := None\<rparr>"
  let ?b = "assemble env (slot_of v + 1) (va_collectedEntries v @ es @ [e]) ?v1"
  let ?v' = "?v1\<lparr>va_collectedEntries := [], va_spawned := va_spawned v @ [?b], va_assembled := va_assembled v @ [?b]\<rparr>"
  have slot: "r_tickHeight r' div r_ticksPerSlot r' = slot_of v + 1" using s(2) [OF lt] r'(1,2) by (simp add: slot_of_def)
  have lead: "IsLeader env (slot_of v + 1) = Some True" using assms(3) by (simp add: leads_slot slot_of_def)
  have "handleEntry env (es @ [e]) ?v1 = Some ?v'"
    using handleEntry_assembles [of "es @ [e]" ?v1 "slot_of v + 1" env] assms(6) lt r'(1,2) slot lead d(3) d(10) [OF assms(3) s(3) [OF lt]]
    by (simp add: IsLastTickOfSlot_def CurrentSlot_def Let_def)
  moreover have "block_ok env ?b"
    using assms(1,13,15,16) lead slot r'(5) Queue_Put_keeps_previous [OF d(4,5)] by (intro assemble_ok) simp_all
  then have "adds_block env v ?v'" using s(4) by (simp add: adds_block_def slot_of_def [of ?v'] slot) (simp add: slot_of_def)
  moreover have "slot_chain env (e_Hash e) ?v'"
    using assms(14) r'(3,5) Queue_Get_Put [of "r_slotHashQueue (va_recorder v)"] d(4,5)
    by (simp add: slot_chain_def uncollected_def last_hash_def)
  then have "lead_ok env ?v'" using d r' lt by (auto simp: lead_ok_def Let_def uncollected_def)
  moreover have "carried ?v' = carried v" using assms(5,6) r'(3) d(8) by (simp add: carried_def uncollected_def)
  ultimately show ?thesis by auto
qed

text \<open>A flush without a tick, and one with a tick.\<close>

lemma flush_no_tick_ok:
  assumes "lead_ok env v" "leads env v" "va_drained v = Some es" "r_entries r' = []" "poh_ok (r_poh r')"
    and r': "r_ticksPerSlot r' = r_ticksPerSlot (va_recorder v)" "r_tickHeight r' = r_tickHeight (va_recorder v)" "r_slotHashQueue r' = r_slotHashQueue (va_recorder v)"
    and h: "Queue_Get (slot_of v) (r_slotHashQueue (va_recorder v)) = Some h" "chain (ve_sha env) (ve_marshalTx env) h (va_collectedEntries v @ es)"
      "linked (ve_sha env) (last_hash h (va_collectedEntries v @ es)) (r_poh r')" "list_all (entry_fits (ve_marshalTx env)) (va_collectedEntries v @ es)"
    and t: "Recorder_Tick (ve_sha env) (va_recorder v) = (Returns None, r')"
  shows "\<exists>v'. tick_and_hand_over env es v = Some v' \<and> lead_ok env v' \<and> adds_block env v v' \<and> carried v' = carried v"
proof -
  let ?v' = "v\<lparr>va_recorder := r', va_drained := None, va_collectedEntries := va_collectedEntries v @ es\<rparr>"
  note k = lead_ok_collect [OF assms(1-5) r'(1,3), of es h]
  have k: "lead_ok env ?v'" "adds_block env v ?v'" "carried ?v' = carried v" "leads env (v\<lparr>va_recorder := r', va_drained := None\<rparr>)"
    by (rule k; use h r' in \<open>simp add: slot_of_def\<close>)+
  have "tick_and_hand_over env es v = Some ?v'"
  proof (cases "es = []")
    case True
    then show ?thesis using t by (simp add: tick_and_hand_over_def va_collected_same)
  next
    case False
    then have "\<not> e_Tick (last es)" using lead_okD(9) [OF assms(1)] assms(3) by (auto simp: uncollected_def list_all_iff)
    then show ?thesis using False t handleEntry_collects [OF False _ k(4)] lead_okD(6) [OF assms(1)] by (simp add: tick_and_hand_over_def)
  qed
  then show ?thesis using k by auto
qed

lemma flush_tick_ok:
  assumes "key_ok env" "lead_ok env v" "leads env v" "r_tickHeight (va_recorder v) \<noteq> - 1" "va_drained v = Some es" "r_entries r' = []" "poh_ok (r_poh r')"
    and "r_ticksPerSlot r' = r_ticksPerSlot (va_recorder v)"
    and h: "Queue_Get (slot_of v) (r_slotHashQueue (va_recorder v)) = Some h" "chain (ve_sha env) (ve_marshalTx env) h (va_collectedEntries v @ es @ [e])"
      "linked (ve_sha env) (e_Hash e) (r_poh r')" "list_all (entry_fits (ve_marshalTx env)) (va_collectedEntries v @ es @ [e])"
    and t: "Recorder_Tick (ve_sha env) (va_recorder v) = (Returns (Some e), r')"
  shows "\<exists>v'. tick_and_hand_over env es v = Some v' \<and> lead_ok env v' \<and> adds_block env v v' \<and> carried v' = carried v"
proof -
  let ?v1 = "v\<lparr>va_recorder := r', va_drained := None\<rparr>"
  let ?v' = "v\<lparr>va_recorder := r', va_drained := None, va_collectedEntries := va_collectedEntries v @ es @ [e]\<rparr>"
  note m = Recorder_Tick_moves [OF t, simplified]
  then have mv: "e_Tick e \<and> e_Transactions e = []" "r_tickHeight r' = r_tickHeight (va_recorder v) + 1" by simp_all
  have tk: "tick_and_hand_over env es v = handleEntry env (es @ [e]) ?v1" using t by (simp add: tick_and_hand_over_def)
  show ?thesis
  proof (cases "(r_tickHeight (va_recorder v) + 1) mod r_ticksPerSlot (va_recorder v) = 0")
    case True
    then have "r_slotHashQueue r' = Queue_Put (r_tickHeight r' div r_ticksPerSlot r') (e_Hash e) (r_slotHashQueue (va_recorder v))"
      using m assms(8) by simp
    from slot_end_ok [OF assms(1-5) mv(1) True assms(8) mv(2) assms(6,7) this h(1,3,2,4)] show ?thesis unfolding tk .
  next
    case False
    then have q: "r_slotHashQueue r' = r_slotHashQueue (va_recorder v)" using m by simp
    note k = lead_ok_collect [OF assms(2,3,5-8) q, of "es @ [e]" h]
    have k: "lead_ok env ?v'" "adds_block env v ?v'" "carried ?v' = carried v" "leads env ?v1"
      by (rule k; use h q mv(2) assms(8) slot_of_next_tick(1) [OF assms(4) lead_okD(2) [OF assms(2)] False] m in \<open>simp add: slot_of_def last_hash_def\<close>)+
    have "IsLastTickOfSlot r' \<noteq> Some True" using False mv(2) assms(8) by (simp add: IsLastTickOfSlot_def)
    then have "handleEntry env (es @ [e]) ?v1 = Some ?v'"
      using handleEntry_collects [OF _ _ k(4), of "es @ [e]"] lead_okD(6) [OF assms(2)] by simp
    then show ?thesis unfolding tk using k by auto
  qed
qed

lemma tick_ok:
  assumes "key_ok env" "lead_ok env v" "leads env v" "r_tickHeight (va_recorder v) \<noteq> - 1" "va_drained v = Some es"
  shows "\<exists>v'. tick_and_hand_over env es v = Some v' \<and> lead_ok env v' \<and> adds_block env v v' \<and> carried v' = carried v"
proof -
  note d = lead_okD [OF assms(2)]
  have e: "r_entries (va_recorder v) = []" using d(8) assms(5) by simp
  obtain h where h: "Queue_Get (slot_of v) (r_slotHashQueue (va_recorder v)) = Some h" "chain (ve_sha env) (ve_marshalTx env) h (va_collectedEntries v @ es)"
      "linked (ve_sha env) (last_hash h (va_collectedEntries v @ es)) (r_poh (va_recorder v))"
      "list_all (entry_fits (ve_marshalTx env)) (va_collectedEntries v @ es)"
    using d(11) [OF assms(3)] assms(5) e by (auto simp: slot_chain_def uncollected_def slot_of_def Let_def)
  obtain te r' where t: "Recorder_Tick (ve_sha env) (va_recorder v) = (Returns te, r')" "poh_ok (r_poh r')"
      "r_ticksPerSlot r' = r_ticksPerSlot (va_recorder v)" "r_entries r' = []"
      "case te of None \<Rightarrow> linked (ve_sha env) (last_hash h (va_collectedEntries v @ es)) (r_poh r')
       | Some e \<Rightarrow> linked (ve_sha env) (e_Hash e) (r_poh r') \<and> entry_fits (ve_marshalTx env) e \<and>
           e_Hash e = next_hash (ve_sha env) (ve_marshalTx env) (last_hash h (va_collectedEntries v @ es)) e"
    using Recorder_Tick_ok [OF d(1) h(3) d(3), of "ve_marshalTx env"] e by auto
  show ?thesis
  proof (cases te)
    case None
    then have mv: "r_tickHeight r' = r_tickHeight (va_recorder v)" "r_slotHashQueue r' = r_slotHashQueue (va_recorder v)"
        "linked (ve_sha env) (last_hash h (va_collectedEntries v @ es)) (r_poh r')"
      using t(5) Recorder_Tick_moves [OF t(1)] by simp_all
    from flush_no_tick_ok [OF assms(2,3,5) t(4,2,3) mv(1,2) h(1,2) mv(3) h(4) t(1) [unfolded None]] show ?thesis .
  next
    case (Some x)
    note x = t(5) [unfolded Some option.case]
    have f: "list_all (entry_fits (ve_marshalTx env)) (va_collectedEntries v @ es @ [x])" using h(4) x by simp
    have c: "chain (ve_sha env) (ve_marshalTx env) h (va_collectedEntries v @ es @ [x])"
      using h(2) x chain_snoc [of "ve_sha env" "ve_marshalTx env" h "va_collectedEntries v @ es" x] by simp
    from flush_tick_ok [OF assms t(4,2,3) h(1) c conjunct1 [OF x] f t(1) [unfolded Some]] show ?thesis .
  qed
qed


lemma take_out_all_subset:
  "take_out_all env hs res mp = Some (res', mp') \<Longrightarrow> set res' \<subseteq> set res \<union> snd ` set (mp_txs mp)"
proof (induction env hs res mp rule: take_out_all.induct)
  case (2 env txHash selected result mp)
  show ?case
  proof (cases "map_of (mp_txs mp) txHash")
    case None
    then show ?thesis using 2 by simp
  next
    case (Some tx)
    then obtain mp1 where t: "take_out env txHash tx mp = Some mp1" "take_out_all env selected (result @ [tx]) mp1 = Some (res', mp')"
      using 2(3) by (auto split: option.splits)
    have "set (mp_txs mp1) \<subseteq> set (mp_txs mp)"
      using t(1) by (auto simp: take_out_def AList.delete_eq split: option.splits)
    moreover have "tx \<in> snd ` set (mp_txs mp)" using map_of_SomeD [OF Some] by force
    ultimately show ?thesis using 2(2) [OF Some t] by auto
  qed
qed simp

lemma pull_batch_subset:
  assumes "pull_batch env nd = Some (batch, nd')"
  shows "set batch \<subseteq> snd ` set (mp_txs (nd_mempool nd))"
proof -
  obtain mp where "PullBatch (ne_dedupCache (ve_node env)) (ne_trackerCache (ve_node env)) (pool_view (ve_node env) nd) (ve_BatchSize env) (nd_mempool nd) = Returns (batch, mp)"
    using assms by (auto simp: pull_batch_def split: outcome.splits)
  from PullBatch_split [OF this] obtain mp1 where "PullBatch_locked (pool_view (ve_node env) nd) (ve_BatchSize env) (nd_mempool nd) = Returns (batch, mp1)" by blast
  then show ?thesis
    using take_out_all_subset [of "pool_view (ve_node env) nd"]
    by (fastforce simp: PullBatch_locked_def Let_def split: if_splits option.splits)
qed

text \<open>Recording keeps the window of the leader.\<close>

lemma record_pending_ok:
  assumes "lead_ok env v" "leads env v" "va_drained v = None" "0 < ve_BatchSize env"
    and "list_all (\<lambda>tx. tx_fits (ve_marshalTx env) (Some tx)) (va_pendingTxs v)" "record_pending env v = Some v'"
  shows "lead_ok env v' \<and> adds_block env v v'"
proof (cases "va_pendingTxs v = []")
  case True
  then show ?thesis using assms(1,6) by (simp add: record_pending_def peekPendingTxs_def adds_block_def)
next
  case False
  note d = lead_okD [OF assms(1)]
  obtain h where h: "slot_chain env h v" using d(11) [OF assms(2)] by blast
  define txs where "txs = take (nat (min (int (length (va_pendingTxs v))) (ve_BatchSize env))) (va_pendingTxs v)"
  have pk: "peekPendingTxs (ve_BatchSize env) v = Some (Some txs)"
    using False assms(4) by (auto simp: peekPendingTxs_def Let_def txs_def min_def)
  have txs: "map Some txs \<noteq> []" "list_all (tx_fits (ve_marshalTx env)) (map Some txs)"
    using False assms(4,5) by (auto simp: txs_def list_all_iff min_le_iff_disj dest: in_set_takeD)
  obtain out rec where r: "RecordTxs (ve_sha env) (ve_marshalTx env) (map Some txs) (va_recorder v) = (out, rec)" by force
  have l: "linked (ve_sha env) (last_hash h (va_collectedEntries v @ uncollected v)) (r_poh (va_recorder v))"
    using h by (simp add: slot_chain_def Let_def)
  note k = RecordTxs_ok [OF d(1) l txs r] and m = RecordTxs_moves [OF r]
  have v': "va_recorder v' = rec" "va_drained v' = None" "va_collectedEntries v' = va_collectedEntries v" "va_leaderStartAtSlot v' = va_leaderStartAtSlot v"
      "va_waiting v' = None" "va_assembled v' = va_assembled v"
    using assms(3,6) d(7) pk r by (auto simp: record_pending_def dropPendingTxs_def split: sum.splits)
  have lead: "leads env v' = leads env v" "slot_of v' = slot_of v" using m(1,3) v'(1) by (simp_all add: leads_slot slot_of_def)
  have u: "slot_chain env h v' \<and> list_all (\<lambda>e. \<not> e_Tick e) (uncollected v')"
  proof (cases out)
    case (Inl err)
    then have "uncollected v' = uncollected v" using m(5) v' assms(3) by (simp add: uncollected_def)
    then show ?thesis using h k(2) Inl m(1-3) v'(1,3) d(9) by (simp add: slot_chain_def Let_def)
  next
    case (Inr e)
    then have "uncollected v' = uncollected v @ [e]" using m(4) v' assms(3) by (simp add: uncollected_def)
    moreover note k2 = k(2) [unfolded Inr sum.case]
    have "chain (ve_sha env) (ve_marshalTx env) h (va_collectedEntries v @ uncollected v @ [e])"
      using h k2 chain_snoc [of "ve_sha env" "ve_marshalTx env" h "va_collectedEntries v @ uncollected v" e] by (simp add: slot_chain_def Let_def)
    moreover have "linked (ve_sha env) (last_hash h (va_collectedEntries v @ uncollected v @ [e])) (r_poh rec)"
      using conjunct1 [OF conjunct2 [OF k2]] last_hash_snoc [of h "va_collectedEntries v @ uncollected v" e] by (simp only: append.assoc)
    ultimately show ?thesis using h k2 m(1-3) m(4) [OF Inr] v'(1,3) d(9) by (simp add: slot_chain_def Let_def)
  qed
  have "lead_ok env v'" using d(1-7) d(10) [OF assms(2)] k(1) m(1-3) u v' lead(1) by (auto simp: lead_ok_def Let_def)
  then show ?thesis using lead(2) v'(6) by (simp add: adds_block_def)
qed


lemma lead_ok_cong:
  assumes "va_recorder v' = va_recorder v" "va_drained v' = va_drained v" "va_collectedEntries v' = va_collectedEntries v"
    and "va_leaderStartAtSlot v' = va_leaderStartAtSlot v" "va_waiting v' = va_waiting v"
  shows "lead_ok env v' = lead_ok env v"
  using assms by (simp add: lead_ok_def slot_chain_def uncollected_def leads_slot)

lemma slot_of_cong:
  assumes "va_recorder v' = va_recorder v"
  shows "leads env v' = leads env v" "slot_of v' = slot_of v"
  using assms by (simp_all add: leads_slot slot_of_def)

lemma leaderBatchLoop_leads:
  assumes "leads env v" "va_leaderStartAtSlot v \<noteq> NoSlot"
  shows "leaderBatchLoop env v = Option.bind (pull_batch env (va_node v)) (\<lambda>(batch, nd).
    if batch = [] \<and> va_pendingTxs v = [] then Some (v\<lparr>va_node := nd\<rparr>)
    else record_pending env (v\<lparr>va_node := nd, va_pendingTxs := va_pendingTxs v @ batch\<rparr>))"
  using assms by (simp add: leaderBatchLoop_def leads_slot CurrentSlot_def ReadyToStart_def)

lemma leaderBatchLoop_ok:
  assumes "lead_ok env v" "leads env v" "va_drained v = None" "txs_fit env v" "0 < ve_BatchSize env" "leaderBatchLoop env v = Some v'"
  shows "lead_ok env v' \<and> adds_block env v v'"
proof -
  obtain batch nd where p: "pull_batch env (va_node v) = Some (batch, nd)"
    and r: "v' = v\<lparr>va_node := nd\<rparr> \<or> record_pending env (v\<lparr>va_node := nd, va_pendingTxs := va_pendingTxs v @ batch\<rparr>) = Some v'"
    using assms(6) leaderBatchLoop_leads [OF assms(2) lead_okD(6) [OF assms(1)]] by (auto simp: Option.bind_eq_Some_conv split: if_splits)
  let ?v = "v\<lparr>va_node := nd, va_pendingTxs := va_pendingTxs v @ batch\<rparr>"
  have fit: "list_all (\<lambda>tx. tx_fits (ve_marshalTx env) (Some tx)) (va_pendingTxs ?v)"
    using assms(4) pull_batch_subset [OF p] by (auto simp: txs_fit_def list_all_iff)
  from r show ?thesis
  proof
    assume "v' = v\<lparr>va_node := nd\<rparr>"
    then show ?thesis using assms(1) lead_ok_cong [of v' v env] slot_of_cong [of v' v] by (simp add: adds_block_def)
  next
    assume "record_pending env ?v = Some v'"
    from record_pending_ok [OF _ _ _ assms(5) fit this] show ?thesis
      using assms(1-3) lead_ok_cong [of ?v v env] slot_of_cong [of ?v v] by (simp add: adds_block_def)
  qed
qed

lemma AutoHash_lead_ok:
  assumes "lead_ok env v" "leads env v"
  shows "lead_ok env (clock_of env v) \<and> adds_block env v (clock_of env v)"
proof -
  note d = lead_okD [OF assms(1)] and a = AutoHash_ok [OF lead_okD(1) [OF assms(1)], of "ve_sha env"]
  obtain h where "slot_chain env h v" using d(11) [OF assms(2)] by blast
  then have "slot_chain env h (clock_of env v)" using a(2) by (simp add: slot_chain_def clock_of_def uncollected_def Let_def)
  then show ?thesis
    using d(1-9) d(10) [OF assms(2)] a(1)
    by (auto simp: lead_ok_def Let_def clock_of_def uncollected_def leads_slot adds_block_def slot_of_def)
qed

lemma Drain_lead_ok:
  assumes "lead_ok env v" "va_drained v = None" "DrainEntries (va_recorder v) = (es, rec)"
  shows "lead_ok env (v\<lparr>va_recorder := rec, va_drained := Some es\<rparr>) \<and> adds_block env v (v\<lparr>va_recorder := rec, va_drained := Some es\<rparr>)"
proof -
  let ?v = "v\<lparr>va_recorder := rec, va_drained := Some es\<rparr>"
  have r: "es = r_entries (va_recorder v)" "rec = (va_recorder v)\<lparr>r_entries := []\<rparr>" using assms(3) by (simp_all add: DrainEntries_def)
  then have "uncollected ?v = uncollected v" "leads env ?v = leads env v" "slot_of ?v = slot_of v" "slot_chain env h ?v = slot_chain env h v" for h
    using assms(2) by (simp_all add: uncollected_def leads_slot slot_of_def slot_chain_def)
  then show ?thesis using assms(1) r by (simp add: lead_ok_def Let_def adds_block_def)
qed

text \<open>While it leads, a validator ignores requests to synchronize its clock, and its role monitor does nothing.\<close>

lemma leads_no_reset:
  assumes "leads env v" "handleResetPohFromLeader env seedHash slot v = Some v'"
  shows "v' = v"
  using assms by (auto simp: handleResetPohFromLeader_def leads_slot CurrentSlot_def Option.bind_eq_Some_conv)

lemma leads_role:
  assumes "leads env v" "va_leaderStartAtSlot v \<noteq> NoSlot" "roleMonitorLoop env v = Some v'"
  shows "v' = v"
  using assms by (auto simp: roleMonitorLoop_def leads_slot CurrentSlot_def)

lemma led_event_ok:
  assumes "key_ok env" "0 < ve_BatchSize env" "lead_ok env v" "led env ev v" "validator_next env ev v = Some v'"
  shows "lead_ok env v' \<and> adds_block env v v'"
proof (cases ev)
  case EvAutoHash
  then show ?thesis using AutoHash_lead_ok [OF assms(3)] assms(4,5) by simp
next
  case EvDrain
  then show ?thesis using Drain_lead_ok [OF assms(3)] assms(5) by (auto split: if_splits prod.splits)
next
  case EvTick
  then obtain es where "va_drained v = Some es" "tick_and_hand_over env es v = Some v'" using assms(5) by (auto simp: Option.bind_eq_Some_conv)
  then show ?thesis using tick_ok [OF assms(1,3)] EvTick assms(4) by fastforce
next
  case EvBatch
  then show ?thesis using leaderBatchLoop_ok [OF assms(3) _ _ _ assms(2)] assms(4,5) by simp
next
  case EvRole
  then show ?thesis using leads_role [OF _ lead_okD(6) [OF assms(3)]] assms(3-5) by (auto simp: adds_block_def split: if_splits)
next
  case (EvWait w)
  then show ?thesis using assms(5) lead_okD(7) [OF assms(3)] by simp
next
  case (EvSync seedHash slot)
  then show ?thesis using leads_no_reset [of env v seedHash slot v'] assms(3-5) by (simp add: adds_block_def)
next
  case (EvForce seedHash slot)
  then show ?thesis using assms(4) by simp
next
  case (EvBroadcast i)
  then obtain nd where "v' = v\<lparr>va_node := nd, va_spawned := take i (va_spawned v) @ drop (Suc i) (va_spawned v)\<rparr>"
    using assms(5) by (auto split: if_splits outcome.splits)
  then show ?thesis using assms(3) lead_ok_cong [of v' v env] slot_of_cong [of v' v] by (simp add: adds_block_def)
qed

text \<open>The blocks of a run: one for each slot passed since slot \<open>s\<close>, in order.\<close>

definition blocks_of_slots :: "('db, 'c, 't) ValidatorEnv \<Rightarrow> u64 \<Rightarrow> u64 \<Rightarrow> BroadcastedBlock list \<Rightarrow> bool" where
  "blocks_of_slots env s s' bs \<longleftrightarrow> map (\<lambda>b. unat (b_Slot b)) bs = [unat s ..< unat s' + 1] \<and> list_all (block_ok env) bs"

lemma led_run_blocks:
  assumes "led_run env v0 v" "key_ok env" "0 < ve_BatchSize env" "lead_ok env v0" "unat s = unat (slot_of v0) + 1"
  shows "lead_ok env v \<and> unat (slot_of v0) \<le> unat (slot_of v) \<and> (\<exists>bs. va_assembled v = va_assembled v0 @ bs \<and> blocks_of_slots env s (slot_of v) bs)"
  using assms(1)
proof (induction rule: led_run.induct)
  case led_start
  show ?case using assms(4,5) by (simp add: blocks_of_slots_def)
next
  case (led_event v ev v')
  then obtain bs where bs: "va_assembled v = va_assembled v0 @ bs" "blocks_of_slots env s (slot_of v) bs" and le: "unat (slot_of v0) \<le> unat (slot_of v)" by blast
  have e: "lead_ok env v'" "adds_block env v v'" using led_event_ok [OF assms(2,3) _ led_event(2,3)] led_event.IH by blast+
  from e(2) [unfolded adds_block_def] show ?case
  proof (elim disjE exE conjE)
    fix b assume b: "va_assembled v' = va_assembled v @ [b]" "b_Slot b = slot_of v'" "unat (slot_of v') = unat (slot_of v) + 1" "block_ok env b"
    then have "blocks_of_slots env s (slot_of v') (bs @ [b])" using bs(2) le assms(5) by (simp add: blocks_of_slots_def)
    then show ?thesis using e(1) b(1,3) bs(1) le by auto
  qed (use e(1) bs le in auto)
next
  case (led_network v nd)
  then show ?case using lead_ok_cong [of "v\<lparr>va_node := nd\<rparr>" v env] slot_of_cong [of "v\<lparr>va_node := nd\<rparr>" v] by simp
qed


text \<open>The state in which \<open>onLeaderSlotStart\<close> leaves the validator.\<close>

definition may_lead :: "('db, 'c, 't) ValidatorEnv \<Rightarrow> u64 \<Rightarrow> ('db, 'c, 't) Validator \<Rightarrow> bool" where
  "may_lead env slot v \<longleftrightarrow> (let r = va_recorder v in
     poh_ok (r_poh r) \<and> 2 \<le> unat (r_ticksPerSlot r) \<and> maxSize (r_slotHashQueue r) = MaxSlotHashQueueSize \<and>
     va_waiting v = Some slot \<and> va_drained v = None \<and> IsLeader env slot = Some True \<and>
     1 \<le> slot \<and> unat slot * unat (r_ticksPerSlot r) < 2 ^ 64)"

lemma slot_start:
  fixes slot T :: u64
  assumes "1 \<le> slot" "2 \<le> unat T" "unat slot * unat T < 2 ^ 64"
  shows "(slot - 1) * T mod T = 0" "(slot - 1) * T div T = slot - 1" "slot \<noteq> - 1" "unat (slot - 1) + 1 = unat slot"
proof -
  have p: "unat (slot - 1) = unat slot - 1" "1 \<le> unat slot" using assms(1) unat_pred_pos [of slot] by (simp_all add: word_le_nat_alt)
  have "(unat slot - 1) * unat T \<le> unat slot * unat T" by simp
  then have "(unat slot - 1) * unat T < 2 ^ 64" using assms(3) by (rule le_less_trans)
  then have m: "unat ((slot - 1) * T) = unat (slot - 1) * unat T" using p by (simp add: unat_word_ariths(2))
  show "(slot - 1) * T mod T = 0" by (simp only: word_unat_eq_iff unat_mod m) simp
  show "(slot - 1) * T div T = slot - 1" using assms(2) by (simp only: word_unat_eq_iff unat_div m) simp
  show "unat (slot - 1) + 1 = unat slot" using p by simp
  have "unat slot * 2 \<le> unat slot * unat T" using assms(2) by simp
  then have "unat slot * 2 < 2 ^ 64" using assms(3) by (rule le_less_trans)
  then show "slot \<noteq> - 1" by (auto simp: unsigned_minus_1_eq_mask mask_eq_exp_minus_1)
qed

lemma leader_ready_ok:
  assumes "may_lead env slot v"
  shows "lead_ok env (leader_ready slot seed v)" "slot_of (leader_ready slot seed v) = slot - 1" "va_assembled (leader_ready slot seed v) = va_assembled v"
proof -
  let ?v = "leader_ready slot seed v" and ?q = "r_slotHashQueue (va_recorder v)"
  have a: "poh_ok (r_poh (va_recorder v))" "2 \<le> unat (r_ticksPerSlot (va_recorder v))" "maxSize ?q = MaxSlotHashQueueSize" "va_drained v = None"
      "1 \<le> slot" "unat slot * unat (r_ticksPerSlot (va_recorder v)) < 2 ^ 64"
    using assms by (auto simp: may_lead_def Let_def)
  note s = slot_start [OF a(5,2,6)]
  show "va_assembled ?v = va_assembled v" by (simp add: leader_ready_def)
  show sl: "slot_of ?v = slot - 1" using s(2) by (simp add: slot_of_def leader_ready_def Recorder_Reset_def)
  have "poh_ok (Poh_Reset seed (r_poh (va_recorder v)))" using a(1) by (simp add: poh_ok_def Poh_Reset_def)
  moreover have "slot_chain env seed ?v"
    using a(3,4) s(2) Queue_Get_Put [of ?q "slot - 1" seed]
    by (simp add: slot_chain_def leader_ready_def Recorder_Reset_def uncollected_def last_hash_def linked_def Poh_Reset_def)
  ultimately show "lead_ok env ?v"
    using a s(1,3) by (auto simp: lead_ok_def Let_def leader_ready_def Recorder_Reset_def uncollected_def)
qed

lemma onLeaderSlotStart_ok:
  assumes "may_lead env slot v" "onLeaderSlotStart env w slot v = v0" "va_waiting v0 = None"
  shows "lead_ok env v0" "slot_of v0 = slot - 1" "va_assembled v0 = va_assembled v"
proof -
  obtain v1 seed where v1: "v0 = leader_ready slot seed v1" "v1 = v \<or> (\<exists>h a. v1 = v\<lparr>va_recorder := snd (FastForward (ve_sha env) h a (slot - 1) (va_recorder v))\<rparr>)"
  proof (cases w)
    case TickerFires
    then show ?thesis using assms that by (auto simp: onLeaderSlotStart_def may_lead_def Let_def split: if_splits)
  next
    case DeadlineFires
    then show ?thesis using assms(2) that by (auto simp: onLeaderSlotStart_def fastForwardTicks_def Let_def case_prod_beta)
  qed
  have "may_lead env slot v1"
    using assms(1) v1(2) by (auto simp: may_lead_def FastForward_def TickFastForward_def poh_ok_def Let_def)
  then show "lead_ok env v0" "slot_of v0 = slot - 1" "va_assembled v0 = va_assembled v"
    using leader_ready_ok [of env slot v1 seed] v1 by auto
qed

lemma window_blocks:
  assumes "key_ok env" "0 < ve_BatchSize env" "may_lead env slot v" "onLeaderSlotStart env w slot v = v0" "va_waiting v0 = None" "led_run env v0 v1"
  shows "\<exists>bs. va_assembled v1 = va_assembled v @ bs \<and> blocks_of_slots env slot (slot_of v1) bs"
proof -
  note l = onLeaderSlotStart_ok [OF assms(3-5)]
  have "unat (slot - 1) + 1 = unat slot" using assms(3) slot_start(4) by (auto simp: may_lead_def Let_def)
  then have s: "unat slot = unat (slot_of v0) + 1" using l(2) by simp
  show ?thesis using led_run_blocks [OF assms(6,1,2) l(1) s] l(3) by auto
qed



section \<open>No transaction is lost while leading\<close>

lemma peekPendingTxs_take: "peekPendingTxs k v = Some (Some txs) \<Longrightarrow> txs = take (length txs) (va_pendingTxs v)"
  by (auto simp: peekPendingTxs_def Let_def split: if_splits)

lemma record_pending_cases:
  assumes "record_pending env v = Some v'"
  obtains "v' = v" | (recorded) txs out rec where "txs = take (length txs) (va_pendingTxs v)"
    "RecordTxs (ve_sha env) (ve_marshalTx env) (map Some txs) (va_recorder v) = (out, rec)"
    "v' = (case out of Inl e \<Rightarrow> v\<lparr>va_recorder := rec\<rparr> | Inr entry \<Rightarrow> dropPendingTxs (length txs) (v\<lparr>va_recorder := rec\<rparr>))"
proof -
  obtain t where t: "peekPendingTxs (ve_BatchSize env) v = Some t" using assms by (auto simp: record_pending_def Option.bind_eq_Some_conv)
  show ?thesis
  proof (cases t)
    case None
    then show ?thesis using that(1) t assms by (simp add: record_pending_def)
  next
    case (Some txs)
    obtain out rec where r: "RecordTxs (ve_sha env) (ve_marshalTx env) (map Some txs) (va_recorder v) = (out, rec)" by force
    then have "v' = (case out of Inl e \<Rightarrow> v\<lparr>va_recorder := rec\<rparr> | Inr entry \<Rightarrow> dropPendingTxs (length txs) (v\<lparr>va_recorder := rec\<rparr>))"
      using assms t Some by (cases out) (simp_all add: record_pending_def)
    then show ?thesis using that(2) [OF peekPendingTxs_take r] t Some by simp
  qed
qed

lemma record_pending_carried:
  assumes "va_drained v = None" "record_pending env v = Some v'"
  shows "carried v' = carried v"
  using assms(2)
proof (cases rule: record_pending_cases)
  case (recorded txs out rec)
  note m = RecordTxs_moves [OF recorded(2)]
  show ?thesis
  proof (cases out)
    case (Inl e)
    then show ?thesis using recorded(3) m(5) assms(1) by (simp add: carried_def uncollected_def)
  next
    case (Inr entry)
    have "map Some txs @ map Some (drop (length txs) (va_pendingTxs v)) = map Some (va_pendingTxs v)"
      by (metis recorded(1) append_take_drop_id map_append)
    then show ?thesis
      using recorded(3) m(4) [OF Inr] Inr assms(1) by (auto simp: carried_def uncollected_def dropPendingTxs_def)
  qed
qed simp


section \<open>The whole node\<close>

lemma Broadcast_advances:
  assumes "BroadcastBlockWithProcessing env blk nd = Returns (e, nd')" "node_db contents (ve_node env)" "node_ok contents (ve_node env) nd"
  shows "node_advances contents (ve_node env) nd nd'"
proof -
  obtain e1 s where a: "AddBlockPending (ne_p (ve_node env)) (ne_codecs (ve_node env)) (ne_router (ve_node env)) (Some blk) (nd_store nd) = (e1, s)" by force
  note st = stored_advances(1) [OF a assms(2,3)]
  let ?nd = "(nd_set_store s nd)\<lparr>nd_out := nd_out nd @ [SendBlock blk]\<rparr>"
  consider "nd' = nd_set_store s nd" | "vote_for (ve_node env) blk ?nd = Returns (e, nd')"
    using assms(1) a by (auto simp: BroadcastBlockWithProcessing_def Let_def split: option.splits sum.splits if_splits)
  then show ?thesis
  proof cases
    case 1
    then show ?thesis using st by simp
  next
    case 2
    have "node_advances contents (ve_node env) ?nd nd'" using vote_for_advances [OF 2 assms(2)] advances_chain [OF st] by simp
    then show ?thesis using advances_trans [OF st] by simp
  qed
qed

lemma handleEntry_node: "handleEntry env es v = Some v' \<Longrightarrow> va_node v' = va_node v"
  by (auto simp: handleEntry_def Let_def Option.bind_eq_Some_conv split: if_splits)

lemma pull_batch_store: "pull_batch env nd = Some (batch, nd') \<Longrightarrow> nd_store nd' = nd_store nd"
  by (auto simp: pull_batch_def split: outcome.splits)

lemma record_pending_node: "record_pending env v = Some v' \<Longrightarrow> va_node v' = va_node v"
  by (erule record_pending_cases) (auto simp: dropPendingTxs_def split: sum.splits)

lemma leaderBatchLoop_store: "leaderBatchLoop env v = Some v' \<Longrightarrow> nd_store (va_node v') = nd_store (va_node v)"
  by (auto simp: leaderBatchLoop_def Option.bind_eq_Some_conv split: if_splits dest!: pull_batch_store record_pending_node)

lemma validator_next_store:
  assumes "validator_next env ev v = Some v'" "\<And>i. ev \<noteq> EvBroadcast i"
  shows "nd_store (va_node v') = nd_store (va_node v)"
proof (cases ev)
  case EvTick
  then obtain es where "tick_and_hand_over env es v = Some v'" using assms(1) by (auto simp: Option.bind_eq_Some_conv)
  then show ?thesis
    by (auto simp: tick_and_hand_over_def Let_def split: prod.splits outcome.splits if_splits dest!: handleEntry_node)
next
  case EvBatch
  then show ?thesis using leaderBatchLoop_store assms(1) by auto
next
  case (EvWait w)
  then show ?thesis
    using assms(1) by (cases w) (auto simp: onLeaderSlotStart_def leader_ready_def Let_def case_prod_beta)
next
  case (EvSync seedHash slot)
  then show ?thesis using assms(1) by (auto simp: handleResetPohFromLeader_def Option.bind_eq_Some_conv)
next
  case EvRole
  then show ?thesis using assms(1) by (auto simp: roleMonitorLoop_def onLeaderSlotEnd_def Option.bind_eq_Some_conv split: if_splits)
qed (use assms in \<open>auto simp: clock_of_def DrainEntries_def ForceResetPoh_def split: if_splits\<close>)

lemma validator_step_advances:
  assumes "validator_step env v v'" "node_db contents (ve_node env)" "node_ok contents (ve_node env) (va_node v)"
  shows "node_advances contents (ve_node env) (va_node v) (va_node v')"
  using assms(1)
proof cases
  case (own_event ev)
  show ?thesis
  proof (cases "\<exists>i. ev = EvBroadcast i")
    case True
    then show ?thesis using own_event Broadcast_advances [OF _ assms(2,3)] by (auto split: if_splits outcome.splits)
  next
    case False
    then show ?thesis using validator_next_store [OF own_event] assms(3) advances_refl by auto
  qed
next
  case (network nd)
  then show ?thesis using node_step_advances [OF _ assms(2,3)] by simp
qed

lemma validator_run_advances:
  assumes "(validator_step env)\<^sup>*\<^sup>* v v'" "node_db contents (ve_node env)" "node_ok contents (ve_node env) (va_node v)"
  shows "node_advances contents (ve_node env) (va_node v) (va_node v')"
  using assms(1)
proof (induction rule: rtranclp_induct)
  case base
  show ?case by (rule advances_refl [OF assms(3)])
next
  case (step v1 v2)
  have "node_advances contents (ve_node env) (va_node v1) (va_node v2)" by (rule validator_step_advances [OF step(2) assms(2) advances_chain [OF step.IH]])
  with step.IH show ?case by (rule advances_trans)
qed



section \<open>A leader at work\<close>

text \<open>A validator that is scheduled for the slots 1 to 10 and starts to lead at slot 8, with one transaction in its mempool.\<close>

definition lead_env :: "(MemDB, string set, string set) ValidatorEnv" where
  "lead_env = \<lparr>ve_node = coin_env, ve_Pubkey = ''self'', ve_PrivKey = ''key'',
     ve_Schedule = \<lparr>ls_entries = [\<lparr>StartSlot = 1, EndSlot = 10, Leader = ''self''\<rparr>], ls_maxSlot = 10\<rparr>, ve_BatchSize = 2,
     ve_marshalBlock = (\<lambda>_. Inr ''block''), ve_topicBlocks = True, ve_publishBlock = (\<lambda>_. None)\<rparr>"

definition lead_node :: "(MemDB, string set, string set) Node" where
  "lead_node = coin_node\<lparr>nd_mempool := (NewMempool 10 {} None)\<lparr>mp_txs := [(''h'', sample_tx)], mp_txOrder := [''h'']\<rparr>\<rparr>"

definition lead_poh :: "string \<Rightarrow> u64 \<Rightarrow> u64 \<Rightarrow> Poh" where
  "lead_poh h n rem = \<lparr>poh_Hash = h, poh_NumHashes = n, poh_HashesPerTick = 2, poh_RemainingHashes = rem\<rparr>"

definition lead_wait :: "(MemDB, string set, string set) Validator" where
  "lead_wait = \<lparr>va_recorder = NewPohRecorder (lead_poh ''#'' 0 2) 2 7, va_node = lead_node, va_leaderStartAtSlot = NoSlot,
     va_collectedEntries = [], va_pendingTxs = [], va_waiting = Some 8, va_drained = None, va_spawned = [], va_assembled = []\<rparr>"

text \<open>The states after the start, with the clock \<open>p\<close> and the tick height \<open>t\<close>.\<close>

definition lead_at :: "string \<Rightarrow> (MemDB, string set, string set) Node \<Rightarrow> Poh \<Rightarrow> u64 \<Rightarrow> Entry list \<Rightarrow> Entry list option \<Rightarrow> Entry list \<Rightarrow> (MemDB, string set, string set) Validator" where
  "lead_at seed nd p t es dr col = \<lparr>va_recorder = \<lparr>r_poh = p, r_ticksPerSlot = 2, r_tickHeight = t, r_entries = es, r_slotHashQueue = Queue_Put 7 seed NewSlotHashQueue\<rparr>,
     va_node = nd, va_leaderStartAtSlot = 8, va_collectedEntries = col, va_pendingTxs = [], va_waiting = None, va_drained = dr, va_spawned = [], va_assembled = []\<rparr>"

lemma lead_env_simps:
  "ve_sha lead_env = rev" "ve_marshalTx lead_env = (\<lambda>_. [])" "ve_BatchSize lead_env = 2" "IsLeader lead_env 8 = Some True"
  by (simp_all add: lead_env_def coin_env_def) code_simp

lemma lead_may: "may_lead lead_env 8 lead_wait"
  by (simp add: may_lead_def lead_env_simps lead_wait_def lead_poh_def NewPohRecorder_def poh_ok_def NewSlotHashQueue_def word_le_nat_alt)

lemma lead_key: "key_ok lead_env"
  by (simp add: key_ok_def lead_env_def coin_env_def getPublicKeyFromLeaderID_def DecodeBase58ToBytes_def ed25519_SignatureSize_def ed25519_PublicKeySize_def)

lemma lead_begin: "\<exists>seed. onLeaderSlotStart lead_env TickerFires 8 lead_wait = lead_at seed lead_node (lead_poh seed 0 2) 14 [] None []"
proof -
  have "HasCompleteBlock (ne_p (ve_node lead_env)) 7 (nd_store lead_node)" by code_simp
  then have "\<exists>seed. onLeaderSlotStart lead_env TickerFires 8 lead_wait = leader_ready 8 seed lead_wait"
    by (auto simp: lead_wait_def onLeaderSlotStart_def)
  moreover have "leader_ready 8 seed lead_wait = lead_at seed lead_node (lead_poh seed 0 2) 14 [] None []" for seed
    by (simp add: lead_wait_def lead_at_def lead_poh_def leader_ready_def Recorder_Reset_def Poh_Reset_def NewPohRecorder_def)
  ultimately show ?thesis by simp
qed

lemma lead_pulled: "map_option fst (pull_batch lead_env lead_node) = Some [sample_tx]"
  by code_simp

lemmas lead_eval = lead_env_simps lead_at_def lead_poh_def word_less_nat_alt word_le_nat_alt

lemma lead_leads: "leads lead_env (lead_at seed nd p t es dr col)" if "t = 14 \<or> t = 15"
  using that by (auto simp: leads_slot lead_eval)

lemma lead_batch:
  assumes "pull_batch lead_env lead_node = Some ([sample_tx], nd)"
  shows "led lead_env EvBatch (lead_at seed lead_node (lead_poh seed 0 2) 14 [] None [])"
    and "validator_next lead_env EvBatch (lead_at seed lead_node (lead_poh seed 0 2) 14 [] None []) =
      Some (lead_at seed nd (lead_poh (rev seed) 0 1) 14 [NewTxEntry 1 (rev seed) [Some sample_tx]] None [])"
proof -
  let ?v = "lead_at seed lead_node (lead_poh seed 0 2) 14 [] None []"
  have l: "leads lead_env ?v" by (rule lead_leads) simp
  show "led lead_env EvBatch ?v"
    using l by (simp add: txs_fit_def) (simp add: lead_eval lead_node_def tx_fits_def sample_tx_def Bytes_def)
  have "peekPendingTxs 2 (?v\<lparr>va_node := nd, va_pendingTxs := [sample_tx]\<rparr>) = Some (Some [sample_tx])" by (simp add: peekPendingTxs_def)
  moreover have "RecordTxs rev (\<lambda>_. []) [Some sample_tx] (va_recorder ?v) = (Inr (NewTxEntry 1 (rev seed) [Some sample_tx]),
      va_recorder (lead_at seed nd (lead_poh (rev seed) 0 1) 14 [NewTxEntry 1 (rev seed) [Some sample_tx]] None []))"
    by (simp add: RecordTxs_def Poh_Record_def hashOnce_def HashTransactions_def Bytes_def NewTxEntry_def estimateEntrySize_def Let_def lead_eval)
  ultimately have "record_pending lead_env (?v\<lparr>va_node := nd, va_pendingTxs := [sample_tx]\<rparr>) =
      Some (lead_at seed nd (lead_poh (rev seed) 0 1) 14 [NewTxEntry 1 (rev seed) [Some sample_tx]] None [])"
    by (simp add: record_pending_def lead_env_simps dropPendingTxs_def) (simp add: lead_at_def)
  then show "validator_next lead_env EvBatch ?v = Some (lead_at seed nd (lead_poh (rev seed) 0 1) 14 [NewTxEntry 1 (rev seed) [Some sample_tx]] None [])"
    using assms leaderBatchLoop_leads [OF l] by (simp add: lead_at_def)
qed

lemma lead_drain:
  assumes "t = 14 \<or> t = 15"
  shows "led_run lead_env v0 (lead_at seed nd p t es None col) \<Longrightarrow> led_run lead_env v0 (lead_at seed nd p t [] (Some es) col)"
  using led_event [of lead_env v0 "lead_at seed nd p t es None col" EvDrain] lead_leads [OF assms, of seed nd p es None col]
  by (simp add: lead_at_def DrainEntries_def)

lemma lead_tick:
  assumes "led_run lead_env v0 (lead_at seed nd (lead_poh h n 1) 14 [] (Some es) col)" "n < 10"
  shows "led_run lead_env v0 (lead_at seed nd (lead_poh (rev h) 0 2) 15 [] None (col @ es @ [NewTickEntry (n + 1) (rev h)]))"
proof -
  let ?v = "lead_at seed nd (lead_poh h n 1) 14 [] (Some es) col"
  let ?v1 = "lead_at seed nd (lead_poh (rev h) 0 2) 15 [] None col"
  have "unat n < 10" using assms(2) by (simp add: word_less_nat_alt)
  then have "unat (n + 1) \<le> 10" using unat_succ_small [of n] by simp
  then have "Recorder_Tick rev (va_recorder ?v) = (Returns (Some (NewTickEntry (n + 1) (rev h))), va_recorder ?v1)"
    by (simp add: Recorder_Tick_def Poh_Tick_def hashOnce_def NewTickEntry_def IsLastTickOfSlot_def Let_def lead_eval)
  moreover have "handleEntry lead_env (es @ [NewTickEntry (n + 1) (rev h)]) ?v1 = Some (?v1\<lparr>va_collectedEntries := va_collectedEntries ?v1 @ es @ [NewTickEntry (n + 1) (rev h)]\<rparr>)"
    by (rule handleEntry_collects) (use lead_leads [of 15] in \<open>simp_all add: lead_at_def IsLastTickOfSlot_def\<close>)
  ultimately have "validator_next lead_env EvTick ?v = Some (lead_at seed nd (lead_poh (rev h) 0 2) 15 [] None (col @ es @ [NewTickEntry (n + 1) (rev h)]))"
    by (simp add: tick_and_hand_over_def lead_at_def lead_env_simps)
  then show ?thesis using led_event [OF assms(1), of EvTick] lead_leads [of 14 seed nd "lead_poh h n 1" "[]" "Some es" col] by (simp add: lead_at_def)
qed


lemma lead_last:
  assumes "led_run lead_env v0 (lead_at seed nd (lead_poh h n 1) 15 [] (Some es) col)" "n < 10" "col \<noteq> []"
  shows "\<exists>v b. led_run lead_env v0 v \<and> slot_of v = 8 \<and> va_assembled v = [b] \<and> b_Slot b = 8 \<and> bb_Entries b = col @ es @ [NewTickEntry (n + 1) (rev h)]"
proof -
  let ?v = "lead_at seed nd (lead_poh h n 1) 15 [] (Some es) col" and ?e = "NewTickEntry (n + 1) (rev h)"
  let ?r = "\<lparr>r_poh = lead_poh (rev h) 0 2, r_ticksPerSlot = 2, r_tickHeight = 16, r_entries = [], r_slotHashQueue = Queue_Put 8 (rev h) (Queue_Put 7 seed NewSlotHashQueue)\<rparr>"
  let ?v1 = "?v\<lparr>va_recorder := ?r, va_drained := None\<rparr>"
  have "unat n < 10" using assms(2) by (simp add: word_less_nat_alt)
  then have "unat (n + 1) \<le> 10" using unat_succ_small [of n] by simp
  then have "Recorder_Tick rev (va_recorder ?v) = (Returns (Some ?e), ?r)"
    by (simp add: Recorder_Tick_def Poh_Tick_def hashOnce_def NewTickEntry_def IsLastTickOfSlot_def Let_def lead_eval)
  then have t: "tick_and_hand_over lead_env es ?v = handleEntry lead_env (es @ [?e]) ?v1"
    by (simp add: tick_and_hand_over_def lead_env_simps)
  obtain v where "handleEntry lead_env (es @ [?e]) ?v1 = Some v" and v: "va_recorder v = ?r" "va_assembled v = [assemble lead_env 8 (col @ es @ [?e]) ?v1]"
    using handleEntry_assembles [of "es @ [?e]" ?v1 8 lead_env] assms(3)
    by (simp add: lead_at_def NewTickEntry_def IsLastTickOfSlot_def CurrentSlot_def lead_env_simps Let_def)
  then have "validator_next lead_env EvTick ?v = Some v" using t by (simp add: lead_at_def)
  moreover have "led lead_env EvTick ?v" using lead_leads [of 15 seed nd "lead_poh h n 1" "[]" "Some es" col] by (simp add: lead_at_def)
  ultimately have "led_run lead_env v0 v" using led_event [OF assms(1)] by blast
  then show ?thesis using v by (auto simp: slot_of_def)
qed

lemma lead_hash:
  assumes "led_run lead_env v0 (lead_at seed nd (lead_poh h 0 2) 15 es dr col)"
  shows "led_run lead_env v0 (lead_at seed nd (lead_poh (rev h) 1 1) 15 es dr col)"
  using led_event [OF assms, of EvAutoHash] lead_leads [of 15 seed nd "lead_poh h 0 2" es dr col]
  by (simp add: clock_of_def AutoHash_def hashOnce_def lead_eval)

lemma lead_window: "\<exists>v b. led_run lead_env (onLeaderSlotStart lead_env TickerFires 8 lead_wait) v \<and> slot_of v = 8 \<and>
    va_assembled v = [b] \<and> b_Slot b = 8 \<and> length (bb_Entries b) = 3 \<and> concat (map e_Transactions (bb_Entries b)) = [Some sample_tx]"
proof -
  obtain seed where s: "onLeaderSlotStart lead_env TickerFires 8 lead_wait = lead_at seed lead_node (lead_poh seed 0 2) 14 [] None []" using lead_begin by blast
  obtain nd where nd: "pull_batch lead_env lead_node = Some ([sample_tx], nd)" using lead_pulled by auto
  note b = led_event [OF led_start lead_batch(1) [OF nd] lead_batch(2) [OF nd], of seed]
  note t = lead_tick [OF lead_drain [OF _ b]]
  note u = lead_last [OF lead_drain [OF _ lead_hash [OF t]]]
  have "\<exists>v b. led_run lead_env (lead_at seed lead_node (lead_poh seed 0 2) 14 [] None []) v \<and> slot_of v = 8 \<and> va_assembled v = [b] \<and> b_Slot b = 8 \<and>
      bb_Entries b = ([] @ [NewTxEntry 1 (rev seed) [Some sample_tx]] @ [NewTickEntry (0 + 1) (rev (rev seed))]) @ [] @ [NewTickEntry (1 + 1) (rev (rev (rev (rev seed))))]"
    by (rule u) (simp_all add: word_less_nat_alt)
  then show ?thesis unfolding s by (fastforce simp: NewTickEntry_def NewTxEntry_def)
qed





section \<open>What can go wrong\<close>

text \<open>
  The limit of 100 entries per slot is checked by the recorder for the entries since the last flush only, so a slot can
  have more. The block is assembled all the same, and no one accepts its entries.
\<close>

lemma oversized_block_rejected:
  "100 < length es \<Longrightarrow> VerifyPoH sha Marshal (assemble env slot es v) = Some (TooManyEntries (length es))"
  by (simp add: VerifyPoH_def VerifyEntries_def)

lemma flush_resets_limit: "length (r_entries (snd (DrainEntries r))) = 0"
  by (simp add: DrainEntries_def)

text \<open>
  Transactions that were pulled from the mempool but not recorded before the slots of the leader ended are dropped when it leads
  again: they are no longer in the mempool, and the duplicate check keeps them out.
\<close>

lemma pending_dropped: "va_pendingTxs (leader_ready slot seedHash v) = []"
  by (simp add: leader_ready_def)

text \<open>Entries that are flushed when the slot has passed to another leader are in no block.\<close>

lemma late_record_lost:
  assumes "es \<noteq> []" "r_ticksPerSlot (va_recorder v) \<noteq> 0" "r_tickHeight (va_recorder v) mod r_ticksPerSlot (va_recorder v) \<noteq> 0"
    and "IsLeader env (slot_of v + 1) = Some False"
  shows "handleEntry env es v = Some v"
  using assms by (simp add: handleEntry_def CurrentSlot_def IsLastTickOfSlot_def ReadyToStart_def slot_of_def)

text \<open>
  With one tick per slot nothing has been collected when the slot ends: its entries go into the block of the next slot,
  whose hash chain they do not continue.
\<close>

lemma single_tick_slot:
  assumes "es \<noteq> []" "va_collectedEntries v = []" "leads env v" "va_leaderStartAtSlot v \<noteq> NoSlot"
  shows "handleEntry env es v = Some (v\<lparr>va_collectedEntries := es\<rparr>)"
proof -
  obtain y where "IsLeader env (r_tickHeight (va_recorder v) div r_ticksPerSlot (va_recorder v)) = Some y"
    using assms(3) IsLeader_total leads_slot by blast
  then show ?thesis using assms by (auto simp: leads_slot handleEntry_def CurrentSlot_def IsLastTickOfSlot_def ReadyToStart_def)
qed

lemma unat_uminus:
  fixes w :: u64
  assumes "w \<noteq> 0"
  shows "unat (- w) = 2 ^ 64 - unat w"
proof -
  have "(unat (- w) + unat w) mod 2 ^ 64 = unat (- w + w)" by (simp only: unat_word_ariths) simp
  then have "2 ^ 64 dvd unat (- w) + unat w" by (simp add: mod_eq_0_iff_dvd)
  then obtain k where k: "unat (- w) + unat w = 2 ^ 64 * k" by (elim dvdE)
  have "0 < unat w" using assms by (simp add: unat_gt_0)
  then have "0 < k" using k by (cases k) auto
  moreover have "k < 2"
  proof (rule ccontr)
    assume "\<not> k < 2"
    then have "2 ^ 64 * 2 \<le> (2 ^ 64 * k :: nat)" by (intro mult_le_mono2) simp
    then show False using k unat_bound [of w] unat_bound [of "- w"] by simp
  qed
  ultimately have "k = 1" by simp
  then show ?thesis using k by simp
qed

text \<open>
  At the deadline the clock runs from the latest stored slot to the slot before the leader's. When a later block is already
  stored, the distance wraps around: for one slot back it hashes \<open>2 ^ 64\<close> times less the hashes of a slot.
\<close>

lemma fast_forward_backwards:
  assumes "r_ticksPerSlot rec * poh_HashesPerTick (r_poh rec) \<noteq> 0"
  shows "fst (FastForward sha h (slot + 1) slot rec) = (sha ^^ (2 ^ 64 - unat (r_ticksPerSlot rec * poh_HashesPerTick (r_poh rec)))) h"
proof -
  have "(slot * r_ticksPerSlot rec - (slot + 1) * r_ticksPerSlot rec) * poh_HashesPerTick (r_poh rec) =
      - (r_ticksPerSlot rec * poh_HashesPerTick (r_poh rec))"
    by (simp add: algebra_simps)
  then show ?thesis using assms by (simp add: FastForward_def TickFastForward_def Let_def unat_uminus)
qed

end
