(* ===== verification/Custom_Objects.thy ===== *)
theory Custom_Objects
  imports Object_Registry
begin

text \<open>
  Customizable objects: the inline methods of \<open>libs/rocksdb/customizable.h\<close>, and the functions of
  \<open>libs/rocksdb/utilities/customizable_util.h\<close> that make an object from its id and options through the registry. \<open>T\<close>
  is its name \<open>T::Type()\<close>. \<open>GetOptionsMap\<close>, \<open>ConfigureNewObject\<close> and \<open>ConfigureFromMap\<close> are declared only and are fields
  of \<open>Customizing\<close>, with the registry and what \<open>Object_Registry\<close> has as parameters. The result pointer is an argument
  and a component of the result; \<open>None\<close> is the null pointer.
\<close>

section \<open>Instances and wrapped instances\<close>

text \<open>The options of an object by name, and the object it wraps.\<close>

datatype Customizable =
  Customizable (cust_Name: string) (cust_NickName: "string option") (cust_options: "string \<Rightarrow> nat option") (cust_Inner: "Customizable option")

definition IsInstanceOf :: "string \<Rightarrow> Customizable \<Rightarrow> bool" where
  "IsInstanceOf name c =
     (if name = [] then False
      else if name = cust_Name c then True
      else case cust_NickName c of None \<Rightarrow> False | Some nickname \<Rightarrow> name = nickname)"

primrec GetOptionsPtr :: "string \<Rightarrow> Customizable \<Rightarrow> nat option" where
  "GetOptionsPtr name (Customizable n nick opts inner) =
     (case opts name of
        Some ptr \<Rightarrow> Some ptr
      | None \<Rightarrow> (case map_option (GetOptionsPtr name) inner of None \<Rightarrow> None | Some r \<Rightarrow> r))"

text \<open>Both overloads, with and without \<open>const\<close>.\<close>

primrec CheckedCast :: "string \<Rightarrow> Customizable \<Rightarrow> Customizable option" where
  "CheckedCast kClassName (Customizable n nick opts inner) =
     (if IsInstanceOf kClassName (Customizable n nick opts inner) then Some (Customizable n nick opts inner)
      else case map_option (CheckedCast kClassName) inner of None \<Rightarrow> None | Some r \<Rightarrow> r)"

primrec wrapped_chain :: "Customizable \<Rightarrow> Customizable list" where
  "wrapped_chain (Customizable n nick opts inner) =
     Customizable n nick opts inner # (case map_option wrapped_chain inner of None \<Rightarrow> [] | Some cs \<Rightarrow> cs)"

lemma CheckedCast_find: "CheckedCast kClassName c = find (IsInstanceOf kClassName) (wrapped_chain c)"
proof (induction c)
  case (Customizable n nick opts inner)
  then show ?case by (cases inner) auto
qed

text \<open>The cast and the lookup of options take the outermost object that has what is asked for.\<close>

lemma GetOptionsPtr_first:
  "GetOptionsPtr name c = (case filter (\<lambda>x. cust_options x name \<noteq> None) (wrapped_chain c) of [] \<Rightarrow> None | x # xs \<Rightarrow> cust_options x name)"
proof (induction c)
  case (Customizable n nick opts inner)
  then show ?case by (cases inner) (auto split: option.splits)
qed

section \<open>Making objects\<close>

record 'o Customizing =
  cz_mk :: status_ctor
  cz_Matches :: "PatternEntry \<Rightarrow> string \<Rightarrow> bool"
  cz_GetManagedObject :: "'o ObjectRegistry \<Rightarrow> string \<Rightarrow> string \<Rightarrow> 'o option"
  cz_alive :: "'o \<Rightarrow> bool"
  cz_Name :: "'o \<Rightarrow> string"
  cz_GetId :: "'o \<Rightarrow> string"
  cz_Type :: string
  cz_GetOptionsMap :: "ConfigOptions \<Rightarrow> 'o option \<Rightarrow> string \<Rightarrow> Status \<times> string \<times> (string \<times> string) list"
  cz_ConfigureNewObject :: "ConfigOptions \<Rightarrow> 'o option \<Rightarrow> (string \<times> string) list \<Rightarrow> Status \<times> 'o option"
  cz_ConfigureFromMap :: "ConfigOptions \<Rightarrow> (string \<times> string) list \<Rightarrow> 'o \<Rightarrow> Status \<times> 'o"

text \<open>What the three functions for shared, unique and static objects do with the object the registry returned.\<close>

definition configure_result :: "'o Customizing \<Rightarrow> ConfigOptions \<Rightarrow> (string \<times> string) list \<Rightarrow> Status \<times> 'o option \<Rightarrow> Status \<times> 'o option" where
  "configure_result cz config_options opt_map created =
     (case created of (status, result) \<Rightarrow>
        if ignore_unsupported_options config_options \<and> IsNotSupported status then (Status_OK, result)
        else if Status_ok status then cz_ConfigureNewObject cz config_options result opt_map
        else (status, result))"

definition Util_NewSharedObject :: "'o Customizing \<Rightarrow> ConfigOptions \<Rightarrow> 'o ObjectRegistry \<Rightarrow> string \<Rightarrow> (string \<times> string) list \<Rightarrow> 'o option \<Rightarrow> Status \<times> 'o option" where
  "Util_NewSharedObject cz config_options registry oid opt_map result =
     (if oid \<noteq> [] then configure_result cz config_options opt_map (NewSharedObject (cz_mk cz) (cz_Matches cz) (cz_Type cz) registry oid result)
      else if opt_map = [] then (Status_OK, None)
      else (Status_NotSupported_msg (cz_mk cz) (msg_bytes ''Cannot reset object '') [], result))"

definition Util_NewUniqueObject :: "'o Customizing \<Rightarrow> ConfigOptions \<Rightarrow> 'o ObjectRegistry \<Rightarrow> string \<Rightarrow> (string \<times> string) list \<Rightarrow> 'o option \<Rightarrow> Status \<times> 'o option" where
  "Util_NewUniqueObject cz config_options registry oid opt_map result =
     (if oid \<noteq> [] then configure_result cz config_options opt_map (NewUniqueObject (cz_mk cz) (cz_Matches cz) (cz_Type cz) registry oid result)
      else if opt_map = [] then (Status_OK, None)
      else (Status_NotSupported_msg (cz_mk cz) (msg_bytes ''Cannot reset object '') [], result))"

definition Util_NewStaticObject :: "'o Customizing \<Rightarrow> ConfigOptions \<Rightarrow> 'o ObjectRegistry \<Rightarrow> string \<Rightarrow> (string \<times> string) list \<Rightarrow> 'o option \<Rightarrow> Status \<times> 'o option" where
  "Util_NewStaticObject cz config_options registry oid opt_map result =
     (if oid \<noteq> [] then configure_result cz config_options opt_map (NewStaticObject (cz_mk cz) (cz_Matches cz) (cz_Type cz) registry oid result)
      else if opt_map = [] then (Status_OK, None)
      else (Status_NotSupported_msg (cz_mk cz) (msg_bytes ''Cannot reset object '') [], result))"

definition NewManagedObject :: "'o Customizing \<Rightarrow> ConfigOptions \<Rightarrow> string \<Rightarrow> (string \<times> string) list \<Rightarrow> 'o option \<Rightarrow> 'o ObjectRegistry \<Rightarrow> Status \<times> 'o option \<times> 'o ObjectRegistry" where
  "NewManagedObject cz config_options oid opt_map result registry =
     (if oid \<noteq> [] then
        (case GetOrCreateManagedObject (cz_mk cz) (cz_Matches cz) (cz_GetManagedObject cz) (cz_alive cz) (cz_Name cz) (cz_GetId cz) (cz_Type cz)
            (Some (cz_ConfigureFromMap cz config_options opt_map)) oid result registry of (status, result', registry') \<Rightarrow>
           if ignore_unsupported_options config_options \<and> IsNotSupported status then (Status_OK, result', registry')
           else (status, result', registry'))
      else (Status_NotSupported_msg (cz_mk cz) (msg_bytes ''Cannot reset object '') [], result, registry))"

definition LoadSharedObject :: "'o Customizing \<Rightarrow> ConfigOptions \<Rightarrow> 'o ObjectRegistry \<Rightarrow> string \<Rightarrow> 'o option \<Rightarrow> Status \<times> 'o option" where
  "LoadSharedObject cz config_options registry value result =
     (case cz_GetOptionsMap cz config_options result value of (status, oid, opt_map) \<Rightarrow>
        if \<not> Status_ok status then (status, result)
        else Util_NewSharedObject cz config_options registry oid opt_map result)"

definition LoadUniqueObject :: "'o Customizing \<Rightarrow> ConfigOptions \<Rightarrow> 'o ObjectRegistry \<Rightarrow> string \<Rightarrow> 'o option \<Rightarrow> Status \<times> 'o option" where
  "LoadUniqueObject cz config_options registry value result =
     (case cz_GetOptionsMap cz config_options result value of (status, oid, opt_map) \<Rightarrow>
        if \<not> Status_ok status then (status, result)
        else Util_NewUniqueObject cz config_options registry oid opt_map result)"

definition LoadStaticObject :: "'o Customizing \<Rightarrow> ConfigOptions \<Rightarrow> 'o ObjectRegistry \<Rightarrow> string \<Rightarrow> 'o option \<Rightarrow> Status \<times> 'o option" where
  "LoadStaticObject cz config_options registry value result =
     (case cz_GetOptionsMap cz config_options result value of (status, oid, opt_map) \<Rightarrow>
        if \<not> Status_ok status then (status, result)
        else Util_NewStaticObject cz config_options registry oid opt_map result)"

definition LoadManagedObject :: "'o Customizing \<Rightarrow> ConfigOptions \<Rightarrow> string \<Rightarrow> 'o option \<Rightarrow> 'o ObjectRegistry \<Rightarrow> Status \<times> 'o option \<times> 'o ObjectRegistry" where
  "LoadManagedObject cz config_options value result registry =
     (case cz_GetOptionsMap cz config_options None value of (status, oid, opt_map) \<Rightarrow>
        if \<not> Status_ok status then (status, result, registry)
        else if value = [] then (Status_OK, None, registry)
        else NewManagedObject cz config_options oid opt_map result registry)"


section \<open>Loaded objects\<close>

text \<open>A new managed object comes with a good status.\<close>

lemma GetOrCreateManagedObject_ok:
  assumes "GetOrCreateManagedObject mk Matches GMO alive Name GetId type cfunc oid None reg = (s, Some c, reg')"
  shows "Status_ok s"
  using assms by (auto simp: GetOrCreateManagedObject_def create_managed_def Let_def split: option.splits if_splits prod.splits)

lemma NewManagedObject_created:
  assumes "NewManagedObject cz co oid opts None reg = (s, Some c, reg')"
  shows "oid \<noteq> []" "\<exists>s'. Status_ok s' \<and> GetOrCreateManagedObject (cz_mk cz) (cz_Matches cz) (cz_GetManagedObject cz) (cz_alive cz) (cz_Name cz) (cz_GetId cz) (cz_Type cz)
    (Some (cz_ConfigureFromMap cz co opts)) oid None reg = (s', Some c, reg')"
proof -
  show oid: "oid \<noteq> []" using assms by (auto simp: NewManagedObject_def)
  obtain s' r rg where g: "GetOrCreateManagedObject (cz_mk cz) (cz_Matches cz) (cz_GetManagedObject cz) (cz_alive cz) (cz_Name cz) (cz_GetId cz) (cz_Type cz)
      (Some (cz_ConfigureFromMap cz co opts)) oid None reg = (s', r, rg)" by (metis prod_cases3)
  then have "r = Some c" "rg = reg'" using assms oid by (auto simp: NewManagedObject_def split: if_splits)
  then show "\<exists>s'. Status_ok s' \<and> GetOrCreateManagedObject (cz_mk cz) (cz_Matches cz) (cz_GetManagedObject cz) (cz_alive cz) (cz_Name cz) (cz_GetId cz) (cz_Type cz)
      (Some (cz_ConfigureFromMap cz co opts)) oid None reg = (s', Some c, reg')"
    using g GetOrCreateManagedObject_ok [of "cz_mk cz"] by (intro exI [of _ s']) simp
qed


definition cache_cz :: "nat Customizing" where
  "cache_cz = \<lparr>cz_mk = header_ctor, cz_Matches = (\<lambda>_ _. True), cz_GetManagedObject = (\<lambda>_ _ _. None), cz_alive = (\<lambda>_. True),
     cz_Name = (\<lambda>_. ''LRU''), cz_GetId = (\<lambda>_. ''LRU@7#1''), cz_Type = ''Cache'', cz_GetOptionsMap = (\<lambda>_ _ text. (Status_OK, takeWhile (\<lambda>ch. ch \<noteq> CHR '';'') text, [])),
     cz_ConfigureNewObject = (\<lambda>_ r _. (Status_OK, r)), cz_ConfigureFromMap = (\<lambda>_ _ x. (Status_OK, x))\<rparr>"


text \<open>The functions for shared and for unique objects return the same object, and statuses of the same code.\<close>

lemma shared_unique_agree:
  assumes "status_message_ctor (cz_mk cz)"
  shows "snd (LoadSharedObject cz co reg text r) = snd (LoadUniqueObject cz co reg text r) \<and>
    code (fst (LoadSharedObject cz co reg text r)) = code (fst (LoadUniqueObject cz co reg text r))"
proof -
  have c: "code (Status_InvalidArgument_msg (cz_mk cz) a b) = kInvalidArgument" for a b
    using status_message_ctor.message_factories_recognised(4) [OF assms, of a b] by (simp add: status_is.simps)
  have n: "snd (NewSharedObject (cz_mk cz) (cz_Matches cz) (cz_Type cz) reg oid r) = snd (NewUniqueObject (cz_mk cz) (cz_Matches cz) (cz_Type cz) reg oid r) \<and>
      code (fst (NewSharedObject (cz_mk cz) (cz_Matches cz) (cz_Type cz) reg oid r)) = code (fst (NewUniqueObject (cz_mk cz) (cz_Matches cz) (cz_Type cz) reg oid r))" for oid
    by (simp add: NewSharedObject_def NewUniqueObject_def c split: prod.splits)
  have k: "snd (configure_result cz co opts x) = snd (configure_result cz co opts y) \<and> code (fst (configure_result cz co opts x)) = code (fst (configure_result cz co opts y))"
    if "snd x = snd y \<and> code (fst x) = code (fst y)" for opts x y
    using that by (cases x; cases y) (simp add: configure_result_def status_is.simps Status_ok_def)
  have u: "snd (Util_NewSharedObject cz co reg oid opts r) = snd (Util_NewUniqueObject cz co reg oid opts r) \<and>
      code (fst (Util_NewSharedObject cz co reg oid opts r)) = code (fst (Util_NewUniqueObject cz co reg oid opts r))" for oid opts
    using k [OF n [of oid], of opts] by (simp add: Util_NewSharedObject_def Util_NewUniqueObject_def)
  obtain st oid opts where "cz_GetOptionsMap cz co r text = (st, oid, opts)" by (metis prod_cases3)
  then show ?thesis using u [of oid opts] by (simp add: LoadSharedObject_def LoadUniqueObject_def)
qed

text \<open>
  When the options of a new object are refused, the caller gets the error and, in place of the object it had, the new object
  that was not fully configured.
\<close>

lemma failed_configuration_replaces:
  assumes "oid \<noteq> []" "NewSharedObject (cz_mk cz) (cz_Matches cz) (cz_Type cz) reg oid r = (Status_OK, Some x)"
    and "cz_ConfigureNewObject cz co (Some x) opts = (e, Some y)" "\<not> Status_ok e"
  shows "Util_NewSharedObject cz co reg oid opts r = (e, Some y)"
  using assms by (simp add: Util_NewSharedObject_def configure_result_def)

end
