(* ===== verification/Batch_Handlers.thy ===== *)
theory Batch_Handlers
  imports Option_Types
begin

text \<open>
  \<open>WriteBatch::Handler\<close> of \<open>libs/rocksdb/write_batch.h\<close>: what a handler does with the records of a write batch when it
  overrides none of the methods for column families. The four old methods without a status (\<open>Put\<close>, \<open>Delete\<close>,
  \<open>SingleDelete\<close>, \<open>Merge\<close>) may be overridden and are fields of \<open>OldHandler\<close> that act on the state \<open>'h\<close> of the handler. The
  methods \<open>LogData\<close> and \<open>Continue\<close> and the loop \<open>WriteBatch::Iterate\<close> are declared only; its documented use of the handler,
  in the order of the batch until a status is not OK, is \<open>handle_batch\<close>.
\<close>

text \<open>The records of a batch, with the arguments of the method that handles them.\<close>

datatype BatchRecord =
    PutCF u32 bytes bytes
  | TimedPutCF u32 bytes bytes u64
  | PutEntityCF u32 bytes bytes
  | DeleteCF u32 bytes
  | SingleDeleteCF u32 bytes
  | DeleteRangeCF u32 bytes bytes
  | MergeCF u32 bytes bytes
  | PutBlobIndexCF u32 bytes bytes
  | MarkBeginPrepare bool
  | MarkEndPrepare bytes
  | MarkNoop bool
  | MarkRollback bytes
  | MarkCommit bytes
  | MarkCommitWithTimestamp bytes bytes

record 'h OldHandler =
  oh_Put :: "bytes \<Rightarrow> bytes \<Rightarrow> 'h \<Rightarrow> 'h"
  oh_Delete :: "bytes \<Rightarrow> 'h \<Rightarrow> 'h"
  oh_SingleDelete :: "bytes \<Rightarrow> 'h \<Rightarrow> 'h"
  oh_Merge :: "bytes \<Rightarrow> bytes \<Rightarrow> 'h \<Rightarrow> 'h"

abbreviation (input) OldHandler_default :: "'h OldHandler" where
  "OldHandler_default \<equiv> \<lparr>oh_Put = (\<lambda>_ _ h. h), oh_Delete = (\<lambda>_ h. h), oh_SingleDelete = (\<lambda>_ h. h), oh_Merge = (\<lambda>_ _ h. h)\<rparr>"

text \<open>The default implementations, one equation per method.\<close>

fun handle :: "status_ctor \<Rightarrow> 'h OldHandler \<Rightarrow> BatchRecord \<Rightarrow> 'h \<Rightarrow> Status \<times> 'h" where
  "handle mk oh (PutCF cf key value) h =
     (if cf = 0 then (Status_OK, oh_Put oh key value h)
      else (Status_InvalidArgument_msg mk (msg_bytes ''non-default column family and PutCF not implemented'') [], h))"
| "handle mk oh (TimedPutCF cf key value write_time) h =
     (Status_InvalidArgument_msg mk (msg_bytes ''TimedPutCF not implemented'') [], h)"
| "handle mk oh (PutEntityCF cf key entity) h =
     (Status_NotSupported_msg mk (msg_bytes ''PutEntityCF not implemented'') [], h)"
| "handle mk oh (DeleteCF cf key) h =
     (if cf = 0 then (Status_OK, oh_Delete oh key h)
      else (Status_InvalidArgument_msg mk (msg_bytes ''non-default column family and DeleteCF not implemented'') [], h))"
| "handle mk oh (SingleDeleteCF cf key) h =
     (if cf = 0 then (Status_OK, oh_SingleDelete oh key h)
      else (Status_InvalidArgument_msg mk (msg_bytes ''non-default column family and SingleDeleteCF not implemented'') [], h))"
| "handle mk oh (DeleteRangeCF cf begin_key end_key) h =
     (Status_InvalidArgument_msg mk (msg_bytes ''DeleteRangeCF not implemented'') [], h)"
| "handle mk oh (MergeCF cf key value) h =
     (if cf = 0 then (Status_OK, oh_Merge oh key value h)
      else (Status_InvalidArgument_msg mk (msg_bytes ''non-default column family and MergeCF not implemented'') [], h))"
| "handle mk oh (PutBlobIndexCF cf key value) h =
     (Status_InvalidArgument_msg mk (msg_bytes ''PutBlobIndexCF not implemented'') [], h)"
| "handle mk oh (MarkBeginPrepare u) h = (Status_InvalidArgument_msg mk (msg_bytes ''MarkBeginPrepare() handler not defined.'') [], h)"
| "handle mk oh (MarkEndPrepare xid) h = (Status_InvalidArgument_msg mk (msg_bytes ''MarkEndPrepare() handler not defined.'') [], h)"
| "handle mk oh (MarkNoop empty_batch) h = (Status_InvalidArgument_msg mk (msg_bytes ''MarkNoop() handler not defined.'') [], h)"
| "handle mk oh (MarkRollback xid) h = (Status_InvalidArgument_msg mk (msg_bytes ''MarkRollbackPrepare() handler not defined.'') [], h)"
| "handle mk oh (MarkCommit xid) h = (Status_InvalidArgument_msg mk (msg_bytes ''MarkCommit() handler not defined.'') [], h)"
| "handle mk oh (MarkCommitWithTimestamp xid commit_ts) h =
     (Status_InvalidArgument_msg mk (msg_bytes ''MarkCommitWithTimestamp() handler not defined.'') [], h)"

fun handle_batch :: "status_ctor \<Rightarrow> 'h OldHandler \<Rightarrow> BatchRecord list \<Rightarrow> 'h \<Rightarrow> Status \<times> 'h" where
  "handle_batch mk oh [] h = (Status_OK, h)"
| "handle_batch mk oh (r # rs) h = (case handle mk oh r h of (s, h') \<Rightarrow> if Status_ok s then handle_batch mk oh rs h' else (s, h'))"

section \<open>What a handler supports by default\<close>

text \<open>The records that reach an old method, and what it does.\<close>

fun old_call :: "'h OldHandler \<Rightarrow> BatchRecord \<Rightarrow> ('h \<Rightarrow> 'h) option" where
  "old_call oh (PutCF cf key value) = (if cf = 0 then Some (oh_Put oh key value) else None)"
| "old_call oh (DeleteCF cf key) = (if cf = 0 then Some (oh_Delete oh key) else None)"
| "old_call oh (SingleDeleteCF cf key) = (if cf = 0 then Some (oh_SingleDelete oh key) else None)"
| "old_call oh (MergeCF cf key value) = (if cf = 0 then Some (oh_Merge oh key value) else None)"
| "old_call oh _ = None"

lemma handle_old_call:
  assumes "status_message_ctor mk"
  shows "case old_call oh r of
      Some f \<Rightarrow> handle mk oh r h = (Status_OK, f h)
    | None \<Rightarrow> snd (handle mk oh r h) = h \<and> (IsInvalidArgument (fst (handle mk oh r h)) \<or> IsNotSupported (fst (handle mk oh r h)))"
proof -
  have "IsInvalidArgument (Status_InvalidArgument_msg mk a b)" "IsNotSupported (Status_NotSupported_msg mk a b)" for a b
    using status_message_ctor.message_factories_recognised(3,4) [OF assms, of a b] by simp_all
  then show ?thesis by (cases r) simp_all
qed

lemma handle_not_ok:
  assumes "status_message_ctor mk" "old_call oh r = None"
  shows "\<not> Status_ok (fst (handle mk oh r h))" "snd (handle mk oh r h) = h"
  using handle_old_call [OF assms(1), of oh r h] assms(2) by (auto simp: Status_ok_def status_is.simps)

text \<open>
  A batch is handled up to the first record that is not a plain operation on the default column family: the old
  methods are called in order for those before it, and the status is OK exactly if there is none.
\<close>

lemma handle_batch_prefix:
  assumes "status_message_ctor mk"
  shows "snd (handle_batch mk oh rs h) = fold (\<lambda>r. the (old_call oh r)) (takeWhile (\<lambda>r. old_call oh r \<noteq> None) rs) h"
    and "Status_ok (fst (handle_batch mk oh rs h)) \<longleftrightarrow> list_all (\<lambda>r. old_call oh r \<noteq> None) rs"
proof (induction rs arbitrary: h)
  case (Cons r rs)
  {
    case 1
    show ?case
      using handle_old_call [OF assms, of oh r h] handle_not_ok [OF assms, of oh r h] Cons.IH
      by (cases "old_call oh r") (auto simp: case_prod_beta)
  next
    case 2
    show ?case
      using handle_old_call [OF assms, of oh r h] handle_not_ok [OF assms, of oh r h] Cons.IH
      by (cases "old_call oh r") (auto simp: case_prod_beta)
  }
qed simp_all

text \<open>
  A record for another column family is not passed over, as the comment on \<open>PutCF\<close> has it, but ends the batch with an error.
\<close>

lemma other_family_fails:
  assumes "status_message_ctor mk" "cf \<noteq> 0"
  shows "\<not> Status_ok (fst (handle_batch mk oh (PutCF cf key value # rs) h))"
  using handle_batch_prefix(2) [OF assms(1), of oh "PutCF cf key value # rs" h] assms(2) by simp

end
