(* ===== verification/Scans.thy ===== *)
theory Scans
  imports Option_Types
begin

text \<open>
  The iterators of \<open>libs/rocksdb/multi_scan.h\<close> over a range of the database and over the ranges of a multi scan, and the
  default decisions of \<open>libs/rocksdb/compaction_filter.h\<close>. The \<open>Iterator\<close> of the database is an interface: its methods are
  fields of \<open>DbIterator\<close> on a state \<open>'i\<close>. The step from one range to the next is declared only. An exception is a value of
  \<open>scan_exception\<close>; a destructor or a function with a failed assertion returns \<open>None\<close>.
\<close>

section \<open>A scan of one range\<close>

record 'i DbIterator =
  it_Valid :: "'i \<Rightarrow> bool"
  it_key :: "'i \<Rightarrow> bytes"
  it_value :: "'i \<Rightarrow> bytes"
  it_Next :: "'i \<Rightarrow> 'i"
  it_Seek :: "bytes \<Rightarrow> 'i \<Rightarrow> 'i"
  it_status :: "'i \<Rightarrow> Status"

datatype scan_exception = LogicError string | MultiScanException Status

record 'i ScanIterator =
  si_db_iter :: "'i option"
  si_valid :: bool
  si_status :: Status
  si_result :: "bytes \<times> bytes"

definition ScanIterator_new :: "'i DbIterator \<Rightarrow> 'i \<Rightarrow> 'i ScanIterator" where
  "ScanIterator_new it db_iter =
     \<lparr>si_db_iter = Some db_iter, si_valid = it_Valid it db_iter, si_status = Status_OK,
      si_result = (if it_Valid it db_iter then (it_key it db_iter, it_value it db_iter) else ([], []))\<rparr>"

abbreviation (input) ScanIterator_default :: "'i ScanIterator" where
  "ScanIterator_default \<equiv> \<lparr>si_db_iter = None, si_valid = False, si_status = Status_OK, si_result = ([], [])\<rparr>"

definition ScanIterator_destroy :: "'i ScanIterator \<Rightarrow> unit option" where
  "ScanIterator_destroy si = (if Status_ok (si_status si) then Some () else None)"

text \<open>\<open>operator++\<close>, with the iterator as it is left when an exception is thrown.\<close>

definition scan_next :: "'i DbIterator \<Rightarrow> 'i ScanIterator \<Rightarrow> scan_exception option \<times> 'i ScanIterator" where
  "scan_next it si =
     (if \<not> si_valid si then (Some (LogicError ''Trying to advance invalid iterator''), si)
      else
        let db_iter = it_Next it (the (si_db_iter si));
            si1 = si\<lparr>si_db_iter := Some db_iter, si_status := it_status it db_iter\<rparr> in
        if \<not> Status_ok (si_status si1) then (Some (MultiScanException (si_status si1)), si1)
        else let si2 = si1\<lparr>si_valid := it_Valid it db_iter\<rparr> in
          (None, if si_valid si2 then si2\<lparr>si_result := (it_key it db_iter, it_value it db_iter)\<rparr> else si2))"

text \<open>The comparison with the end, and \<open>operator*\<close> and \<open>operator->\<close>.\<close>

definition scan_at_end :: "'i ScanIterator \<Rightarrow> bool" where
  "scan_at_end si \<longleftrightarrow> \<not> si_valid si"

definition scan_deref :: "'i ScanIterator \<Rightarrow> scan_exception + bytes \<times> bytes" where
  "scan_deref si = (if \<not> si_valid si then Inl (LogicError ''Trying to deref invalid iterator'') else Inr (si_result si))"

section \<open>A scan of several ranges\<close>

record 'i MultiScanIterator =
  ms_scan_opts :: "bytes list"
  ms_idx :: size_t
  ms_db_iter :: 'i
  ms_status :: Status

text \<open>A range is its start key; the scan of the current range is on the same database iterator.\<close>

definition MultiScanIterator_new :: "'i DbIterator \<Rightarrow> bytes list \<Rightarrow> 'i \<Rightarrow> (scan_exception + 'i MultiScanIterator) \<times> 'i" where
  "MultiScanIterator_new it scan_opts db_iter =
     (if scan_opts = [] then (Inl (LogicError ''Zero scans in multi-scan''), db_iter)
      else let db_iter1 = it_Seek it (scan_opts ! 0) db_iter; status = it_status it db_iter1 in
        (if \<not> Status_ok status then Inl (MultiScanException status)
         else Inr \<lparr>ms_scan_opts = scan_opts, ms_idx = 0, ms_db_iter = db_iter1, ms_status = status\<rparr>, db_iter1))"

definition multi_at_end :: "'i MultiScanIterator \<Rightarrow> bool" where
  "multi_at_end ms \<longleftrightarrow> unat (ms_idx ms) \<ge> length (ms_scan_opts ms)"

section \<open>What a scan visits\<close>

text \<open>The database iterator has the entries \<open>kvs\<close> left and reads them without an error.\<close>

fun has_left :: "'i DbIterator \<Rightarrow> 'i \<Rightarrow> (bytes \<times> bytes) list \<Rightarrow> bool" where
  "has_left it i [] \<longleftrightarrow> \<not> it_Valid it i"
| "has_left it i (kv # kvs) \<longleftrightarrow> it_Valid it i \<and> (it_key it i, it_value it i) = kv \<and> Status_ok (it_status it (it_Next it i)) \<and> has_left it (it_Next it i) kvs"

text \<open>The loop over a scan: what it sees until it is at the end, or the exception, within so many rounds.\<close>

fun scan_loop :: "'i DbIterator \<Rightarrow> nat \<Rightarrow> 'i ScanIterator \<Rightarrow> (scan_exception + (bytes \<times> bytes) list \<times> 'i ScanIterator) option" where
  "scan_loop it 0 si = None"
| "scan_loop it (Suc n) si =
     (if scan_at_end si then Some (Inr ([], si))
      else case scan_deref si of
        Inl e \<Rightarrow> Some (Inl e)
      | Inr kv \<Rightarrow>
          (case scan_next it si of
             (Some e, si') \<Rightarrow> Some (Inl e)
           | (None, si') \<Rightarrow> (case scan_loop it n si' of Some (Inr (kvs, si'')) \<Rightarrow> Some (Inr (kv # kvs, si'')) | r \<Rightarrow> r)))"

definition scan_state :: "'i DbIterator \<Rightarrow> 'i \<Rightarrow> 'i ScanIterator \<Rightarrow> bool" where
  "scan_state it i si \<longleftrightarrow> si_db_iter si = Some i \<and> si_valid si = it_Valid it i \<and> Status_ok (si_status si) \<and>
     (it_Valid it i \<longrightarrow> si_result si = (it_key it i, it_value it i))"

lemma scan_state_new: "scan_state it i (ScanIterator_new it i)"
  by (simp add: scan_state_def ScanIterator_new_def)

lemma scan_next_state:
  assumes "scan_state it i si" "it_Valid it i" "Status_ok (it_status it (it_Next it i))"
  shows "\<exists>si'. scan_next it si = (None, si') \<and> scan_state it (it_Next it i) si'"
  using assms by (auto simp: scan_state_def scan_next_def Let_def)

lemma scan_loop_visits:
  assumes "scan_state it i si" "has_left it i kvs" "length kvs < n"
  shows "\<exists>si'. scan_loop it n si = Some (Inr (kvs, si')) \<and> scan_at_end si' \<and> ScanIterator_destroy si' = Some ()"
  using assms
proof (induction kvs arbitrary: i si n)
  case Nil
  then show ?case by (cases n) (auto simp: scan_state_def scan_at_end_def ScanIterator_destroy_def)
next
  case (Cons kv kvs)
  then obtain m where m: "n = Suc m" "length kvs < m" by (cases n) auto
  have k: "it_Valid it i" "(it_key it i, it_value it i) = kv" "Status_ok (it_status it (it_Next it i))" "has_left it (it_Next it i) kvs"
    using Cons.prems(2) by simp_all
  obtain si1 where s: "scan_next it si = (None, si1)" "scan_state it (it_Next it i) si1" using scan_next_state [OF Cons.prems(1) k(1,3)] by blast
  have "\<not> scan_at_end si" "scan_deref si = Inr kv" using Cons.prems(1) k(1,2) by (auto simp: scan_state_def scan_at_end_def scan_deref_def)
  then show ?case using Cons.IH [OF s(2) k(4) m(2)] s(1) m(1) by auto
qed


text \<open>An iterator over a list.\<close>

definition list_iterator :: "(bytes \<times> bytes) list DbIterator" where
  "list_iterator = \<lparr>it_Valid = (\<lambda>xs. xs \<noteq> []), it_key = fst \<circ> hd, it_value = snd \<circ> hd, it_Next = tl, it_Seek = (\<lambda>k. dropWhile (\<lambda>kv. fst kv \<noteq> k)), it_status = (\<lambda>_. Status_OK)\<rparr>"


text \<open>
  When the database iterator fails, the step throws, and the iterator it leaves behind carries the failed status: its destructor,
  which runs while the exception is handled, fails its assertion.
\<close>

lemma failed_scan_aborts:
  assumes "scan_next it si = (Some (MultiScanException s), si')"
  shows "ScanIterator_destroy si' = None"
  using assms by (auto simp: scan_next_def ScanIterator_destroy_def Let_def split: if_splits)

text \<open>A scan of a database iterator that has failed already ends at once, without an exception.\<close>

lemma failed_begin_unnoticed: "\<not> it_Valid it i \<Longrightarrow> scan_loop it 1 (ScanIterator_new it i) = Some (Inr ([], ScanIterator_new it i))"
  by (simp add: ScanIterator_new_def scan_at_end_def)

lemma multi_scan_starts:
  assumes "MultiScanIterator_new it scan_opts i = (Inr ms, i')"
  shows "\<not> multi_at_end ms" "Status_ok (ms_status ms)" "i' = it_Seek it (hd scan_opts) i"
  using assms by (auto simp: MultiScanIterator_new_def multi_at_end_def Let_def hd_conv_nth split: if_splits)

section \<open>Compaction filters\<close>

datatype ValueType = kValue | kMergeOperand | kBlobIndex | kWideColumnEntity

datatype Decision =
    kKeep
  | kRemove
  | kChangeValue
  | kRemoveAndSkipUntil
  | kChangeBlobIndex
  | kIOErrorDecision
  | kPurge
  | kChangeWideColumnEntity
  | kUndetermined

text \<open>The methods a filter may override; \<open>Filter\<close> returns whether to remove, the new value, and whether it was changed.\<close>

record CompactionFilter =
  cf_Filter :: "int \<Rightarrow> bytes \<Rightarrow> bytes \<Rightarrow> bytes \<Rightarrow> bool \<times> bytes \<times> bool"
  cf_FilterMergeOperand :: "int \<Rightarrow> bytes \<Rightarrow> bytes \<Rightarrow> bool"

definition CompactionFilter_default :: CompactionFilter where
  "CompactionFilter_default = \<lparr>cf_Filter = (\<lambda>level key existing_value new_value. (False, new_value, False)), cf_FilterMergeOperand = (\<lambda>level key operand. False)\<rparr>"

definition FilterV2 :: "CompactionFilter \<Rightarrow> int \<Rightarrow> bytes \<Rightarrow> ValueType \<Rightarrow> bytes \<Rightarrow> bytes \<Rightarrow> (Decision \<times> bytes) option" where
  "FilterV2 cf level key value_type existing_value new_value =
     (case value_type of
        kValue \<Rightarrow>
          (case cf_Filter cf level key existing_value new_value of (rv, new_value', value_changed) \<Rightarrow>
             Some (if rv then kRemove else if value_changed then kChangeValue else kKeep, new_value'))
      | kMergeOperand \<Rightarrow> Some (if cf_FilterMergeOperand cf level key existing_value then kRemove else kKeep, new_value)
      | kBlobIndex \<Rightarrow> Some (kKeep, new_value)
      | kWideColumnEntity \<Rightarrow> None)"

definition FilterV3 :: "CompactionFilter \<Rightarrow> int \<Rightarrow> bytes \<Rightarrow> ValueType \<Rightarrow> bytes option \<Rightarrow> 'w option \<Rightarrow> bytes \<Rightarrow> (Decision \<times> bytes) option" where
  "FilterV3 cf level key value_type existing_value existing_columns new_value =
     (if existing_value \<noteq> None \<and> existing_columns \<noteq> None then None
      else if value_type \<noteq> kWideColumnEntity \<and> existing_value = None then None
      else if value_type = kWideColumnEntity \<and> existing_columns = None then None
      else if value_type = kWideColumnEntity then Some (kKeep, new_value)
      else FilterV2 cf level key value_type (the existing_value) new_value)"

text \<open>
  With one of value and columns given, as the value type requires, the default filter always decides; it never asks for a
  decision that its value type does not support, and keeps everything unless one of the two methods is overridden.
\<close>

lemma FilterV3_decides:
  assumes "(value_type = kWideColumnEntity) = (existing_value = None)" "(existing_value = None) = (existing_columns \<noteq> None)"
  shows "\<exists>d v. FilterV3 cf level key value_type existing_value existing_columns new_value = Some (d, v) \<and>
    d \<in> {kKeep, kRemove, kChangeValue} \<and> (d = kChangeValue \<longrightarrow> value_type = kValue) \<and> (value_type \<in> {kBlobIndex, kWideColumnEntity} \<longrightarrow> d = kKeep)"
  using assms by (cases value_type) (auto simp: FilterV3_def FilterV2_def split: prod.splits)

lemma default_filter_keeps:
  assumes "FilterV3 CompactionFilter_default level key value_type existing_value existing_columns new_value = Some (d, v)"
  shows "d = kKeep" "v = new_value"
  using assms by (cases value_type; auto simp: FilterV3_def FilterV2_def CompactionFilter_default_def split: if_splits)+

end
