(* ===== verification/Spec2Isabelle.thy ===== *)
theory Spec2Isabelle
  imports Prelude Slices Pinnable Statuses Enum_Sets Comparators Interval_Sets Option_Types
    Object_Registry Wide_Columns Write_Buffers Transactions Databases Poh_Entries Poh_Clock
    Leader_Schedules Collectors Blocks Stores Block_Stores Trackers Ledgers Mempools Nodes Validators Custom_Objects Batch_Handlers Scans
begin

text \<open>
  A verification library for \<^verbatim>\<open>mmn\<close>, a node of a proof-of-authority block chain written in Go, and for the inline C++ code
  of the headers of the key-value store RocksDB that it is built with (\<open>libs/rocksdb\<close>). All paths are relative to \<open>src/\<close>.

  \<^bold>\<open>The program.\<close> A leader schedule gives each slot to a validator. The validator of the slot pulls transactions from its mempool,
  records them in a proof-of-history clock, and at the last tick of the slot assembles the entries into a signed block. Every
  node checks the block, stores it as pending and votes for it; when enough votes are collected the ledger applies the
  transfers and user contents of the block and writes accounts, transaction results and the block in one database
  batch. A node that is behind asks its peers for blocks and applies them in the order of the slots. The stores use a database
  provider, one of whose implementations is RocksDB.

  \<^bold>\<open>Conventions.\<close> Machine integers are words of their width; Go strings and byte slices are \<open>string\<close>, C++ bytes \<open>bytes\<close>. A Go map
  is an association list. An error is a value of a sum or option type, a panic is \<open>Panics\<close> of the type \<open>outcome\<close> (or \<open>None\<close> where
  a function has no other result to distinguish), and a failed C++ assertion is \<open>None\<close>. A field \<open>x_\<close> of a C++ class is \<open>x_f\<close>. A pointer to a
  transaction is an \<open>option\<close>. A method that holds a lock is one step, and goroutines interleave such steps. Code that is
  not part of the sources (SHA-256, Ed25519, base58, JSON, caches, database clients, functions that a header only
  declares) is a parameter; what is assumed of it is a locale or a named predicate, and each of these has an interpretation or a witness.

  \<^bold>\<open>The theories of the node.\<close>
  \<^item> \<open>Transactions\<close> (\<open>transaction/transaction.go\<close>), \<open>Trackers\<close> (\<open>transaction/tracker.go\<close>): the signed text of a transaction determines its
    fields as long as they hold no separator, the signature check, and the tracker of pending transactions, whose
    result does not depend on the order of its two kinds of calls.
  \<^item> \<open>Poh_Entries\<close> (\<open>poh/entry.go\<close>, \<open>verify.go\<close>, \<open>utils.go\<close>) and \<open>Poh_Clock\<close> (\<open>poh.go\<close>, \<open>poh_recorder.go\<close>, \<open>poh_service.go\<close>,
    \<open>slot_hash_queue.go\<close>): what verification accepts, that emitted entries verify under all quiet interleavings, that
    the clock ticks, and that running it ahead is the same as ticking.
  \<^item> \<open>Leader_Schedules\<close> (\<open>poh/lead_schedule.go\<close>) and \<open>Collectors\<close> (\<open>consensus/\<close>): the leader of a slot, votes as sets of voters,
    and when two quorums share a voter.
  \<^item> \<open>Blocks\<close> (\<open>block/block.go\<close>, \<open>utils/convert.go\<close>, \<open>common/base58.go\<close>): what the hash of a block covers, and the round trip of messages.
  \<^item> \<open>Databases\<close> (\<open>db/\<close>): the interface of a provider as a locale over the map it stores, with the LevelDB and RocksDB providers as
    interpretations; \<open>Stores\<close> and \<open>Block_Stores\<close> (\<open>store/\<close>) prove their operations inside that locale: each is an update of
    that map or leaves it as it is, and a restart recovers the counters.
  \<^item> \<open>Ledgers\<close> (\<open>ledger/ledger.go\<close>, \<open>types/user_content.go\<close>): finalizing a block refines the abstract sequence of transfers, conserves
    the supply, reports a status for every transaction, keeps the author of a thread, and always returns.
  \<^item> \<open>Mempools\<close> (\<open>mempool/\<close>): admission, batches in order of arrival, duplicates, and the invariant between the pool,
    its order, its duplicate set and the pending totals.
  \<^item> \<open>Nodes\<close> (callbacks of \<open>p2p/pubsub.go\<close>, \<open>p2p/vote.go\<close>, \<open>p2p/block_ordering.go\<close>): composes the above on one database; \<open>node_step\<close> is what a
    node can receive. A completed quorum applies the block once; the ordering of synchronized blocks ends and leaves no gap.
  \<^item> \<open>Validators\<close> (\<open>validator/validator.go\<close>, \<open>BroadcastBlockWithProcessing\<close> of \<open>p2p/block.go\<close>): the leader on top of a node; \<open>validator_step\<close> is
    everything that can happen. The supply is conserved in all runs; while it leads it makes one block per slot that
    verifies and loses no transaction.
  \<^item> This theory: a block of a leader is accepted by every other node of the network.

  \<^bold>\<open>The theories of the headers.\<close>
  \<^item> \<open>Slices\<close>, \<open>Pinnable\<close> (\<open>slice.h\<close>, \<open>cleanable.h\<close>): slices into a byte memory, their order, and that cleanups run exactly once.
  \<^item> \<open>Statuses\<close> (\<open>status.h\<close>, \<open>io_status.h\<close>): codes, factories and predicates, which partition the codes.
  \<^item> \<open>Enum_Sets\<close>, \<open>Interval_Sets\<close> (\<open>data_structure.h\<close>), \<open>Comparators\<close> (\<open>comparator.h\<close>): the sets refine sets of values and of
    keys; the generic and the specialized insertion agree.
  \<^item> \<open>Option_Types\<close> (\<open>utilities/options_type.h\<close>, \<open>convenience.h\<close>), \<open>Object_Registry\<close> (\<open>utilities/object_registry.h\<close>), \<open>Custom_Objects\<close>
    (\<open>customizable.h\<close>, \<open>utilities/customizable_util.h\<close>): parsing and printing of options, which factory is used, and that managed objects are shared.
  \<^item> \<open>Wide_Columns\<close>, \<open>Write_Buffers\<close>, \<open>Batch_Handlers\<close>, \<open>Scans\<close> (\<open>wide_columns.h\<close>, \<open>write_buffer_manager.h\<close>, \<open>write_batch.h\<close>, \<open>multi_scan.h\<close>,
    \<open>compaction_filter.h\<close>): moves keep the columns, when to flush and to stall, default handlers, and what a scan visits.

  \<open>Prelude\<close> holds the word lemmas, the type \<open>outcome\<close> and the facts on lists and maps that the others share.

  \<^bold>\<open>Bounds and termination.\<close> The search for consecutive slots of \<open>Nodes\<close> is a \<open>partial_function\<close>, since it does not end for the largest slot
  number; that it ends otherwise is proved. The loop over a scan takes a number of rounds, and one more than the
  number of entries is proved to suffice. All other loops are total functions. Clocks have between 2 and 100 hashes per tick, as
  verification accepts no more; a leader has at least two ticks per slot, and heights of ticks fit 64 bits. Where these
  conditions or those on interleavings are violated, separate lemmas show what goes wrong.

  \<^bold>\<open>Not modelled.\<close> Network hosts, streams and discovery, RPC servers and their request handlers, rate limits and abuse
  detection (all driven by wall-clock time and sockets), the event bus (channels), the Redis provider, configuration, metrics and logs. Text limits
  that rest on Unicode normalization and regular expressions. Of the headers, everything that is only declared, as its
  code is in the binary library, and the option structures, forwarding wrappers and constant accessors, about which there is nothing to prove.
\<close>

section \<open>A block on its way from the leader to the other nodes\<close>

text \<open>The follower uses the same hash, encodings and signatures as the leader and has the same schedule.\<close>

definition same_network :: "('db, 'c, 't) ValidatorEnv \<Rightarrow> ('db2, 'c2, 't2) NodeEnv \<Rightarrow> bool" where
  "same_network env env' \<longleftrightarrow> ne_sha env' = ve_sha env \<and> ne_marshalTx env' = ve_marshalTx env \<and> ne_base58 env' = ne_base58 (ve_node env) \<and>
     ne_edVerify env' = ne_edVerify (ve_node env) \<and> ne_leaderSchedule env' = ve_Schedule env"

lemma window_block_ok:
  assumes "key_ok env" "0 < ve_BatchSize env" "may_lead env slot v" "onLeaderSlotStart env w slot v = v0" "va_waiting v0 = None" "led_run env v0 v1"
    and "b \<in> set (drop (length (va_assembled v)) (va_assembled v1))"
  shows "block_ok env b"
proof -
  obtain bs where "va_assembled v1 = va_assembled v @ bs" "list_all (block_ok env) bs"
    using window_blocks [OF assms(1-6)] by (auto simp: blocks_of_slots_def)
  then show ?thesis using assms(7) by (simp add: list_all_iff)
qed

lemma verified_block_transactions:
  assumes "VerifyPoH sha Marshal b = None"
  shows "None \<notin> set (concat (map e_Transactions (bb_Entries b)))"
proof -
  have "list_all (entry_fits Marshal) (bb_Entries b)"
    using assms by (simp add: VerifyPoH_def VerifyEntries_def VerifyEntries_loop_accepts split: if_splits)
  then show ?thesis by (fastforce simp: list_all_iff entry_fits_def tx_fits_def)
qed

lemma OnBlockReceived_accepts:
  assumes "block_ok env b" "length (bb_Entries b) \<le> 100" "same_network env env'"
    and "get_block (ne_p env') (ne_codecs env') (b_Slot b) (nd_store nd) = None" "verifyBlockTransactions env' b = None"
    and "VerifyBlockTransactions (ne_dedupCache env') (pool_view env' nd) (map the (concat (map e_Transactions (bb_Entries b)))) (nd_mempool nd) = None"
  shows "OnBlockReceived env' b nd =
    (case AddBlockPending (ne_p env') (ne_codecs env') (ne_router env') (Some b) (nd_store nd) of
       (Some e, s) \<Rightarrow> Returns (Some (StoreFailed e), nd_set_store s nd)
     | (None, s) \<Rightarrow> received_stored env' b (map the (concat (map e_Transactions (bb_Entries b)))) (nd_set_store s nd))"
proof -
  have v: "VerifyPoH (ne_sha env') (ne_marshalTx env') b = None" using assms(1-3) by (simp add: block_ok_def same_network_def)
  have "IsLeaderAt (b_Slot b) (b_LeaderID b) (ne_leaderSchedule env') = Returns True" "VerifySignature (ne_base58 env') (ne_edVerify env') b"
    using assms(1,3) by (metis block_ok_def same_network_def)+
  then show ?thesis
    using assms(4-6) verified_block_transactions [OF v] v by (simp add: OnBlockReceived_def mark_PoH_def Let_def)
qed


text \<open>A follower that has the database of slot 7 and receives the block of slot 8.\<close>

definition follow_env :: "(MemDB, string set, string set) NodeEnv" where
  "follow_env = coin_env\<lparr>ne_leaderSchedule := ve_Schedule lead_env, ne_selfPubKey := ''other''\<rparr>"

definition follow_node :: "(MemDB, string set, string set) Node" where
  "follow_node = coin_node\<lparr>nd_mempool := SetCurrentSlot 7 (NewMempool 10 {} None)\<rparr>"

lemma follow_checks:
  "get_block (ne_p follow_env) (ne_codecs follow_env) 8 (nd_store follow_node) = None"
  "VerifyBlockTransactions (ne_dedupCache follow_env) (pool_view follow_env follow_node) [sample_tx] (nd_mempool follow_node) = None"
  by code_simp+


end
